(* ===== verification/Trak_Prelude.thy ===== *)
theory Trak_Prelude imports Main "HOL-Library.Word" "HOL-Library.Stream" begin

text \<open>
  Shared vocabulary of the TRAK-OS development: the machine integers of
  src/include/types.h, C strings as byte lists, the outcome of undefined C behaviour,
  the lemma collections the component theories extend, and the generic facts on
  \<open>fold\<close>, lists and words that several components use.
\<close>

unbundle bit_operations_syntax

section \<open>Machine integers and C strings\<close>

type_synonym u8 = "8 word"
type_synonym u16 = "16 word"
type_synonym u32 = "32 word"

text \<open>
  Plain \<open>char\<close> is signed on the x86 target of the build script. A character is kept
  as its byte; the code's signed comparisons are written with \<^term>\<open>sint\<close>.
\<close>

type_synonym cchar = u8

text \<open>
  A C string is the list of its bytes in front of the terminator: reading at the length of
  the list yields the terminator.
\<close>

definition cstr :: "string \<Rightarrow> cchar list" where
  "cstr s = map of_char s"

definition str_at :: "cchar list \<Rightarrow> nat \<Rightarrow> cchar" where
  "str_at s i = (if i < length s then s ! i else 0)"

text \<open>The C behaviours that the language leaves undefined and the code can run into.\<close>

datatype fault = Out_Of_Bounds | Divide_Error

text \<open>
  Lemma collections: \<open>frame\<close> holds what an operation leaves alone, \<open>inv_intros\<close> the
  invariant preservation rules, \<open>wsimps\<close> the word-to-number conversions.
\<close>

named_theorems frame
named_theorems inv_intros
named_theorems wsimps

section \<open>Generic lemmas\<close>

text \<open>Index ranges with numeral bounds stay folded: the loops are proved in general.\<close>

declare upt_rec_numeral [simp del]

subsection \<open>Folding function updates over index lists\<close>

lemma fold_fun_upd_const:
  "fold (\<lambda>i f. f(h i := e)) xs f j = (if j \<in> h ` set xs then e else f j)"
  by (induction xs arbitrary: f) auto

lemma fold_nested:
  "fold (\<lambda>y s. fold (\<lambda>x s. g (y * w + x) s) [0..<w] s) [a..<b] s
     = fold g [a * w..<b * w] s"
proof (induction b arbitrary: s)
  case 0
  show ?case by simp
next
  case (Suc b)
  have row: "fold (\<lambda>x s. g (b * w + x) s) [0..<w] s = fold g [b * w..<b * w + w] s" for s
  proof -
    have "[b * w..<b * w + w] = map (\<lambda>x. b * w + x) [0..<w]"
      by (simp add: map_add_upt add.commute)
    then show ?thesis by (simp add: fold_map comp_def)
  qed
  show ?case
  proof (cases "a \<le> b")
    case True
    then have split: "[a * w..<Suc b * w] = [a * w..<b * w] @ [b * w..<b * w + w]"
      using upt_add_eq_append [of "a * w" "b * w" w] by (simp add: add.commute)
    have "[a..<Suc b] = [a..<b] @ [b]" using True by simp
    then show ?thesis
      by (simp only: split fold_append comp_def Suc.IH fold.simps id_def row)
  next
    case False
    then have "Suc b * w \<le> a * w" by (metis mult_le_mono1 not_less_eq_eq)
    with False show ?thesis by simp
  qed
qed

lemma fold_invariant_list:
  "P s \<Longrightarrow> (\<And>x s. x \<in> set xs \<Longrightarrow> P s \<Longrightarrow> P (f x s)) \<Longrightarrow> P (fold f xs s)"
  by (induction xs arbitrary: s) auto

subsection \<open>Words\<close>

lemma unat_of_nat_small [wsimps]:
  "n < 2 ^ LENGTH('a::len) \<Longrightarrow> unat (of_nat n :: 'a word) = n"
  by (simp add: unsigned_of_nat take_bit_nat_eq_self)

lemma of_nat_eq_word_iff:
  "a < 2 ^ LENGTH('a::len) \<Longrightarrow> b < 2 ^ LENGTH('a) \<Longrightarrow>
     ((of_nat a :: 'a word) = of_nat b) = (a = b)"
  by (metis unat_of_nat_small)

lemma word_eq_of_nat_iff:
  "b < 2 ^ LENGTH('a::len) \<Longrightarrow> ((w :: 'a word) = of_nat b) = (unat w = b)"
  by (metis unat_of_nat_small word_unat_eq_iff)

lemma unat_Suc_word:
  assumes "(w :: 'a::len word) < v"
  shows "unat (w + 1) = Suc (unat w)"
proof -
  have "unat w + 1 < 2 ^ LENGTH('a)"
    using assms unsigned_less [where 'a = nat, of v] by (simp add: word_less_nat_alt del: unsigned_less)
  then show ?thesis by (simp add: unat_word_ariths)
qed

lemma unat_add_of_nat [wsimps]:
  "unat a + i < 2 ^ LENGTH('a) \<Longrightarrow> unat ((a :: 'a::len word) + of_nat i) = unat a + i"
  by (simp add: unat_word_ariths unat_of_nat_small)

text \<open>The two halves of a 16-bit value, as sent to byte-wide device registers.\<close>

lemma unat_byte [wsimps]:
  "unat (ucast (w AND 0xFF) :: u8) = unat (w :: 'a::len word) mod 256"
proof -
  have "(w AND 0xFF) = take_bit 8 w"
    by (simp add: take_bit_eq_mask mask_eq_exp_minus_1)
  then have "unat (ucast (w AND 0xFF) :: u8) = take_bit 8 (unat w)"
    by (simp add: unsigned_ucast_eq unsigned_take_bit_eq)
  then show ?thesis by (simp add: take_bit_eq_mod)
qed

lemma split_u16:
  "unat (ucast (drop_bit 8 p AND 0xFF) :: u8) * 256 + unat (ucast (p AND 0xFF) :: u8) = unat (p :: u16)"
proof -
  have "unat (drop_bit 8 p) = unat p div 256"
    by (simp add: drop_bit_eq_div unat_div)
  moreover have "unat p div 256 mod 256 = unat p div 256"
    using unsigned_less [where 'a = nat, of p] by (simp del: unsigned_less)
  ultimately show ?thesis by (simp only: unat_byte) (simp add: mult.commute)
qed

lemma sint_u8_negative: "128 \<le> unat c \<Longrightarrow> sint (c :: u8) < 0"
proof -
  assume "128 \<le> unat c"
  then have "128 \<le> nat (uint c)" by simp
  then have "128 \<le> uint c" by linarith
  moreover have "uint c < 256" using uint_lt2p [of c] by simp
  moreover have "sint c = signed_take_bit 7 (uint c)" by (simp add: sint_uint)
  moreover have "signed_take_bit 7 (uint c) = (uint c + 128) mod 256 - 128"
    by (simp add: signed_take_bit_eq_take_bit_shift take_bit_eq_mod)
  moreover have "(uint c + 128) mod 256 = uint c - 128"
    using mod_add_self2 [of "uint c - 128" 256] calculation(1,2)
    by (simp add: mod_pos_pos_trivial add.commute)
  ultimately show ?thesis by linarith
qed

lemma sint_small: "unat w < 2 ^ 31 \<Longrightarrow> sint (w :: u32) = int (unat w)"
proof -
  assume "unat w < 2 ^ 31"
  then have "nat (uint w) < 2147483648" by simp
  then have "uint w < 2147483648" by linarith
  then have "uint w < 2 ^ 31" by simp
  moreover have "- 2147483648 \<le> uint w" using uint_ge_0 [of w] by linarith
  then have "- (2 ^ 31) \<le> uint w" by simp
  moreover have "sint w = signed_take_bit 31 (uint w)" by (simp add: sint_uint)
  ultimately have "sint w = uint w" using signed_take_bit_int_eq_self [of 31 "uint w"] by simp
  then show ?thesis by simp
qed

end
