(* ===== verification/Port_IO.thy ===== *)
theory Port_IO imports Trak_Prelude begin

text \<open>
  Port input and output (src/include/io.h). The devices behind the ports are not part of
  the repository: what they answer is a parameter, one infinite stream of bytes for each
  port, and what the kernel sends them is recorded in order.
\<close>

unbundle bit_operations_syntax

record ports =
  port_out :: "(u16 \<times> u8) list"
  port_in :: "u16 \<Rightarrow> u8 stream"

definition outb :: "u16 \<Rightarrow> u8 \<Rightarrow> 'a ports_scheme \<Rightarrow> 'a ports_scheme" where
  "outb port data p = p\<lparr>port_out := port_out p @ [(port, data)]\<rparr>"

definition inb :: "u16 \<Rightarrow> 'a ports_scheme \<Rightarrow> u8 \<times> 'a ports_scheme" where
  "inb port p =
     (shd (port_in p port), p\<lparr>port_in := (port_in p)(port := stl (port_in p port))\<rparr>)"

text \<open>
  Two consecutive 8-bit ports form a 16-bit port; the bytes go to them low byte first.
\<close>

definition outw :: "u16 \<Rightarrow> u16 \<Rightarrow> 'a ports_scheme \<Rightarrow> 'a ports_scheme" where
  "outw port data p = outb (port + 1) (ucast (drop_bit 8 data)) (outb port (ucast data) p)"

definition inw :: "u16 \<Rightarrow> 'a ports_scheme \<Rightarrow> u16 \<times> 'a ports_scheme" where
  "inw port p =
     (let (lo, p) = inb port p; (hi, p) = inb (port + 1) p
      in (push_bit 8 (ucast hi) OR ucast lo, p))"

lemma port_out_outb [simp]: "port_out (outb port data p) = port_out p @ [(port, data)]"
  by (simp add: outb_def)

lemma port_in_outb [simp]: "port_in (outb port data p) = port_in p"
  by (simp add: outb_def)

lemma port_out_inb [simp]: "port_out (snd (inb port p)) = port_out p"
  by (simp add: inb_def)

text \<open>\<open>outw\<close> sends the low byte to the port and the high byte to the next one, and \<open>inw\<close> puts
  a word together that arrives that way.\<close>

lemma port_out_outw: "port_out (outw port data p)
    = port_out p @ [(port, ucast data), (port + 1, ucast (drop_bit 8 data))]"
  by (simp add: outw_def)

lemma word_of_bytes: "push_bit 8 (ucast (ucast (drop_bit 8 data) :: u8)) OR ucast (ucast data :: u8) = (data :: u16)"
  (is "?word = data")
proof (rule bit_word_eqI)
  fix n
  assume "n < LENGTH(16)"
  then show "bit ?word n = bit data n" by (auto simp: bit_simps)
qed

lemma inw_bytes:
  assumes "port_in p port = ucast data ## lo" and "port_in p (port + 1) = ucast (drop_bit 8 data) ## hi"
  shows "inw port p = (data, p\<lparr>port_in := (port_in p)(port := lo, port + 1 := hi)\<rparr>)"
  using assms by (simp add: inw_def inb_def word_of_bytes)

end
