(* ===== verification/Screen_Driver.thy ===== *)
theory Screen_Driver imports Port_IO begin

text \<open>
  The VGA text driver, src/drivers/screen/screen.c: its state, every function of it, the
  bounds invariant of the cursor, and what printing does to the cells of the window.
\<close>

unbundle bit_operations_syntax

section \<open>State and operations\<close>

text \<open>
  \<open>vga\<close> is the memory behind the pointer \<open>vga_buffer\<close>, cell by cell; the window of
  the display is its first 80 * 25 cells, the rest is other memory. The driver shares the
  ports with the other drivers, so its state extends theirs.
\<close>

record screen = ports +
  vga :: "u16 \<Rightarrow> u16"
  cursor_row :: u16
  cursor_col :: u16
  current_color :: u8

abbreviation VGA_COLOR_BLACK :: u8 where "VGA_COLOR_BLACK \<equiv> 0"
abbreviation VGA_COLOR_BLUE :: u8 where "VGA_COLOR_BLUE \<equiv> 1"
abbreviation VGA_COLOR_GREEN :: u8 where "VGA_COLOR_GREEN \<equiv> 2"
abbreviation VGA_COLOR_CYAN :: u8 where "VGA_COLOR_CYAN \<equiv> 3"
abbreviation VGA_COLOR_RED :: u8 where "VGA_COLOR_RED \<equiv> 4"
abbreviation VGA_COLOR_MAGENTA :: u8 where "VGA_COLOR_MAGENTA \<equiv> 5"
abbreviation VGA_COLOR_BROWN :: u8 where "VGA_COLOR_BROWN \<equiv> 6"
abbreviation VGA_COLOR_LIGHT_GREY :: u8 where "VGA_COLOR_LIGHT_GREY \<equiv> 7"
abbreviation VGA_COLOR_DARK_GREY :: u8 where "VGA_COLOR_DARK_GREY \<equiv> 8"
abbreviation VGA_COLOR_LIGHT_BLUE :: u8 where "VGA_COLOR_LIGHT_BLUE \<equiv> 9"
abbreviation VGA_COLOR_LIGHT_GREEN :: u8 where "VGA_COLOR_LIGHT_GREEN \<equiv> 10"
abbreviation VGA_COLOR_LIGHT_CYAN :: u8 where "VGA_COLOR_LIGHT_CYAN \<equiv> 11"
abbreviation VGA_COLOR_LIGHT_RED :: u8 where "VGA_COLOR_LIGHT_RED \<equiv> 12"
abbreviation VGA_COLOR_LIGHT_MAGENTA :: u8 where "VGA_COLOR_LIGHT_MAGENTA \<equiv> 13"
abbreviation VGA_COLOR_LIGHT_BROWN :: u8 where "VGA_COLOR_LIGHT_BROWN \<equiv> 14"
abbreviation VGA_COLOR_YELLOW :: u8 where "VGA_COLOR_YELLOW \<equiv> 14"
abbreviation VGA_COLOR_WHITE :: u8 where "VGA_COLOR_WHITE \<equiv> 15"

abbreviation VGA_WIDTH :: nat where "VGA_WIDTH \<equiv> 80"
abbreviation VGA_HEIGHT :: nat where "VGA_HEIGHT \<equiv> 25"

definition vga_entry :: "u8 \<Rightarrow> u8 \<Rightarrow> u16" where
  "vga_entry uc color = ucast uc OR push_bit 8 (ucast color)"

definition vga_put :: "u16 \<Rightarrow> u16 \<Rightarrow> screen \<Rightarrow> screen" where
  "vga_put i e s = s\<lparr>vga := (vga s)(i := e)\<rparr>"

definition update_cursor :: "u16 \<Rightarrow> screen \<Rightarrow> screen" where
  "update_cursor pos s =
     outb 0x3D5 (ucast (drop_bit 8 pos AND 0xFF))
       (outb 0x3D4 0x0E (outb 0x3D5 (ucast (pos AND 0xFF)) (outb 0x3D4 0x0F s)))"

definition screen_init :: "screen \<Rightarrow> screen" where
  "screen_init s = s\<lparr>cursor_row := 0, cursor_col := 0, current_color := VGA_COLOR_LIGHT_GREY OR push_bit 4 VGA_COLOR_BLACK\<rparr>"

definition screen_clear :: "screen \<Rightarrow> screen" where
  "screen_clear s =
     (let s1 = fold (\<lambda>y s. fold (\<lambda>x s. vga_put (of_nat (y * VGA_WIDTH + x))
                  (vga_entry 32 (current_color s)) s) [0..<VGA_WIDTH] s) [0..<VGA_HEIGHT] s
      in update_cursor 0 (s1\<lparr>cursor_row := 0, cursor_col := 0\<rparr>))"

definition screen_set_color :: "u8 \<Rightarrow> u8 \<Rightarrow> screen \<Rightarrow> screen" where
  "screen_set_color fg bg s = s\<lparr>current_color := fg OR push_bit 4 bg\<rparr>"

definition screen_scroll :: "screen \<Rightarrow> screen" where
  "screen_scroll s =
     (let s1 = fold (\<lambda>y s. fold (\<lambda>x s. vga_put (of_nat ((y - 1) * VGA_WIDTH + x))
                  (vga s (of_nat (y * VGA_WIDTH + x))) s) [0..<VGA_WIDTH] s) [1..<VGA_HEIGHT] s;
          s2 = fold (\<lambda>x s. vga_put (of_nat ((VGA_HEIGHT - 1) * VGA_WIDTH + x))
                  (vga_entry 32 (current_color s)) s) [0..<VGA_WIDTH] s1
      in s2\<lparr>cursor_row := of_nat (VGA_HEIGHT - 1), cursor_col := 0\<rparr>)"

definition screen_putchar :: "cchar \<Rightarrow> screen \<Rightarrow> screen" where
  "screen_putchar c s =
     (let s1 = (if c = 10 then s\<lparr>cursor_col := 0, cursor_row := cursor_row s + 1\<rparr>
                else if c = 13 then s\<lparr>cursor_col := 0\<rparr>
                else if c = 9 then s\<lparr>cursor_col := (cursor_col s + 8) AND NOT (8 - 1)\<rparr>
                else if 32 \<le> sint c then
                  (vga_put (cursor_row s * of_nat VGA_WIDTH + cursor_col s)
                     (vga_entry c (current_color s)) s)\<lparr>cursor_col := cursor_col s + 1\<rparr>
                else s);
          s2 = (if of_nat VGA_WIDTH \<le> cursor_col s1
                then s1\<lparr>cursor_col := 0, cursor_row := cursor_row s1 + 1\<rparr> else s1);
          s3 = (if of_nat VGA_HEIGHT \<le> cursor_row s2 then screen_scroll s2 else s2)
      in update_cursor (cursor_row s3 * of_nat VGA_WIDTH + cursor_col s3) s3)"

primrec screen_print :: "cchar list \<Rightarrow> screen \<Rightarrow> screen" where
  "screen_print [] s = s"
| "screen_print (c # cs) s = screen_print cs (screen_putchar c s)"

definition screen_println :: "cchar list \<Rightarrow> screen \<Rightarrow> screen" where
  "screen_println str s = screen_putchar 10 (screen_print str s)"

section \<open>The loops in closed form\<close>

lemma fold_vga_put:
  "fold (\<lambda>k s. vga_put (h k) (e k (current_color s) (vga s)) s) xs s
     = s\<lparr>vga := fold (\<lambda>k f. f(h k := e k (current_color s) f)) xs (vga s)\<rparr>"
  by (induction xs arbitrary: s) (simp_all add: vga_put_def)

lemma of_nat_image_upt:
  assumes "b \<le> 65536"
  shows "(j :: u16) \<in> of_nat ` {a..<b} \<longleftrightarrow> a \<le> unat j \<and> unat j < b"
proof
  assume "j \<in> of_nat ` {a..<b}"
  then obtain n where n: "a \<le> n" "n < b" "j = of_nat n" by auto
  with assms have "unat j = n" by (simp add: unat_of_nat_small)
  with n show "a \<le> unat j \<and> unat j < b" by simp
next
  assume "a \<le> unat j \<and> unat j < b"
  then have "j = of_nat (unat j)" and "unat j \<in> {a..<b}" by auto
  then show "j \<in> of_nat ` {a..<b}" by blast
qed

lemma screen_clear_eq:
  "screen_clear s = update_cursor 0 (s\<lparr>vga := (\<lambda>i. if unat i < 2000
     then vga_entry 32 (current_color s) else vga s i), cursor_row := 0, cursor_col := 0\<rparr>)"
proof -
  have "fold (\<lambda>y s. fold (\<lambda>x s. vga_put (of_nat (y * 80 + x))
          (vga_entry 32 (current_color s)) s) [0..<80] s) [0..<25] s
      = fold (\<lambda>k s. vga_put (of_nat k) (vga_entry 32 (current_color s)) s) [0..<2000] s"
    using fold_nested [where a = 0 and b = 25 and w = 80 and s = s
        and g = "\<lambda>k s. vga_put (of_nat k) (vga_entry 32 (current_color s)) s"]
    by simp
  also have "\<dots> = s\<lparr>vga := fold (\<lambda>k f. f(of_nat k := vga_entry 32 (current_color s)))
                      [0..<2000] (vga s)\<rparr>"
    using fold_vga_put [where h = of_nat and e = "\<lambda>k c f. vga_entry 32 c"] by simp
  also have "fold (\<lambda>k f. f(of_nat k := vga_entry 32 (current_color s))) [0..<2000] (vga s)
      = (\<lambda>i. if unat i < 2000 then vga_entry 32 (current_color s) else vga s i)"
    by (rule ext) (simp only: fold_fun_upd_const set_upt of_nat_image_upt, simp)
  finally show ?thesis
    by (simp only: screen_clear_def Let_def)
qed

text \<open>Copying the rows upwards in ascending order reads each cell before it is written.\<close>

lemma scroll_copy:
  assumes "n \<le> 2000"
  shows "fold (\<lambda>k f. f(of_nat (k - 80) := f (of_nat k))) [80..<n] (f :: u16 \<Rightarrow> 'e)
    = (\<lambda>i. if unat i < n - 80 then f (i + 80) else f i)"
  using assms
proof (induction n)
  case 0
  show ?case by simp
next
  case (Suc n)
  show ?case
  proof (cases "80 \<le> n")
    case False
    then show ?thesis by simp
  next
    case True
    let ?f = "\<lambda>i. if unat i < n - 80 then f (i + 80) else f i"
    have IH: "fold (\<lambda>k f. f(of_nat (k - 80) := f (of_nat k))) [80..<n] f = ?f"
      by (rule Suc.IH) (use Suc.prems in simp)
    have src: "?f (of_nat n) = f (of_nat n)"
      using True Suc.prems by (auto simp: unat_of_nat_small)
    have sh: "(of_nat (n - 80) :: u16) + 80 = of_nat n"
      using True by (metis of_nat_add of_nat_numeral le_add_diff_inverse2)
    have eqv: "i = of_nat (n - 80) \<longleftrightarrow> unat i = n - 80" for i :: u16
      using Suc.prems by (intro word_eq_of_nat_iff) simp
    have "?f(of_nat (n - 80) := ?f (of_nat n))
        = (\<lambda>i. if unat i < Suc n - 80 then f (i + 80) else f i)"
    proof
      fix i
      show "(?f(of_nat (n - 80) := ?f (of_nat n))) i
          = (if unat i < Suc n - 80 then f (i + 80) else f i)"
      proof (cases "unat i = n - 80")
        case True
        with \<open>80 \<le> n\<close> have "unat i < Suc n - 80" by linarith
        moreover from True have i: "i = of_nat (n - 80)" using eqv by blast
        ultimately show ?thesis unfolding src i fun_upd_apply sh by (simp only: if_True refl)
      next
        case False
        with \<open>80 \<le> n\<close> have "unat i < Suc n - 80 \<longleftrightarrow> unat i < n - 80" by linarith
        with False show ?thesis unfolding fun_upd_apply eqv by (simp only: if_False)
      qed
    qed
    moreover from True have "[80..<Suc n] = [80..<n] @ [n]" by simp
    ultimately show ?thesis
      by (simp only: fold_append comp_def IH fold.simps id_def)
  qed
qed


lemma fold_scroll_rows:
  "fold (\<lambda>y s. fold (\<lambda>x s. vga_put (of_nat ((y - 1) * 80 + x)) (vga s (of_nat (y * 80 + x))) s)
      [0..<80] s) [1..<25] s
   = s\<lparr>vga := (\<lambda>i. if unat i < 1920 then vga s (i + 80) else vga s i)\<rparr>"
proof -
  let ?g = "\<lambda>k s. vga_put (of_nat (k - 80)) (vga s (of_nat k)) s"
  have "fold (\<lambda>y s. fold (\<lambda>x s. vga_put (of_nat ((y - 1) * 80 + x)) (vga s (of_nat (y * 80 + x))) s)
          [0..<80] s) [1..<25] s
      = fold (\<lambda>y s. fold (\<lambda>x s. ?g (y * 80 + x) s) [0..<80] s) [1..<25] s"
  proof (rule fold_cong [OF refl refl], rule ext, rule fold_cong [OF refl refl], rule ext)
    fix y x :: nat and s :: screen
    assume "y \<in> set [1..<25]"
    then have "1 \<le> y" by (simp only: set_upt atLeastLessThan_iff)
    then have "(y - 1) * 80 + x = y * 80 + x - 80" by (cases y) auto
    then show "vga_put (of_nat ((y - 1) * 80 + x)) (vga s (of_nat (y * 80 + x))) s
        = ?g (y * 80 + x) s" by simp
  qed
  also have "\<dots> = fold ?g [80..<2000] s"
    using fold_nested [where a = 1 and b = 25 and w = 80 and s = s and g = ?g] by simp
  also have "\<dots> = s\<lparr>vga := fold (\<lambda>k f. f(of_nat (k - 80) := f (of_nat k))) [80..<2000] (vga s)\<rparr>"
    using fold_vga_put [where h = "\<lambda>k. of_nat (k - 80)" and e = "\<lambda>k c f. f (of_nat k)"] by simp
  finally show ?thesis
    by (simp only: scroll_copy [of 2000, simplified])
qed

lemma fold_blank_row:
  "fold (\<lambda>x s. vga_put (of_nat (24 * 80 + x)) (vga_entry 32 (current_color s)) s) [0..<80] s
   = s\<lparr>vga := (\<lambda>i. if 1920 \<le> unat i \<and> unat i < 2000 then vga_entry 32 (current_color s) else vga s i)\<rparr>"
proof -
  have "fold (\<lambda>x s. vga_put (of_nat (24 * 80 + x)) (vga_entry 32 (current_color s)) s) [0..<80] s
      = fold (\<lambda>k s. vga_put (of_nat k) (vga_entry 32 (current_color s)) s) [1920..<2000] s"
    using fold_nested [where a = 24 and b = 25 and w = 80 and s = s
        and g = "\<lambda>k s. vga_put (of_nat k) (vga_entry 32 (current_color s)) s"]
    by (simp add: upt_rec_numeral [of "num.Bit0 (num.Bit0 (num.Bit0 num.One))"] upt_rec [of 24 25])
  also have "\<dots> = s\<lparr>vga := fold (\<lambda>k f. f(of_nat k := vga_entry 32 (current_color s)))
                      [1920..<2000] (vga s)\<rparr>"
    using fold_vga_put [where h = of_nat and e = "\<lambda>k c f. vga_entry 32 c"] by simp
  also have "fold (\<lambda>k f. f(of_nat k := vga_entry 32 (current_color s))) [1920..<2000] (vga s)
      = (\<lambda>i. if 1920 \<le> unat i \<and> unat i < 2000 then vga_entry 32 (current_color s) else vga s i)"
    by (rule ext) (simp only: fold_fun_upd_const set_upt of_nat_image_upt)
  finally show ?thesis .
qed

lemma screen_scroll_eq:
  "screen_scroll s = s\<lparr>vga := (\<lambda>i. if unat i < 1920 then vga s (i + 80)
       else if unat i < 2000 then vga_entry 32 (current_color s) else vga s i),
     cursor_row := 24, cursor_col := 0\<rparr>"
proof -
  let ?s1 = "s\<lparr>vga := (\<lambda>i. if unat i < 1920 then vga s (i + 80) else vga s i)\<rparr>"
  have "screen_scroll s = (?s1\<lparr>vga := (\<lambda>i. if 1920 \<le> unat i \<and> unat i < 2000
      then vga_entry 32 (current_color ?s1) else vga ?s1 i)\<rparr>)\<lparr>cursor_row := of_nat 24, cursor_col := 0\<rparr>"
  proof -
    have "(25 - 1 :: nat) = 24" by simp
    then show ?thesis
      by (simp only: screen_scroll_def Let_def fold_scroll_rows fold_blank_row)
  qed
  moreover have "(\<lambda>i. if 1920 \<le> unat i \<and> unat i < 2000
      then vga_entry 32 (current_color ?s1) else vga ?s1 i)
    = (\<lambda>i. if unat i < 1920 then vga s (i + 80)
       else if unat i < 2000 then vga_entry 32 (current_color s) else vga s i)"
    by (rule ext) simp
  ultimately show ?thesis by simp
qed


section \<open>The cursor invariant\<close>

definition screen_inv :: "screen \<Rightarrow> bool" where
  "screen_inv s \<longleftrightarrow> cursor_row s < 25 \<and> cursor_col s < 80"

definition screen_pos :: "screen \<Rightarrow> nat" where
  "screen_pos s = unat (cursor_row s) * 80 + unat (cursor_col s)"

lemma update_cursor_simps [simp]:
  "vga (update_cursor p s) = vga s" "cursor_row (update_cursor p s) = cursor_row s"
  "cursor_col (update_cursor p s) = cursor_col s" "current_color (update_cursor p s) = current_color s"
  "port_in (update_cursor p s) = port_in s"
  by (simp_all add: update_cursor_def outb_def)

lemma unat_pos_word [wsimps]:
  "screen_inv s \<Longrightarrow> unat (cursor_row s * 80 + cursor_col s) = screen_pos s"
  by (simp add: screen_inv_def screen_pos_def word_less_nat_alt unat_word_ariths)

lemma screen_pos_bound: "screen_inv s \<Longrightarrow> screen_pos s < 2000"
  by (simp add: screen_inv_def screen_pos_def word_less_nat_alt)

text \<open>
  One character, stage by stage: \<open>put_glyph\<close> is the effect of the character itself, the
  rest is wrapping, scrolling and the hardware cursor.
\<close>

definition put_glyph :: "cchar \<Rightarrow> screen \<Rightarrow> screen" where
  "put_glyph c s =
     (if c = 10 then s\<lparr>cursor_col := 0, cursor_row := cursor_row s + 1\<rparr>
      else if c = 13 then s\<lparr>cursor_col := 0\<rparr>
      else if c = 9 then s\<lparr>cursor_col := (cursor_col s + 8) AND NOT 7\<rparr>
      else if 32 \<le> sint c then
        (vga_put (cursor_row s * 80 + cursor_col s) (vga_entry c (current_color s)) s)
          \<lparr>cursor_col := cursor_col s + 1\<rparr>
      else s)"

definition wrap_scroll :: "screen \<Rightarrow> screen" where
  "wrap_scroll s =
     (let s2 = (if 80 \<le> cursor_col s then s\<lparr>cursor_col := 0, cursor_row := cursor_row s + 1\<rparr> else s)
      in if 25 \<le> cursor_row s2 then screen_scroll s2 else s2)"

lemma screen_putchar_stages:
  "screen_putchar c s =
     (let s' = wrap_scroll (put_glyph c s) in update_cursor (cursor_row s' * 80 + cursor_col s') s')"
proof -
  have "(8 - 1 :: u16) = 7" by simp
  then show ?thesis
    by (simp only: screen_putchar_def put_glyph_def wrap_scroll_def Let_def of_nat_numeral)
qed

lemma tab_col_bound:
  assumes "(c :: u16) < 80"
  shows "(c + 8) AND NOT 7 \<le> 80"
proof -
  have "(c + 8) AND NOT 7 \<le> c + 8" by (rule word_and_le2)
  have c: "unat (c + 8) = unat c + 8"
    using assms by (simp add: unat_word_ariths word_less_nat_alt)
  have "unat ((c + 8) AND NOT 7) \<le> unat (c + 8)"
    using word_and_le2 by (simp add: word_le_nat_alt)
  moreover have "unat ((c + 8) AND NOT 7) mod 8 = 0"
  proof -
    have "(NOT 7 :: u16) AND 7 = 0" by simp
    then have "((c + 8) AND NOT 7) AND 7 = 0" by (simp only: and.assoc and_zero_eq)
    then have "take_bit 3 ((c + 8) AND NOT 7) = 0"
      by (simp add: take_bit_eq_mask mask_eq_exp_minus_1)
    then have "unat (take_bit 3 ((c + 8) AND NOT 7)) = 0" by (simp only: unat_0)
    then show ?thesis
      by (simp add: take_bit_eq_mod unat_mod)
  qed
  moreover have "unat c < 80" using assms by (simp add: word_less_nat_alt)
  ultimately have "unat ((c + 8) AND NOT 7) \<le> 80" using c by presburger
  then show ?thesis by (simp add: word_le_nat_alt)
qed


lemma put_glyph_bounds:
  assumes "screen_inv s"
  shows "cursor_col (put_glyph c s) \<le> 80 \<and> cursor_row (put_glyph c s) \<le> 25
    \<and> (80 \<le> cursor_col (put_glyph c s) \<longrightarrow> cursor_row (put_glyph c s) < 25)"
proof -
  have row: "cursor_row s < 25" and col: "cursor_col s < 80"
    using assms by (auto simp: screen_inv_def)
  from row have "cursor_row s + 1 \<le> 25" by (rule inc_le)
  moreover from col have "cursor_col s + 1 \<le> 80" by (rule inc_le)
  moreover from col have "(cursor_col s + 8) AND NOT 7 \<le> 80" by (rule tab_col_bound)
  ultimately show ?thesis
    using row col by (auto simp: put_glyph_def vga_put_def)
qed

lemma wrap_scroll_inv:
  assumes "cursor_row s \<le> 25" and "cursor_col s \<le> 80"
    and "80 \<le> cursor_col s \<longrightarrow> cursor_row s < 25"
  shows "screen_inv (wrap_scroll s)"
proof -
  have "cursor_row s + 1 \<le> 25" if "80 \<le> cursor_col s"
    using assms(3) that by (intro inc_le) simp
  with assms show ?thesis
    by (auto simp: wrap_scroll_def screen_inv_def screen_scroll_eq Let_def not_le)
qed

lemma screen_inv_update_cursor [simp]: "screen_inv (update_cursor p s) = screen_inv s"
  by (simp add: screen_inv_def)

lemma screen_inv_set_color [simp]: "screen_inv (screen_set_color fg bg s) = screen_inv s"
  by (simp add: screen_inv_def screen_set_color_def)

lemma screen_inv_init [inv_intros]: "screen_inv (screen_init s)"
  by (simp add: screen_inv_def screen_init_def)

lemma screen_inv_clear [inv_intros]: "screen_inv (screen_clear s)"
  by (simp add: screen_inv_def screen_clear_eq)

lemma screen_inv_scroll [inv_intros]: "screen_inv (screen_scroll s)"
  by (simp add: screen_inv_def screen_scroll_eq)

lemma screen_inv_putchar [inv_intros]: "screen_inv s \<Longrightarrow> screen_inv (screen_putchar c s)"
  using put_glyph_bounds [of s c] wrap_scroll_inv [of "put_glyph c s"]
  by (simp add: screen_putchar_stages Let_def)

section \<open>The console interface\<close>

text \<open>
  What the printing code of the kernel relies on: a state \<open>ok\<close> for printing is kept by
  every character, and a character changes a state only in ways the relation \<open>quiet\<close>
  allows. Whole strings inherit both.
\<close>

locale console =
  fixes putc :: "cchar \<Rightarrow> 's \<Rightarrow> 's"
    and ok :: "'s \<Rightarrow> bool"
    and quiet :: "'s \<Rightarrow> 's \<Rightarrow> bool"
  assumes putc_ok: "ok s \<Longrightarrow> ok (putc c s)"
    and putc_quiet: "ok s \<Longrightarrow> quiet s (putc c s)"
    and quiet_refl: "quiet s s"
    and quiet_trans: "quiet s t \<Longrightarrow> quiet t u \<Longrightarrow> quiet s u"
begin

lemma puts_ok: "ok s \<Longrightarrow> ok (fold putc cs s)"
  by (induction cs arbitrary: s) (auto intro: putc_ok)

lemma puts_quiet: "ok s \<Longrightarrow> quiet s (fold putc cs s)"
  by (induction cs arbitrary: s) (auto intro: putc_ok putc_quiet quiet_refl quiet_trans)

end

definition only_crtc :: "(u16 \<times> u8) list \<Rightarrow> bool" where
  "only_crtc out \<longleftrightarrow> fst ` set out \<subseteq> {0x3D4, 0x3D5}"

definition quiet_screen :: "screen \<Rightarrow> screen \<Rightarrow> bool" where
  "quiet_screen s t \<longleftrightarrow>
     (\<forall>i. 2000 \<le> unat i \<longrightarrow> vga t i = vga s i) \<and> current_color t = current_color s
     \<and> port_in t = port_in s
     \<and> (\<exists>out. port_out t = port_out s @ out \<and> only_crtc out)"

lemma only_crtc_append [simp]: "only_crtc (xs @ ys) \<longleftrightarrow> only_crtc xs \<and> only_crtc ys"
  by (auto simp: only_crtc_def)

lemma quiet_screen_trans: "quiet_screen s t \<Longrightarrow> quiet_screen t u \<Longrightarrow> quiet_screen s u"
  by (fastforce simp: quiet_screen_def)

lemma update_cursor_out:
  "port_out (update_cursor p s) = port_out s @
     [(0x3D4, 0x0F), (0x3D5, ucast (p AND 0xFF)), (0x3D4, 0x0E), (0x3D5, ucast (drop_bit 8 p AND 0xFF))]"
  by (simp add: update_cursor_def)

lemma put_glyph_frame:
  "screen_inv s \<Longrightarrow> 2000 \<le> unat i \<Longrightarrow> vga (put_glyph c s) i = vga s i"
  "current_color (put_glyph c s) = current_color s" "port_in (put_glyph c s) = port_in s"
  "port_out (put_glyph c s) = port_out s"
  using screen_pos_bound [of s] unat_pos_word [of s]
  by (auto simp: put_glyph_def vga_put_def)

lemma wrap_scroll_frame:
  "2000 \<le> unat i \<Longrightarrow> vga (wrap_scroll s) i = vga s i"
  "current_color (wrap_scroll s) = current_color s" "port_in (wrap_scroll s) = port_in s"
  "port_out (wrap_scroll s) = port_out s"
  by (auto simp: wrap_scroll_def screen_scroll_eq Let_def)

lemma quiet_screen_putchar: "screen_inv s \<Longrightarrow> quiet_screen s (screen_putchar c s)"
  by (auto simp: quiet_screen_def screen_putchar_stages Let_def update_cursor_out only_crtc_def
      put_glyph_frame wrap_scroll_frame)

interpretation vga_con: console screen_putchar screen_inv quiet_screen
proof unfold_locales
  show "quiet_screen s s" for s by (simp add: quiet_screen_def only_crtc_def)
qed (fact screen_inv_putchar quiet_screen_putchar quiet_screen_trans)+

lemma screen_print_fold: "screen_print cs s = fold screen_putchar cs s"
  by (induction cs arbitrary: s) auto

lemma screen_inv_print [inv_intros]: "screen_inv s \<Longrightarrow> screen_inv (screen_print cs s)"
  by (simp add: screen_print_fold vga_con.puts_ok)

lemma screen_inv_println [inv_intros]: "screen_inv s \<Longrightarrow> screen_inv (screen_println cs s)"
  by (simp add: screen_println_def screen_inv_print screen_inv_putchar)


section \<open>What printing shows\<close>

definition cell :: "screen \<Rightarrow> nat \<Rightarrow> nat \<Rightarrow> u16" where
  "cell s r c = vga s (of_nat (r * 80 + c))"

definition printable :: "cchar \<Rightarrow> bool" where
  "printable c \<longleftrightarrow> 32 \<le> sint c"

lemma printable_not_control: "printable c \<Longrightarrow> c \<noteq> 10 \<and> c \<noteq> 13 \<and> c \<noteq> 9"
  by (auto simp: printable_def)

lemma screen_putchar_printable:
  assumes "screen_inv s" and "printable c" and "unat (cursor_col s) + 1 < 80"
  shows "screen_putchar c s = update_cursor (of_nat (screen_pos s + 1))
    (s\<lparr>vga := (vga s)(of_nat (screen_pos s) := vga_entry c (current_color s)),
       cursor_col := cursor_col s + 1\<rparr>)"
proof -
  have col: "unat (cursor_col s + 1) = Suc (unat (cursor_col s))"
    using assms(1) by (auto simp: screen_inv_def intro: unat_Suc_word)
  then have "\<not> 80 \<le> cursor_col s + 1" using assms(3) by (simp add: word_le_nat_alt)
  moreover have "\<not> 25 \<le> cursor_row s" using assms(1) by (simp add: screen_inv_def not_le)
  moreover have "cursor_row s * 80 + cursor_col s = of_nat (screen_pos s)"
    by (simp add: screen_pos_def)
  ultimately show ?thesis
    using assms(2) printable_not_control [OF assms(2)]
    by (simp add: screen_putchar_stages put_glyph_def wrap_scroll_def vga_put_def Let_def
        printable_def add.commute [of _ 1] add.left_commute [of _ 1])
qed

lemma screen_pos_Suc:
  assumes "screen_inv s" and "printable c" and "unat (cursor_col s) + 1 < 80"
  shows "screen_pos (screen_putchar c s) = Suc (screen_pos s)"
    and "unat (cursor_col (screen_putchar c s)) = Suc (unat (cursor_col s))"
    and "cursor_row (screen_putchar c s) = cursor_row s"
    and "current_color (screen_putchar c s) = current_color s"
    and "vga (screen_putchar c s) = (vga s)(of_nat (screen_pos s) := vga_entry c (current_color s))"
proof -
  have "unat (cursor_col s + 1) = Suc (unat (cursor_col s))"
    using assms(1) by (auto simp: screen_inv_def intro: unat_Suc_word)
  then show "screen_pos (screen_putchar c s) = Suc (screen_pos s)"
    and "unat (cursor_col (screen_putchar c s)) = Suc (unat (cursor_col s))"
    by (simp_all add: screen_putchar_printable [OF assms] screen_pos_def)
qed (simp_all add: screen_putchar_printable [OF assms])

lemma screen_print_cells:
  assumes "screen_inv s" and "\<forall>c \<in> set cs. printable c"
    and "unat (cursor_col s) + length cs < 80"
  shows "vga (screen_print cs s) i =
      (if screen_pos s \<le> unat i \<and> unat i < screen_pos s + length cs
       then vga_entry (cs ! (unat i - screen_pos s)) (current_color s) else vga s i)
    \<and> screen_pos (screen_print cs s) = screen_pos s + length cs
    \<and> cursor_row (screen_print cs s) = cursor_row s"
  using assms
proof (induction cs arbitrary: s)
  case Nil
  then show ?case by auto
next
  case (Cons c cs)
  let ?s = "screen_putchar c s"
  have c: "printable c" "unat (cursor_col s) + 1 < 80"
    using Cons.prems by auto
  note step = screen_pos_Suc [OF Cons.prems(1) c]
  have IH: "vga (screen_print cs ?s) i =
      (if screen_pos ?s \<le> unat i \<and> unat i < screen_pos ?s + length cs
       then vga_entry (cs ! (unat i - screen_pos ?s)) (current_color ?s) else vga ?s i)
    \<and> screen_pos (screen_print cs ?s) = screen_pos ?s + length cs
    \<and> cursor_row (screen_print cs ?s) = cursor_row ?s"
    by (rule Cons.IH) (use Cons.prems step in \<open>auto intro: screen_inv_putchar\<close>)
  have pos: "i = of_nat (screen_pos s) \<longleftrightarrow> unat i = screen_pos s"
    using screen_pos_bound [OF Cons.prems(1)] by (intro word_eq_of_nat_iff) simp
  show ?case
    using IH pos unfolding step
    by (auto simp: nth_Cons' not_less_eq_eq)
qed


lemma screen_putchar_ignored:
  assumes "screen_inv s" and "sint c < 32" and "c \<notin> {9, 10, 13}"
  shows "screen_putchar c s = update_cursor (cursor_row s * 80 + cursor_col s) s"
  using assms
  by (auto simp: screen_putchar_stages put_glyph_def wrap_scroll_def Let_def screen_inv_def not_le)

text \<open>The state of the driver before \<open>screen_init\<close>: the initialisers of its static variables.\<close>

definition screen_start :: "(u16 \<Rightarrow> u16) \<Rightarrow> (u16 \<Rightarrow> u8 stream) \<Rightarrow> screen" where
  "screen_start memory answers =
     \<lparr>port_out = [], port_in = answers, vga = memory, cursor_row = 0, cursor_col = 0,
      current_color = 7 OR push_bit 4 0\<rparr>"

lemma screen_inv_start [inv_intros]: "screen_inv (screen_start m a)"
  by (simp add: screen_start_def screen_inv_def)

section \<open>Properties of the driver\<close>

text \<open>C16: Printing any bytes keeps the cursor inside the 80 by 25 window, writes no cell of
  memory outside the window, leaves the colour alone and talks to the two CRT controller
  ports only.\<close>

theorem screen_print_safe:
  "screen_inv s \<Longrightarrow> screen_inv (screen_print cs s) \<and> quiet_screen s (screen_print cs s)"
  by (simp add: screen_print_fold vga_con.puts_ok vga_con.puts_quiet)

theorem screen_print_safe_witness:
  "screen_inv (screen_print (cstr ''hi'') (screen_start (\<lambda>_. 0) (\<lambda>_. sconst 0)))"
  using screen_print_safe [OF screen_inv_start] by blast

text \<open>C33: Scrolling moves every row of the window up by one, blanks the last row in the current
  colour and leaves all memory behind the window as it was.\<close>

theorem screen_scroll_rows:
  assumes "c < 80" and "r < 24"
  shows "cell (screen_scroll s) r c = cell s (r + 1) c
    \<and> cell (screen_scroll s) 24 c = vga_entry 32 (current_color s)
    \<and> (2000 \<le> unat i \<longrightarrow> vga (screen_scroll s) i = vga s i)"
proof -
  have "unat (of_nat (r * 80 + c) :: u16) = r * 80 + c"
    using assms by (intro unat_of_nat_small) simp
  moreover have "unat (of_nat (24 * 80 + c) :: u16) = 24 * 80 + c"
    using assms by (intro unat_of_nat_small) simp
  moreover have "(of_nat (r * 80 + c) :: u16) + 80 = of_nat ((r + 1) * 80 + c)"
    by (simp add: algebra_simps)
  ultimately have "cell (screen_scroll s) r c = cell s (r + 1) c"
    and "cell (screen_scroll s) 24 c = vga_entry 32 (current_color s)"
    using assms by (simp_all add: cell_def screen_scroll_eq del: of_nat_add of_nat_mult)
  then show ?thesis by (simp add: screen_scroll_eq)
qed

theorem screen_scroll_rows_witness:
  "cell (screen_scroll (screen_start (\<lambda>i. i) (\<lambda>_. sconst 0))) 3 5 = 325"
  using screen_scroll_rows [of 5 3 "screen_start (\<lambda>i. i) (\<lambda>_. sconst 0)"]
  by (simp add: cell_def screen_start_def)

text \<open>C34: Printable text that fits on the rest of the row appears there, one cell for each byte
  in the current colour, no other cell of memory changes, and the cursor moves by its length.\<close>

theorem screen_print_text:
  assumes "screen_inv s" and "\<forall>c \<in> set cs. printable c"
    and "unat (cursor_col s) + length cs < 80"
  shows "vga (screen_print cs s) i =
      (if screen_pos s \<le> unat i \<and> unat i < screen_pos s + length cs
       then vga_entry (cs ! (unat i - screen_pos s)) (current_color s) else vga s i)
    \<and> screen_pos (screen_print cs s) = screen_pos s + length cs"
  using screen_print_cells [OF assms] by blast

theorem screen_print_text_witness:
  "vga (screen_print (cstr ''ok'') (screen_start (\<lambda>_. 0) (\<lambda>_. sconst 0))) 1 = 0x076B"
  using screen_print_text [OF screen_inv_start [of "\<lambda>_. 0" "\<lambda>_. sconst 0"], of "cstr ''ok''" 1]
  by (simp add: cstr_def screen_start_def printable_def screen_pos_def vga_entry_def)

text \<open>C35: After every character the four bytes sent to the CRT controller select the low and the
  high half of the cursor location and carry the driver's own cursor position.\<close>

theorem hardware_cursor_follows:
  assumes "screen_inv s"
  shows "\<exists>lo hi. port_out (screen_putchar c s) = port_out s @
      [(0x3D4, 0x0F), (0x3D5, lo), (0x3D4, 0x0E), (0x3D5, hi)]
    \<and> unat hi * 256 + unat lo = screen_pos (screen_putchar c s)"
proof -
  define t where "t = wrap_scroll (put_glyph c s)"
  let ?p = "cursor_row t * 80 + cursor_col t"
  have t: "screen_putchar c s = update_cursor ?p t"
    by (simp add: screen_putchar_stages Let_def t_def)
  have inv: "screen_inv t"
    using screen_inv_putchar [OF assms, of c] by (simp add: t)
  have "unat (ucast (drop_bit 8 ?p AND 0xFF) :: u8) * 256 + unat (ucast (?p AND 0xFF) :: u8) = unat ?p"
    by (rule split_u16)
  moreover have "port_out t = port_out s"
    by (simp add: t_def put_glyph_frame wrap_scroll_frame)
  moreover have "screen_pos (update_cursor ?p t) = unat ?p"
    using unat_pos_word [OF inv] by (simp add: screen_pos_def)
  ultimately show ?thesis
    unfolding t update_cursor_out by auto
qed

theorem hardware_cursor_follows_witness:
  "\<exists>lo hi. port_out (screen_putchar 65 (screen_start (\<lambda>_. 0) (\<lambda>_. sconst 0))) =
      [(0x3D4, 0x0F), (0x3D5, lo), (0x3D4, 0x0E), (0x3D5, hi)] \<and> unat hi * 256 + unat lo = 1"
  using hardware_cursor_follows [OF screen_inv_start [of "\<lambda>_. 0" "\<lambda>_. sconst 0"], of 65]
    screen_pos_Suc(1) [OF screen_inv_start [of "\<lambda>_. 0" "\<lambda>_. sconst 0"], of 65]
  by (simp add: screen_start_def screen_pos_def printable_def)

text \<open>C40: The erase sequence backspace, space, backspace that the shell prints does not erase:
  the driver ignores both backspaces, so the cell in front of the cursor keeps its character,
  the cell under the cursor becomes a blank and the cursor moves one column to the right.\<close>

theorem erase_sequence_moves_right:
  assumes "screen_inv s" and "unat (cursor_col s) + 1 < 80"
  shows "screen_pos (screen_print [8, 32, 8] s) = screen_pos s + 1
    \<and> vga (screen_print [8, 32, 8] s)
        = (vga s)(of_nat (screen_pos s) := vga_entry 32 (current_color s))"
proof -
  let ?s1 = "screen_putchar 8 s"
  let ?s2 = "screen_putchar 32 ?s1"
  have inv: "screen_inv ?s1" "screen_inv ?s2"
    using assms(1) by (simp_all add: screen_inv_putchar)
  have same: "vga (screen_putchar 8 u) = vga u \<and> screen_pos (screen_putchar 8 u) = screen_pos u
      \<and> cursor_col (screen_putchar 8 u) = cursor_col u
      \<and> current_color (screen_putchar 8 u) = current_color u" if "screen_inv u" for u
    using screen_putchar_ignored [OF that, of 8] by (simp add: screen_pos_def)
  have "printable 32" by (simp add: printable_def)
  note step = screen_pos_Suc [OF inv(1) this]
  show ?thesis
    using same [OF assms(1)] same [OF inv(2)] step assms(2) by simp
qed

theorem erase_sequence_moves_right_witness:
  "screen_pos (screen_print [8, 32, 8] (screen_start (\<lambda>_. 0) (\<lambda>_. sconst 0))) = 1"
  using erase_sequence_moves_right [OF screen_inv_start [of "\<lambda>_. 0" "\<lambda>_. sconst 0"]]
  by (simp add: screen_start_def screen_pos_def)

text \<open>Bytes above 127, such as the UTF-8 encoded block characters of the boot logo, are
  negative characters on this target: the driver shows nothing for them and does not move.\<close>

theorem high_bytes_not_shown:
  "screen_inv s \<Longrightarrow> \<forall>c \<in> set cs. 128 \<le> unat c \<Longrightarrow>
     vga (screen_print cs s) = vga s \<and> screen_pos (screen_print cs s) = screen_pos s"
proof (induction cs arbitrary: s)
  case Nil
  then show ?case by simp
next
  case (Cons c cs)
  have c: "128 \<le> unat c" using Cons.prems by simp
  then have "sint c < 0" by (rule sint_u8_negative)
  moreover have "c \<notin> {9, 10, 13}" using c by auto
  ultimately have "screen_putchar c s = update_cursor (cursor_row s * 80 + cursor_col s) s"
    using Cons.prems by (intro screen_putchar_ignored) auto
  moreover have "vga (screen_print cs (screen_putchar c s)) = vga (screen_putchar c s) \<and>
      screen_pos (screen_print cs (screen_putchar c s)) = screen_pos (screen_putchar c s)"
    by (rule Cons.IH) (use Cons.prems in \<open>auto intro: screen_inv_putchar\<close>)
  ultimately show ?case by (simp add: screen_pos_def)
qed

theorem high_bytes_not_shown_witness:
  "vga (screen_print [0xE2, 0x96, 0x88] (screen_start (\<lambda>_. 0) (\<lambda>_. sconst 0))) = (\<lambda>_. 0)"
  using high_bytes_not_shown [OF screen_inv_start [of "\<lambda>_. 0" "\<lambda>_. sconst 0"], of "[0xE2, 0x96, 0x88]"]
  by (simp add: screen_start_def)

end
