(* ===== verification/Number_Text.thy ===== *)
theory Number_Text imports Screen_Driver begin

text \<open>
  The number printers of src/drivers/shell/shell.c, \<open>print_number\<close> (repeated word for word
  as a static function of src/mm/memory.c) and \<open>print_hex\<close>: the texts they print, with the
  bounds of their buffers, and the proof that the texts denote the number.
\<close>

unbundle bit_operations_syntax

section \<open>Decimal\<close>

text \<open>
  The loop that fills \<open>buffer\<close> from the least significant digit; the list is the part of
  the buffer in front of \<open>i\<close>.
\<close>

function digits_rev :: "u32 \<Rightarrow> cchar list" where
  "digits_rev num = (if 0 < num then ucast (48 + num mod 10) # digits_rev (num div 10) else [])"
  by pat_completeness auto
termination
proof (relation "measure unat")
  fix num :: u32
  assume "0 < num"
  then show "(num div 10, num) \<in> measure unat"
    by (simp add: unat_div word_less_nat_alt)
qed simp

declare digits_rev.simps [simp del]

definition print_number :: "u32 \<Rightarrow> screen \<Rightarrow> screen" where
  "print_number num s =
     (if num = 0 then screen_print (cstr ''0'') s
      else fold (\<lambda>d s. screen_print [d] s) (rev (digits_rev num)) s)"

definition number_text :: "u32 \<Rightarrow> cchar list" where
  "number_text num = (if num = 0 then cstr ''0'' else rev (digits_rev num))"

definition decimal_value :: "cchar list \<Rightarrow> nat" where
  "decimal_value ds = foldl (\<lambda>n d. n * 10 + (unat d - 48)) 0 ds"

lemma decimal_value_snoc: "decimal_value (ds @ [d]) = decimal_value ds * 10 + (unat d - 48)"
  by (simp add: decimal_value_def)

lemma print_chars_fold: "fold (\<lambda>d s. screen_print [d] s) cs s = screen_print cs s"
  by (induction cs arbitrary: s) auto

lemma print_number_text: "print_number num s = screen_print (number_text num) s"
  by (simp add: print_number_def number_text_def print_chars_fold)

lemma unat_digit: "unat (ucast (48 + num mod 10 :: u32) :: u8) = 48 + unat num mod 10"
proof -
  have "unat (num mod 10) < 10" by (simp add: unat_mod)
  then have "unat (48 + num mod 10) = 48 + unat num mod 10"
    by (simp add: unat_word_ariths unat_mod)
  then show ?thesis by (simp add: unsigned_ucast_eq take_bit_eq_mod)
qed

lemma digits_rev_value: "decimal_value (rev (digits_rev num)) = unat num"
proof (induction num rule: digits_rev.induct)
  case (1 num)
  show ?case
  proof (cases "0 < num")
    case True
    with 1 show ?thesis
      by (subst digits_rev.simps) (simp add: decimal_value_snoc unat_digit unat_div)
  next
    case False
    then have "num = 0" using word_neq_0_conv by blast
    then show ?thesis by (subst digits_rev.simps) (simp add: decimal_value_def)
  qed
qed

lemma digits_rev_digits: "d \<in> set (digits_rev num) \<Longrightarrow> 48 \<le> unat d \<and> unat d \<le> 57"
proof (induction num rule: digits_rev.induct)
  case (1 num)
  then show ?case
    using unat_digit [of num]
    by (subst (asm) (2) digits_rev.simps) (auto split: if_splits)
qed

lemma digits_rev_length: "unat num < 10 ^ k \<Longrightarrow> length (digits_rev num) \<le> k"
proof (induction k arbitrary: num)
  case 0
  then show ?case by (subst digits_rev.simps) (simp add: unat_eq_0)
next
  case (Suc k)
  then have "unat (num div 10) < 10 ^ k" by (simp add: unat_div less_mult_imp_div_less mult.commute)
  then show ?case using Suc.IH [of "num div 10"] by (subst digits_rev.simps) simp
qed

section \<open>Hexadecimal\<close>

definition hex_chars :: "cchar list" where
  "hex_chars = cstr ''0123456789ABCDEF''"

text \<open>\<open>hex_fill n num acc\<close>: the buffer from index \<open>n\<close> on is \<open>acc\<close>, the loop fills the rest.\<close>

primrec hex_fill :: "nat \<Rightarrow> u32 \<Rightarrow> cchar list \<Rightarrow> cchar list" where
  "hex_fill 0 num acc = acc"
| "hex_fill (Suc i) num acc =
     hex_fill i (drop_bit 4 num) (hex_chars ! unat (num AND 0xF) # acc)"

definition print_hex :: "u32 \<Rightarrow> screen \<Rightarrow> screen" where
  "print_hex num s = screen_print (hex_fill 8 num []) s"

definition hex_digit_value :: "cchar \<Rightarrow> nat" where
  "hex_digit_value d = (if unat d < 65 then unat d - 48 else unat d - 55)"

definition hex_value :: "cchar list \<Rightarrow> nat" where
  "hex_value ds = foldl (\<lambda>n d. n * 16 + hex_digit_value d) 0 ds"

lemma hex_chars_value: "k < 16 \<Longrightarrow> hex_digit_value (hex_chars ! k) = k"
proof -
  have "\<forall>k \<in> set [0..<16]. hex_digit_value (hex_chars ! k) = k" by code_simp
  then show "k < 16 \<Longrightarrow> ?thesis" by simp
qed

lemma hex_foldl:
  "foldl (\<lambda>n d. n * 16 + hex_digit_value d) a ds = a * 16 ^ length ds + hex_value ds"
proof (induction ds rule: rev_induct)
  case (snoc d ds)
  then show ?case by (simp add: hex_value_def algebra_simps)
qed (simp add: hex_value_def)

lemma hex_value_Cons: "hex_value (d # ds) = hex_digit_value d * 16 ^ length ds + hex_value ds"
  using hex_foldl [of "hex_digit_value d" ds] by (simp add: hex_value_def)

lemma nibble_value: "unat ((num :: u32) AND 0xF) = unat num mod 16"
proof -
  have "num AND 0xF = take_bit 4 num"
    by (simp add: take_bit_eq_mask mask_eq_exp_minus_1)
  then show ?thesis by (simp add: take_bit_eq_mod unat_mod)
qed

lemma hex_fill_length: "length (hex_fill n num acc) = n + length acc"
  by (induction n arbitrary: num acc) auto

lemma hex_fill_value:
  "hex_value (hex_fill n num acc) = (unat num mod 16 ^ n) * 16 ^ length acc + hex_value acc"
proof (induction n arbitrary: num acc)
  case 0
  show ?case by simp
next
  case (Suc n)
  have "unat (drop_bit 4 num) = unat num div 16"
    by (simp add: drop_bit_eq_div unat_div)
  moreover have "unat num mod 16 ^ Suc n = unat num div 16 mod 16 ^ n * 16 + unat num mod 16"
    using mod_mult2_eq [of "unat num" 16 "16 ^ n"] by simp
  moreover have "hex_digit_value (hex_chars ! unat (num AND 0xF)) = unat num mod 16"
    by (simp add: nibble_value hex_chars_value)
  ultimately show ?case by (simp add: Suc.IH hex_value_Cons algebra_simps)
qed

section \<open>Properties\<close>

text \<open>C36: \<open>print_number\<close> prints a text of one to ten decimal digits (its buffer holds 16) that
  denotes the number it was given.\<close>

theorem print_number_correct:
  "\<exists>ds. print_number num s = screen_print ds s \<and> decimal_value ds = unat num
     \<and> ds \<noteq> [] \<and> length ds \<le> 10 \<and> list_all (\<lambda>d. 48 \<le> unat d \<and> unat d \<le> 57) ds"
proof (cases "num = 0")
  case True
  then show ?thesis
    by (intro exI [of _ "cstr ''0''"]) (simp add: print_number_def cstr_def decimal_value_def)
next
  case False
  have "digits_rev num \<noteq> []"
    using False by (subst digits_rev.simps) (simp add: word_neq_0_conv)
  moreover have "unat num < 10 ^ 10"
    using unsigned_less [where 'a = nat, of num] by (simp del: unsigned_less)
  ultimately show ?thesis using False
    by (intro exI [of _ "rev (digits_rev num)"])
      (auto simp: print_number_def print_chars_fold digits_rev_value digits_rev_length list_all_iff
        dest: digits_rev_digits)
qed

text \<open>\<open>print_hex\<close> prints exactly eight hexadecimal digits, the size of its buffer, that
  denote the number it was given.\<close>

theorem print_hex_correct:
  "\<exists>ds. print_hex num s = screen_print ds s \<and> hex_value ds = unat num \<and> length ds = 8"
proof -
  have "unat num mod 16 ^ 8 = unat num"
    using unsigned_less [where 'a = nat, of num] by (simp del: unsigned_less)
  then have "hex_value (hex_fill 8 num []) = unat num"
    unfolding hex_fill_value by (simp add: hex_value_def)
  then show ?thesis
    by (intro exI [of _ "hex_fill 8 num []"]) (simp add: print_hex_def hex_fill_length)
qed

end
