(* ===== verification/Shell_Text.thy ===== *)
theory Shell_Text imports Number_Text "HOL-Library.Sublist" begin

text \<open>
  The text functions of src/drivers/shell/shell.c: string comparison, splitting a line into
  command and argument, and tab completion, with the bounds of the arrays they write to.
\<close>

declare upt_rec_numeral [simp del]

section \<open>Arrays and strings\<close>

text \<open>Writing into an array of characters; past its end the behaviour is undefined.\<close>

definition store_char :: "cchar list \<Rightarrow> nat \<Rightarrow> cchar \<Rightarrow> fault + cchar list" where
  "store_char a i c = (if i < length a then Inr (a[i := c]) else Inl Out_Of_Bounds)"

text \<open>The string an array holds, up to its first terminator.\<close>

definition string_in :: "cchar list \<Rightarrow> cchar list" where
  "string_in a = takeWhile (\<lambda>c. c \<noteq> 0) a"

fun strcmp :: "cchar list \<Rightarrow> cchar list \<Rightarrow> int" where
  "strcmp (a # s1) (b # s2) =
     (if a \<noteq> 0 \<and> a = b then strcmp s1 s2 else int (unat a) - int (unat b))"
| "strcmp (a # s1) [] = int (unat a) - 0"
| "strcmp [] (b # s2) = 0 - int (unat b)"
| "strcmp [] [] = 0"

primrec strlen :: "cchar list \<Rightarrow> nat" where
  "strlen [] = 0"
| "strlen (c # cs) = Suc (strlen cs)"

text \<open>The loop of \<open>strncmp\<close> over the remaining indices.\<close>

fun strncmp_loop :: "cchar list \<Rightarrow> cchar list \<Rightarrow> nat list \<Rightarrow> int" where
  "strncmp_loop str1 str2 [] = 0"
| "strncmp_loop str1 str2 (i # is) =
     (if str_at str1 i \<noteq> str_at str2 i then sint (str_at str1 i) - sint (str_at str2 i)
      else if str_at str1 i = 0 then 0
      else strncmp_loop str1 str2 is)"

definition strncmp :: "cchar list \<Rightarrow> cchar list \<Rightarrow> nat \<Rightarrow> int" where
  "strncmp str1 str2 n = strncmp_loop str1 str2 [0..<n]"

section \<open>parse_command\<close>

fun skip_spaces :: "cchar list \<Rightarrow> cchar list" where
  "skip_spaces [] = []"
| "skip_spaces (c # cs) = (if c = 32 then skip_spaces cs else c # cs)"

text \<open>
  The copying loops, with the room that is left in the destination array: what they store in
  front of the terminator, and the rest of the input. The terminator needs room as well.
\<close>

fun copy_word :: "nat \<Rightarrow> cchar list \<Rightarrow> fault + (cchar list \<times> cchar list)" where
  "copy_word 0 cs = Inl Out_Of_Bounds"
| "copy_word (Suc room) [] = Inr ([], [])"
| "copy_word (Suc room) (c # cs) =
     (if c = 32 then Inr ([], c # cs)
      else case copy_word room cs of Inl e \<Rightarrow> Inl e | Inr (w, rest) \<Rightarrow> Inr (c # w, rest))"

fun copy_rest :: "nat \<Rightarrow> cchar list \<Rightarrow> fault + cchar list" where
  "copy_rest 0 cs = Inl Out_Of_Bounds"
| "copy_rest (Suc room) [] = Inr []"
| "copy_rest (Suc room) (c # cs) = (case copy_rest room cs of Inl e \<Rightarrow> Inl e | Inr a \<Rightarrow> Inr (c # a))"

text \<open>The destination arrays have 64 characters; the result is (parts, command, argument).\<close>

definition parse_command :: "cchar list \<Rightarrow> fault + (nat \<times> cchar list \<times> cchar list)" where
  "parse_command input =
     (case copy_word 64 (skip_spaces input) of
        Inl e \<Rightarrow> Inl e
      | Inr (cmd, rest) \<Rightarrow>
          (case copy_rest 64 (skip_spaces rest) of
             Inl e \<Rightarrow> Inl e
           | Inr arg \<Rightarrow> Inr (if 0 < strlen arg then 2 else 1, cmd, arg)))"

section \<open>Prompt and tab completion\<close>

definition shell_print_prompt :: "screen \<Rightarrow> screen" where
  "shell_print_prompt s =
     (let s = screen_set_color VGA_COLOR_LIGHT_CYAN VGA_COLOR_BLACK s;
          s = screen_print (cstr ''trakos> '') s
      in screen_set_color VGA_COLOR_WHITE VGA_COLOR_BLACK s)"

definition shell_init :: "screen \<Rightarrow> screen" where
  "shell_init s =
     (let s = screen_set_color VGA_COLOR_LIGHT_GREEN VGA_COLOR_BLACK s;
          s = screen_println [] s;
          s = screen_println (cstr ''TRAKOS Shell v1.0'') s;
          s = screen_println (cstr (''Type '' @ [CHR 0x27] @ ''help'' @ [CHR 0x27] @ '' for available commands'')) s
      in screen_println [] s)"

definition shell_commands :: "cchar list list" where
  "shell_commands = map cstr
     [''help'', ''clear'', ''echo'', ''about'', ''version'', ''time'', ''sleep'',
      ''calc'', ''colors'', ''memory'', ''memtest'', ''ls'', ''cat'', ''create'',
      ''delete'', ''edit'', ''copy'', ''fsinfo'', ''ps'', ''uptime'', ''sysinfo'', ''reboot'']"

text \<open>The loop that writes and echoes the missing characters of the only match.\<close>

fun complete_loop :: "cchar list \<Rightarrow> nat list \<Rightarrow> cchar list \<Rightarrow> screen \<Rightarrow> fault + (cchar list \<times> screen)" where
  "complete_loop m [] buffer s = Inr (buffer, s)"
| "complete_loop m (i # is) buffer s =
     (case store_char buffer i (str_at m i) of
        Inl e \<Rightarrow> Inl e
      | Inr buffer \<Rightarrow> complete_loop m is buffer (screen_print [str_at m i] s))"

text \<open>The result is the buffer, the returned length and the screen.\<close>

definition tab_complete :: "cchar list \<Rightarrow> nat \<Rightarrow> screen \<Rightarrow> fault + (cchar list \<times> nat \<times> screen)" where
  "tab_complete buffer buffer_len s =
     (if buffer_len = 0 then Inr (buffer, buffer_len, s)
      else
        let hit = (\<lambda>c. strncmp (string_in buffer) c buffer_len = 0);
            (m, matches) = fold (\<lambda>c (m, n). if hit c then (Some c, n + 1) else (m, n))
                             shell_commands (None, 0 :: nat)
        in if matches = 1 \<and> m \<noteq> None then
             let match_len = strlen (the m)
             in (case complete_loop (the m) [buffer_len..<match_len] buffer s of
                   Inl e \<Rightarrow> Inl e
                 | Inr (buffer, s) \<Rightarrow>
                     (case store_char buffer match_len 32 of
                        Inl e \<Rightarrow> Inl e
                      | Inr buffer \<Rightarrow>
                          (case store_char buffer (match_len + 1) 0 of
                             Inl e \<Rightarrow> Inl e
                           | Inr buffer \<Rightarrow> Inr (buffer, match_len + 1, screen_print [32] s))))
           else if matches > 1 then
             let s = screen_println [] s;
                 s = screen_set_color VGA_COLOR_LIGHT_CYAN VGA_COLOR_BLACK s;
                 s = fold (\<lambda>c s. if hit c then screen_print (cstr ''  '') (screen_print c s) else s)
                       shell_commands s;
                 s = screen_println [] s;
                 s = screen_set_color VGA_COLOR_WHITE VGA_COLOR_BLACK s;
                 s = shell_print_prompt s
             in Inr (buffer, buffer_len, screen_print (string_in buffer) s)
           else Inr (buffer, buffer_len, s))"

section \<open>Comparison\<close>

lemma strlen_length [simp]: "strlen s = length s"
  by (induction s) auto

lemma strcmp_eq: "0 \<notin> set s \<Longrightarrow> 0 \<notin> set t \<Longrightarrow> strcmp s t = 0 \<longleftrightarrow> s = t"
proof (induction s t rule: strcmp.induct)
  case (1 a s1 b s2)
  then show ?case by (cases "a = b") (auto dest: word_uint_eq_iff [THEN iffD2])
qed (auto simp: uint_0_iff)

text \<open>Comparing the first \<open>length w\<close> characters decides whether \<open>w\<close> is a prefix.\<close>

lemma strncmp_loop_prefix:
  assumes "0 \<notin> set w" and "k \<le> length w"
  shows "strncmp_loop w c [k..<length w] = 0 \<longleftrightarrow> prefix (drop k w) (drop k c)"
  using assms(2)
proof (induction "length w - k" arbitrary: k)
  case 0
  then show ?case by simp
next
  case (Suc n)
  then have k: "k < length w" by simp
  then have loop: "[k..<length w] = k # [Suc k..<length w]" by (rule upt_conv_Cons)
  have w: "drop k w = w ! k # drop (Suc k) w" "w ! k \<noteq> 0"
    using k assms(1) by (auto simp: Cons_nth_drop_Suc in_set_conv_nth)
  have IH: "strncmp_loop w c [Suc k..<length w] = 0 \<longleftrightarrow> prefix (drop (Suc k) w) (drop (Suc k) c)"
    using Suc k by simp
  have differ: "sint (w ! k) - sint d \<noteq> 0" if "w ! k \<noteq> d" for d
    using that signed_word_eqI [of "w ! k" d] by auto
  show ?case
  proof (cases "k < length c")
    case True
    then have "drop k c = c ! k # drop (Suc k) c" by (simp add: Cons_nth_drop_Suc)
    then show ?thesis using k True w IH differ [of "c ! k"] by (simp add: loop str_at_def)
  next
    case False
    then show ?thesis using k w differ [of 0] by (simp add: loop str_at_def)
  qed
qed

lemma strncmp_prefix: "0 \<notin> set w \<Longrightarrow> strncmp w c (length w) = 0 \<longleftrightarrow> prefix w c"
  using strncmp_loop_prefix [of w 0 c] by (simp add: strncmp_def)

section \<open>Parsing\<close>

lemma skip_spaces_eq: "skip_spaces cs = dropWhile (\<lambda>c. c = 32) cs"
  by (induction cs) auto

lemma copy_word_eq:
  "copy_word room cs =
     (if length (takeWhile (\<lambda>c. c \<noteq> 32) cs) < room
      then Inr (takeWhile (\<lambda>c. c \<noteq> 32) cs, dropWhile (\<lambda>c. c \<noteq> 32) cs) else Inl Out_Of_Bounds)"
  by (induction room cs rule: copy_word.induct) auto

lemma copy_rest_eq: "copy_rest room cs = (if length cs < room then Inr cs else Inl Out_Of_Bounds)"
  by (induction room cs rule: copy_rest.induct) auto

text \<open>The command and the argument of a line, without the arrays.\<close>

definition command_of :: "cchar list \<Rightarrow> cchar list" where
  "command_of line = takeWhile (\<lambda>c. c \<noteq> 32) (dropWhile (\<lambda>c. c = 32) line)"

definition argument_of :: "cchar list \<Rightarrow> cchar list" where
  "argument_of line =
     dropWhile (\<lambda>c. c = 32) (dropWhile (\<lambda>c. c \<noteq> 32) (dropWhile (\<lambda>c. c = 32) line))"

lemma parse_command_split:
  "parse_command line =
     (if length (command_of line) < 64 \<and> length (argument_of line) < 64
      then Inr (if argument_of line = [] then 1 else 2, command_of line, argument_of line)
      else Inl Out_Of_Bounds)"
proof -
  define start where "start = dropWhile (\<lambda>c. c = 32) line"
  define cmd where "cmd = takeWhile (\<lambda>c. c \<noteq> 32) start"
  define rest where "rest = dropWhile (\<lambda>c. c \<noteq> 32) start"
  define arg where "arg = dropWhile (\<lambda>c. c = 32) rest"
  have w: "copy_word 64 (skip_spaces line) = (if length cmd < 64 then Inr (cmd, rest) else Inl Out_Of_Bounds)"
    by (simp only: skip_spaces_eq copy_word_eq start_def cmd_def rest_def)
  have r: "copy_rest 64 (skip_spaces rest) = (if length arg < 64 then Inr arg else Inl Out_Of_Bounds)"
    by (simp only: skip_spaces_eq copy_rest_eq arg_def)
  have "command_of line = cmd" "argument_of line = arg"
    by (simp_all only: command_of_def argument_of_def start_def cmd_def rest_def arg_def)
  then show ?thesis by (simp add: parse_command_def w r)
qed

text \<open>C27: \<open>parse_command\<close> takes the first run of characters that are not blanks as the command
  and everything after the blanks behind it as the argument (blanks inside and at the end of
  the argument included), counts the parts, and writes past one of its 64-character arrays
  exactly when command or argument has 64 characters or more.\<close>

theorem parse_command_exact:
  "parse_command line =
     (let word = (\<lambda>c. c \<noteq> 32); start = dropWhile (Not \<circ> word) line;
          cmd = takeWhile word start; arg = dropWhile (Not \<circ> word) (dropWhile word start)
      in if length cmd < 64 \<and> length arg < 64 then Inr (if arg = [] then 1 else 2, cmd, arg)
         else Inl Out_Of_Bounds)"
  by (simp only: parse_command_split command_of_def argument_of_def comp_def Let_def not_not)

lemma parse_words:
  assumes "cmd \<noteq> []" and "32 \<notin> set cmd" and "length cmd < 64"
    and "arg = [] \<or> hd arg \<noteq> 32" and "length arg < 64"
  shows "parse_command (replicate a 32 @ cmd @ replicate (Suc b) 32 @ arg)
    = Inr (if arg = [] then 1 else 2, cmd, arg)"
proof -
  let ?line = "replicate a 32 @ cmd @ replicate (Suc b) 32 @ arg"
  have start: "dropWhile (\<lambda>c. c = 32) ?line = cmd @ replicate (Suc b) 32 @ arg"
  proof -
    have "dropWhile (\<lambda>c. c = 32) (cmd @ x) = cmd @ x" for x
      using assms(1,2) by (cases cmd) auto
    then show ?thesis by (induction a) auto
  qed
  have all: "\<forall>c \<in> set cmd. c \<noteq> 32" using assms(2) by auto
  have "command_of ?line = cmd"
    unfolding command_of_def start using all by (simp add: takeWhile_append2)
  moreover have "argument_of ?line = arg"
  proof -
    have "dropWhile (\<lambda>c. c = 32) (replicate n 32 @ arg) = arg" for n
      using assms(4) by (induction n) (cases arg, auto)+
    then have "dropWhile (\<lambda>c. c = 32) (replicate (Suc b) 32 @ arg) = arg" .
    moreover have "dropWhile (\<lambda>c. c \<noteq> 32) (cmd @ replicate (Suc b) 32 @ arg) = replicate (Suc b) 32 @ arg"
      using all by (simp add: dropWhile_append2)
    ultimately show ?thesis unfolding argument_of_def start by simp
  qed
  ultimately show ?thesis using assms(3,5) by (simp add: parse_command_split)
qed

text \<open>A command and an argument that fit their arrays are read back from the line they were
  written on, whatever the number of blanks in front of and between them.\<close>

theorem parse_round_trip:
  assumes "cmd \<noteq> []" and "32 \<notin> set cmd" and "length cmd < 64"
    and "arg = [] \<or> hd arg \<noteq> 32" and "length arg < 64"
  shows "parse_command (replicate a 32 @ cmd @ replicate (Suc b) 32 @ arg)
    = Inr (if arg = [] then 1 else 2, cmd, arg)"
  by (rule parse_words [OF assms])

theorem parse_round_trip_witness:
  "parse_command (cstr ''  cat   a b'') = Inr (2, cstr ''cat'', cstr ''a b'')"
proof -
  have line: "cstr ''  cat   a b'' = replicate 2 32 @ cstr ''cat'' @ replicate (Suc 2) 32 @ cstr ''a b''"
    by (simp add: cstr_def numeral_2_eq_2)
  have "parse_command (replicate 2 32 @ cstr ''cat'' @ replicate (Suc 2) 32 @ cstr ''a b'')
      = Inr (if cstr ''a b'' = [] then 1 else 2, cstr ''cat'', cstr ''a b'')"
    by (rule parse_round_trip) (simp_all add: cstr_def)
  then show ?thesis unfolding line by (simp add: cstr_def)
qed

section \<open>Tab completion\<close>

lemma fold_hits:
  "fold (\<lambda>c (m, n). if hit c then (Some c, n + 1) else (m, n)) cs (m, n)
     = (if filter hit cs = [] then m else Some (last (filter hit cs)), n + length (filter hit cs))"
  by (induction cs arbitrary: m n) auto

lemma fold_filtered: "fold (\<lambda>c s. if hit c then f c s else s) cs s = fold f (filter hit cs) s"
  by (induction cs arbitrary: s) auto

lemma string_in_clean: "0 \<notin> set (string_in a)"
  unfolding string_in_def by (induction a) auto

lemma string_in_append: "0 \<notin> set w \<Longrightarrow> string_in (w @ 0 # rest) = w"
  by (induction w) (auto simp: string_in_def)

lemma string_in_split:
  assumes "string_in a = w" and "length w < length a"
  obtains rest where "a = w @ 0 # rest"
proof -
  define r where "r = dropWhile (\<lambda>c. c \<noteq> 0) a"
  have a: "a = w @ r"
    using assms(1) takeWhile_dropWhile_id [of "\<lambda>c. c \<noteq> 0" a] by (simp add: string_in_def r_def)
  then have "r \<noteq> []" using assms(2) by auto
  then obtain d rest where r: "r = d # rest" by (cases r) auto
  moreover have "\<not> hd r \<noteq> 0" unfolding r_def by (rule hd_dropWhile) (use \<open>r \<noteq> []\<close> in \<open>simp only: r_def not_False_eq_True\<close>)
  ultimately show thesis using that a by simp
qed

lemma complete_loop_eq:
  assumes "i \<le> length m" and "length m \<le> length buffer"
  shows "complete_loop m [i..<length m] buffer s
    = Inr (take i buffer @ drop i m @ drop (length m) buffer, screen_print (drop i m) s)"
  using assms
proof (induction "length m - i" arbitrary: i buffer s)
  case 0
  then show ?case by simp
next
  case (Suc n)
  then have i: "i < length m" "i < length buffer" by auto
  then have loop: "[i..<length m] = i # [Suc i..<length m]" by (intro upt_conv_Cons)
  have m: "drop i m = m ! i # drop (Suc i) m" using i by (simp add: Cons_nth_drop_Suc)
  have "take (Suc i) (buffer[i := m ! i]) = take i buffer @ [m ! i]"
    using i by (simp add: take_Suc_conv_app_nth)
  moreover have "drop (length m) (buffer[i := m ! i]) = drop (length m) buffer" using i by simp
  ultimately show ?case
    using Suc.hyps(1) [of "Suc i" "buffer[i := m ! i]" "screen_print [m ! i] s"] Suc.hyps(2) Suc.prems i
    by (simp add: loop m store_char_def str_at_def)
qed

lemma shell_commands_short: "c \<in> set shell_commands \<Longrightarrow> length c \<le> 7 \<and> 0 \<notin> set c"
proof -
  have "list_all (\<lambda>c. length c \<le> 7 \<and> 0 \<notin> set c) shell_commands" by code_simp
  then show "c \<in> set shell_commands \<Longrightarrow> ?thesis" by (simp add: list_all_iff)
qed

text \<open>The commands a text may be completed to.\<close>

definition candidates :: "cchar list \<Rightarrow> cchar list list" where
  "candidates w = filter (prefix w) shell_commands"

text \<open>Filling in the only match, and the terminator behind it.\<close>

lemma complete_only:
  assumes "prefix w c" and "0 \<notin> set c" and "length c + 2 \<le> length buffer" and "take (length w) buffer = w"
  obtains rest where
    "complete_loop c [length w..<length c] buffer s
      = Inr (c @ drop (length c) buffer, screen_print (drop (length w) c) s)"
    and "\<And>x. x = c @ drop (length c) buffer \<Longrightarrow> \<exists>y. store_char x (length c) 32 = Inr y
      \<and> store_char y (length c + 1) 0 = Inr ((c @ [32]) @ 0 # rest)"
    and "string_in ((c @ [32]) @ 0 # rest) = c @ [32]" and "length ((c @ [32]) @ 0 # rest) = length buffer"
proof -
  have le: "length w \<le> length c" using assms(1) by (rule prefix_length_le)
  have cw: "w @ drop (length w) c = c" using assms(1) by (auto simp: prefix_def)
  have fit: "length c \<le> length buffer" using assms(3) by simp
  have "take (length w) buffer @ drop (length w) c @ x = c @ x" for x
    using assms(4) cw by (metis append_assoc)
  then have fill: "complete_loop c [length w..<length c] buffer s
      = Inr (c @ drop (length c) buffer, screen_print (drop (length w) c) s)"
    using complete_loop_eq [OF le fit, of s] by simp
  have "2 \<le> length (drop (length c) buffer)" using assms(3) by simp
  then obtain x y rest where r: "drop (length c) buffer = x # y # rest"
    by (cases "drop (length c) buffer" rule: remdups_adj.cases) auto
  have "store_char (c @ x # y # rest) (length c) 32 = Inr (c @ 32 # y # rest)"
      "store_char (c @ 32 # y # rest) (length c + 1) 0 = Inr ((c @ [32]) @ 0 # rest)"
    by (simp_all add: store_char_def list_update_append)
  moreover have "string_in ((c @ [32]) @ 0 # rest) = c @ [32]"
    using assms(2) by (intro string_in_append) simp
  moreover have "length ((c @ [32]) @ 0 # rest) = length buffer"
    using arg_cong [OF r, of length] fit by simp
  ultimately show thesis using fill by (intro that) (auto simp: r)
qed

lemma tab_complete_cases:
  assumes "string_in buffer = w" and "w \<noteq> []" and "length w < length buffer" and "9 \<le> length buffer"
  shows "case candidates w of
      [] \<Rightarrow> tab_complete buffer (length w) s = Inr (buffer, length w, s)
    | [c] \<Rightarrow> \<exists>buffer'. tab_complete buffer (length w) s
          = Inr (buffer', length c + 1, screen_print (drop (length w) c @ [32]) s)
        \<and> string_in buffer' = c @ [32] \<and> length buffer' = length buffer
    | ms \<Rightarrow> tab_complete buffer (length w) s = Inr (buffer, length w,
          screen_print w (shell_print_prompt (screen_set_color 15 0 (screen_println []
            (fold (\<lambda>c s. screen_print (cstr ''  '') (screen_print c s)) ms
              (screen_set_color 11 0 (screen_println [] s)))))))"
proof -
  have w: "0 \<notin> set w" using string_in_clean [of buffer] assms(1) by simp
  have hit: "strncmp (string_in buffer) c (length w) = 0 \<longleftrightarrow> prefix w c" for c
    using strncmp_prefix [OF w] assms(1) by simp
  have len: "length w \<noteq> 0" using assms(2) by simp
  note run = tab_complete_def hit fold_hits fold_filtered Let_def candidates_def [symmetric]
  consider "candidates w = []" | c where "candidates w = [c]" | c d cs where "candidates w = c # d # cs"
    by (cases "candidates w" rule: remdups_adj.cases) auto
  then show ?thesis
  proof cases
    case 1
    then show ?thesis using len by (simp add: run)
  next
    case (2 c)
    then have "c \<in> set (candidates w)" by simp
    then have c: "prefix w c" "length c \<le> 7" "0 \<notin> set c"
      using shell_commands_short [of c] by (simp_all add: candidates_def)
    obtain rest where "buffer = w @ 0 # rest" using string_in_split [OF assms(1,3)] .
    then have buf: "take (length w) buffer = w" by simp
    have room: "length c + 2 \<le> length buffer" using c(2) assms(4) by simp
    obtain rest y where fill: "complete_loop c [length w..<length c] buffer s
          = Inr (c @ drop (length c) buffer, screen_print (drop (length w) c) s)"
        "store_char (c @ drop (length c) buffer) (length c) 32 = Inr y"
        "store_char y (length c + 1) 0 = Inr ((c @ [32]) @ 0 # rest)"
        "string_in ((c @ [32]) @ 0 # rest) = c @ [32]" "length ((c @ [32]) @ 0 # rest) = length buffer"
      using complete_only [OF c(1,3) room buf, of s] by (metis (no_types, lifting))
    have "tab_complete buffer (length w) s
        = Inr ((c @ [32]) @ 0 # rest, length c + 1, screen_print [32] (screen_print (drop (length w) c) s))"
      using len 2 fill by (simp add: run)
    moreover have "screen_print [32] (screen_print x s) = screen_print (x @ [32]) s" for x
      by (simp add: screen_print_fold)
    ultimately show ?thesis using fill(4,5) 2 by (auto simp del: screen_print.simps)
  next
    case (3 c d cs)
    then show ?thesis using len assms(1) by (simp add: run strncmp_prefix [OF w])
  qed
qed

text \<open>C26: Tab completion: with no command that starts with the typed text nothing happens; with
  exactly one, the missing characters and a blank are appended to the line and echoed; with
  several, exactly these are listed below the line and the prompt and the line are shown again.
  The line array, which has room for the longest command and a blank, is never overrun.\<close>

theorem tab_completion:
  assumes "string_in buffer = w" and "w \<noteq> []" and "length w < length buffer" and "9 \<le> length buffer"
  shows "case filter (prefix w) shell_commands of
      [] \<Rightarrow> tab_complete buffer (length w) s = Inr (buffer, length w, s)
    | [c] \<Rightarrow> \<exists>buffer'. tab_complete buffer (length w) s
          = Inr (buffer', length c + 1, screen_print (drop (length w) c @ [32]) s)
        \<and> string_in buffer' = c @ [32] \<and> length buffer' = length buffer
    | ms \<Rightarrow> tab_complete buffer (length w) s = Inr (buffer, length w,
          screen_print w (shell_print_prompt (screen_set_color 15 0 (screen_println []
            (fold (\<lambda>c s. screen_print (cstr ''  '') (screen_print c s)) ms
              (screen_set_color 11 0 (screen_println [] s)))))))"
  by (rule tab_complete_cases [OF assms, unfolded candidates_def])

theorem tab_completion_witness:
  "\<forall>s. \<exists>buffer'. tab_complete (cstr ''he'' @ 0 # replicate 253 7) 2 s
      = Inr (buffer', 5, screen_print (cstr ''lp '') s) \<and> string_in buffer' = cstr ''help ''"
proof -
  have str: "string_in (cstr ''he'' @ 0 # replicate 253 7) = cstr ''he''"
    by (intro string_in_append) (simp add: cstr_def)
  have "filter (prefix (cstr ''he'')) shell_commands = [cstr ''help'']" by code_simp
  moreover have "drop 2 (cstr ''help'') @ [32] = cstr ''lp ''" "cstr ''help'' @ [32] = cstr ''help ''"
      "length (cstr ''help'') + 1 = 5" "length (cstr ''he'') = 2"
    by code_simp+
  ultimately show ?thesis
    using tab_completion [OF str] by (fastforce simp: cstr_def eval_nat_numeral)
qed

end
