(* ===== verification/Keyboard_Driver.thy ===== *)
theory Keyboard_Driver imports Port_IO Number_Text begin

text \<open>
  The PS/2 keyboard driver, src/drivers/keyboard/keyboard.c with the scancodes of
  src/include/keyboard.h: translation of scancodes with the shift and control state, the
  interrupt handler with its one-key buffer, and the polling \<open>keyboard_getchar\<close>.
\<close>

unbundle bit_operations_syntax

section \<open>Scancode tables\<close>

abbreviation KEYBOARD_DATA_PORT :: u16 where "KEYBOARD_DATA_PORT \<equiv> 0x60"
abbreviation KEYBOARD_STATUS_PORT :: u16 where "KEYBOARD_STATUS_PORT \<equiv> 0x64"
abbreviation KEYBOARD_COMMAND_PORT :: u16 where "KEYBOARD_COMMAND_PORT \<equiv> 0x64"

text \<open>Scancodes of set 1.\<close>

abbreviation KEY_ESCAPE :: u8 where "KEY_ESCAPE \<equiv> 0x01"
abbreviation KEY_1 :: u8 where "KEY_1 \<equiv> 0x02"
abbreviation KEY_2 :: u8 where "KEY_2 \<equiv> 0x03"
abbreviation KEY_3 :: u8 where "KEY_3 \<equiv> 0x04"
abbreviation KEY_4 :: u8 where "KEY_4 \<equiv> 0x05"
abbreviation KEY_5 :: u8 where "KEY_5 \<equiv> 0x06"
abbreviation KEY_6 :: u8 where "KEY_6 \<equiv> 0x07"
abbreviation KEY_7 :: u8 where "KEY_7 \<equiv> 0x08"
abbreviation KEY_8 :: u8 where "KEY_8 \<equiv> 0x09"
abbreviation KEY_9 :: u8 where "KEY_9 \<equiv> 0x0A"
abbreviation KEY_0 :: u8 where "KEY_0 \<equiv> 0x0B"
abbreviation KEY_MINUS :: u8 where "KEY_MINUS \<equiv> 0x0C"
abbreviation KEY_EQUALS :: u8 where "KEY_EQUALS \<equiv> 0x0D"
abbreviation KEY_BACKSPACE :: u8 where "KEY_BACKSPACE \<equiv> 0x0E"
abbreviation KEY_TAB :: u8 where "KEY_TAB \<equiv> 0x0F"
abbreviation KEY_Q :: u8 where "KEY_Q \<equiv> 0x10"
abbreviation KEY_W :: u8 where "KEY_W \<equiv> 0x11"
abbreviation KEY_E :: u8 where "KEY_E \<equiv> 0x12"
abbreviation KEY_R :: u8 where "KEY_R \<equiv> 0x13"
abbreviation KEY_T :: u8 where "KEY_T \<equiv> 0x14"
abbreviation KEY_Y :: u8 where "KEY_Y \<equiv> 0x15"
abbreviation KEY_U :: u8 where "KEY_U \<equiv> 0x16"
abbreviation KEY_I :: u8 where "KEY_I \<equiv> 0x17"
abbreviation KEY_O :: u8 where "KEY_O \<equiv> 0x18"
abbreviation KEY_P :: u8 where "KEY_P \<equiv> 0x19"
abbreviation KEY_LBRACKET :: u8 where "KEY_LBRACKET \<equiv> 0x1A"
abbreviation KEY_RBRACKET :: u8 where "KEY_RBRACKET \<equiv> 0x1B"
abbreviation KEY_ENTER :: u8 where "KEY_ENTER \<equiv> 0x1C"
abbreviation KEY_LCTRL :: u8 where "KEY_LCTRL \<equiv> 0x1D"
abbreviation KEY_A :: u8 where "KEY_A \<equiv> 0x1E"
abbreviation KEY_S :: u8 where "KEY_S \<equiv> 0x1F"
abbreviation KEY_D :: u8 where "KEY_D \<equiv> 0x20"
abbreviation KEY_F :: u8 where "KEY_F \<equiv> 0x21"
abbreviation KEY_G :: u8 where "KEY_G \<equiv> 0x22"
abbreviation KEY_H :: u8 where "KEY_H \<equiv> 0x23"
abbreviation KEY_J :: u8 where "KEY_J \<equiv> 0x24"
abbreviation KEY_K :: u8 where "KEY_K \<equiv> 0x25"
abbreviation KEY_L :: u8 where "KEY_L \<equiv> 0x26"
abbreviation KEY_SEMICOLON :: u8 where "KEY_SEMICOLON \<equiv> 0x27"
abbreviation KEY_QUOTE :: u8 where "KEY_QUOTE \<equiv> 0x28"
abbreviation KEY_BACKTICK :: u8 where "KEY_BACKTICK \<equiv> 0x29"
abbreviation KEY_LSHIFT :: u8 where "KEY_LSHIFT \<equiv> 0x2A"
abbreviation KEY_BACKSLASH :: u8 where "KEY_BACKSLASH \<equiv> 0x2B"
abbreviation KEY_Z :: u8 where "KEY_Z \<equiv> 0x2C"
abbreviation KEY_X :: u8 where "KEY_X \<equiv> 0x2D"
abbreviation KEY_C :: u8 where "KEY_C \<equiv> 0x2E"
abbreviation KEY_V :: u8 where "KEY_V \<equiv> 0x2F"
abbreviation KEY_B :: u8 where "KEY_B \<equiv> 0x30"
abbreviation KEY_N :: u8 where "KEY_N \<equiv> 0x31"
abbreviation KEY_M :: u8 where "KEY_M \<equiv> 0x32"
abbreviation KEY_COMMA :: u8 where "KEY_COMMA \<equiv> 0x33"
abbreviation KEY_PERIOD :: u8 where "KEY_PERIOD \<equiv> 0x34"
abbreviation KEY_SLASH :: u8 where "KEY_SLASH \<equiv> 0x35"
abbreviation KEY_RSHIFT :: u8 where "KEY_RSHIFT \<equiv> 0x36"
abbreviation KEY_KP_STAR :: u8 where "KEY_KP_STAR \<equiv> 0x37"
abbreviation KEY_LALT :: u8 where "KEY_LALT \<equiv> 0x38"
abbreviation KEY_SPACE :: u8 where "KEY_SPACE \<equiv> 0x39"
abbreviation KEY_CAPSLOCK :: u8 where "KEY_CAPSLOCK \<equiv> 0x3A"
abbreviation KEY_F1 :: u8 where "KEY_F1 \<equiv> 0x3B"
abbreviation KEY_F2 :: u8 where "KEY_F2 \<equiv> 0x3C"
abbreviation KEY_F3 :: u8 where "KEY_F3 \<equiv> 0x3D"
abbreviation KEY_F4 :: u8 where "KEY_F4 \<equiv> 0x3E"
abbreviation KEY_F5 :: u8 where "KEY_F5 \<equiv> 0x3F"
abbreviation KEY_F6 :: u8 where "KEY_F6 \<equiv> 0x40"
abbreviation KEY_F7 :: u8 where "KEY_F7 \<equiv> 0x41"
abbreviation KEY_F8 :: u8 where "KEY_F8 \<equiv> 0x42"
abbreviation KEY_F9 :: u8 where "KEY_F9 \<equiv> 0x43"
abbreviation KEY_F10 :: u8 where "KEY_F10 \<equiv> 0x44"
abbreviation KEY_NUMLOCK :: u8 where "KEY_NUMLOCK \<equiv> 0x45"
abbreviation KEY_SCROLLLOCK :: u8 where "KEY_SCROLLLOCK \<equiv> 0x46"
abbreviation KEY_KP_7 :: u8 where "KEY_KP_7 \<equiv> 0x47"
abbreviation KEY_KP_8 :: u8 where "KEY_KP_8 \<equiv> 0x48"
abbreviation KEY_KP_9 :: u8 where "KEY_KP_9 \<equiv> 0x49"
abbreviation KEY_KP_MINUS :: u8 where "KEY_KP_MINUS \<equiv> 0x4A"
abbreviation KEY_KP_4 :: u8 where "KEY_KP_4 \<equiv> 0x4B"
abbreviation KEY_KP_5 :: u8 where "KEY_KP_5 \<equiv> 0x4C"
abbreviation KEY_KP_6 :: u8 where "KEY_KP_6 \<equiv> 0x4D"
abbreviation KEY_KP_PLUS :: u8 where "KEY_KP_PLUS \<equiv> 0x4E"
abbreviation KEY_KP_1 :: u8 where "KEY_KP_1 \<equiv> 0x4F"
abbreviation KEY_KP_2 :: u8 where "KEY_KP_2 \<equiv> 0x50"
abbreviation KEY_KP_3 :: u8 where "KEY_KP_3 \<equiv> 0x51"
abbreviation KEY_KP_0 :: u8 where "KEY_KP_0 \<equiv> 0x52"
abbreviation KEY_KP_DOT :: u8 where "KEY_KP_DOT \<equiv> 0x53"
abbreviation KEY_HOME :: u8 where "KEY_HOME \<equiv> 0x47"
abbreviation KEY_UP :: u8 where "KEY_UP \<equiv> 0x48"
abbreviation KEY_PGUP :: u8 where "KEY_PGUP \<equiv> 0x49"
abbreviation KEY_LEFT :: u8 where "KEY_LEFT \<equiv> 0x4B"
abbreviation KEY_RIGHT :: u8 where "KEY_RIGHT \<equiv> 0x4D"
abbreviation KEY_END :: u8 where "KEY_END \<equiv> 0x4F"
abbreviation KEY_DOWN :: u8 where "KEY_DOWN \<equiv> 0x50"
abbreviation KEY_PGDOWN :: u8 where "KEY_PGDOWN \<equiv> 0x51"
abbreviation KEY_INSERT :: u8 where "KEY_INSERT \<equiv> 0x52"
abbreviation KEY_DELETE :: u8 where "KEY_DELETE \<equiv> 0x53"
abbreviation KEY_EXTENDED :: u8 where "KEY_EXTENDED \<equiv> 0xE0"

text \<open>Characters that stand for keys.\<close>

abbreviation CHAR_TAB :: cchar where "CHAR_TAB \<equiv> 9"
abbreviation CHAR_DELETE :: cchar where "CHAR_DELETE \<equiv> 0x7F"
abbreviation CHAR_BACKSPACE :: cchar where "CHAR_BACKSPACE \<equiv> 8"
abbreviation CHAR_NEWLINE :: cchar where "CHAR_NEWLINE \<equiv> 10"
abbreviation CHAR_ESCAPE :: cchar where "CHAR_ESCAPE \<equiv> 27"
abbreviation SPECIAL_KEY_UP :: cchar where "SPECIAL_KEY_UP \<equiv> 0x80"
abbreviation SPECIAL_KEY_DOWN :: cchar where "SPECIAL_KEY_DOWN \<equiv> 0x81"
abbreviation SPECIAL_KEY_LEFT :: cchar where "SPECIAL_KEY_LEFT \<equiv> 0x82"
abbreviation SPECIAL_KEY_RIGHT :: cchar where "SPECIAL_KEY_RIGHT \<equiv> 0x83"
abbreviation SPECIAL_KEY_HOME :: cchar where "SPECIAL_KEY_HOME \<equiv> 0x84"
abbreviation SPECIAL_KEY_END :: cchar where "SPECIAL_KEY_END \<equiv> 0x85"
abbreviation SPECIAL_KEY_PGUP :: cchar where "SPECIAL_KEY_PGUP \<equiv> 0x86"
abbreviation SPECIAL_KEY_PGDN :: cchar where "SPECIAL_KEY_PGDN \<equiv> 0x87"
abbreviation SPECIAL_KEY_INS :: cchar where "SPECIAL_KEY_INS \<equiv> 0x88"

text \<open>
  The initialisers of the two 128-entry tables as the code lists them; the first one lists
  127 values, and C fills the rest of an array with zeros.
\<close>

definition keyboard_map :: "cchar list" where
  "keyboard_map = [
     0, 27, 49, 50, 51, 52, 53, 54, 55, 56, 57, 48, 45, 61, 8,
     9, 113, 119, 101, 114, 116, 121, 117, 105, 111, 112, 91, 93, 10,
     0, 97, 115, 100, 102, 103, 104, 106, 107, 108, 59, 39, 96, 0,
     92, 122, 120, 99, 118, 98, 110, 109, 44, 46, 47, 0, 42,
     0, 32, 0, 0, 0, 0, 0, 0, 0, 0, 0, 0, 0, 0, 0,
     0, 0, 0, 0, 45, 0, 0, 0, 43, 0, 0, 0, 0, 127, 0, 0,
     0, 0, 0, 0, 0, 0, 0, 0, 0, 0, 0, 0, 0, 0, 0, 0,
     0, 0, 0, 0, 0, 0, 0, 0, 0, 0, 0, 0, 0, 0, 0, 0,
     0, 0, 0, 0, 0, 0, 0, 0, 0]"

definition keyboard_shift_map :: "cchar list" where
  "keyboard_shift_map = [
     0, 27, 33, 64, 35, 36, 37, 94, 38, 42, 40, 41, 95, 43, 8,
     9, 81, 87, 69, 82, 84, 89, 85, 73, 79, 80, 123, 125, 10,
     0, 65, 83, 68, 70, 71, 72, 74, 75, 76, 58, 34, 126, 0,
     124, 90, 88, 67, 86, 66, 78, 77, 60, 62, 63, 0, 42,
     0, 32, 0, 0, 0, 0, 0, 0, 0, 0, 0, 0, 0, 0, 0, 0,
     0, 0, 0, 0, 0, 0, 0, 0, 0, 0, 0, 0, 0, 0, 0, 0,
     0, 0, 0, 0, 0, 0, 0, 0, 0, 0, 0, 0, 0, 0, 0, 0,
     0, 0, 0, 0, 0, 0, 0, 0, 0, 0, 0, 0, 0, 0, 0, 0,
     0, 0, 0, 0, 0, 0, 0, 0]"

section \<open>State and operations\<close>

record keyboard =
  shift_pressed :: bool
  ctrl_pressed :: bool
  last_key :: cchar
  key_available :: bool

definition keyboard_start :: keyboard where
  "keyboard_start = \<lparr>shift_pressed = False, ctrl_pressed = False, last_key = 0, key_available = False\<rparr>"

definition keyboard_init :: "'p ports_scheme \<Rightarrow> 'p ports_scheme" where
  "keyboard_init p = (let (mask, p) = inb 0x21 p in outb 0x21 (mask AND 0xFD) p)"

text \<open>The \<open>switch\<close> over the keys that the tables do not decide.\<close>

definition special_key :: "u8 \<Rightarrow> cchar option" where
  "special_key scancode =
     (if scancode = KEY_TAB then Some 9
      else if scancode = KEY_BACKSPACE then Some 8
      else if scancode = KEY_ENTER then Some 10
      else if scancode = KEY_DELETE then Some 0x7F
      else if scancode = KEY_UP then Some SPECIAL_KEY_UP
      else if scancode = KEY_DOWN then Some SPECIAL_KEY_DOWN
      else if scancode = KEY_LEFT then Some SPECIAL_KEY_LEFT
      else if scancode = KEY_RIGHT then Some SPECIAL_KEY_RIGHT
      else if scancode = KEY_ESCAPE then Some 27
      else None)"

definition process_scancode :: "u8 \<Rightarrow> keyboard \<Rightarrow> cchar \<times> keyboard" where
  "process_scancode scancode kb =
     (if scancode AND 0x80 \<noteq> 0 then
        let scancode = scancode AND 0x7F
        in (0, if scancode = KEY_LSHIFT \<or> scancode = KEY_RSHIFT then kb\<lparr>shift_pressed := False\<rparr>
               else if scancode = KEY_LCTRL then kb\<lparr>ctrl_pressed := False\<rparr> else kb)
      else if scancode = KEY_LSHIFT \<or> scancode = KEY_RSHIFT then (0, kb\<lparr>shift_pressed := True\<rparr>)
      else if scancode = KEY_LCTRL then (0, kb\<lparr>ctrl_pressed := True\<rparr>)
      else case special_key scancode of
        Some key \<Rightarrow> (key, kb)
      | None \<Rightarrow>
          if scancode < 128 then
            let key = (if shift_pressed kb then keyboard_shift_map ! unat scancode
                       else keyboard_map ! unat scancode)
            in if ctrl_pressed kb \<and> sint (97 :: cchar) \<le> sint key \<and> sint key \<le> sint (122 :: cchar)
               then (key - 97 + 1, kb) else (key, kb)
          else (0, kb))"

definition keyboard_handler :: "keyboard \<Rightarrow> 'p ports_scheme \<Rightarrow> keyboard \<times> 'p ports_scheme" where
  "keyboard_handler kb p =
     (let (status, p) = inb KEYBOARD_STATUS_PORT p
      in if status AND 1 = 0 then (kb, p)
         else let (scancode, p) = inb KEYBOARD_DATA_PORT p;
                  (key, kb) = process_scancode scancode kb
              in (if key \<noteq> 0 then kb\<lparr>last_key := key, key_available := True\<rparr> else kb, p))"

text \<open>
  One round of the loop of \<open>keyboard_getchar\<close>, with the key it returns, if any. The
  delay between two rounds has no effect on the state.
\<close>

definition keyboard_poll ::
  "keyboard \<Rightarrow> 'p ports_scheme \<Rightarrow> cchar option \<times> keyboard \<times> 'p ports_scheme" where
  "keyboard_poll kb p =
     (let (status, p) = inb KEYBOARD_STATUS_PORT p;
          (key, kb, p) =
            (if status AND 1 \<noteq> 0 then
               let (scancode, p) = inb KEYBOARD_DATA_PORT p;
                   (key, kb) = process_scancode scancode kb
               in (key, kb, p)
             else (0, kb, p))
      in if key \<noteq> 0 then (Some key, kb, p)
         else if key_available kb then (Some (last_key kb), kb\<lparr>key_available := False\<rparr>, p)
         else (None, kb, p))"

text \<open>The loop itself; it does not return, \<open>None\<close>, if no round ever yields a key.\<close>

partial_function (option) keyboard_getchar ::
  "keyboard \<Rightarrow> 'p ports_scheme \<Rightarrow> (cchar \<times> keyboard \<times> 'p ports_scheme) option" where
  "keyboard_getchar kb p =
     (case keyboard_poll kb p of
        (Some key, kb, p) \<Rightarrow> Some (key, kb, p)
      | (None, kb, p) \<Rightarrow> keyboard_getchar kb p)"

definition keyboard_key_pressed :: "keyboard \<Rightarrow> bool" where
  "keyboard_key_pressed kb = key_available kb"

section \<open>Scancode sequences\<close>

text \<open>The characters that a sequence of scancodes types, and the state it leaves.\<close>

primrec type_codes :: "u8 list \<Rightarrow> keyboard \<Rightarrow> cchar list \<times> keyboard" where
  "type_codes [] kb = ([], kb)"
| "type_codes (c # cs) kb =
     (let (key, kb) = process_scancode c kb; (keys, kb) = type_codes cs kb
      in (if key \<noteq> 0 then key # keys else keys, kb))"

definition shift_event :: "u8 \<Rightarrow> bool" where
  "shift_event c \<longleftrightarrow> c AND 0x7F = KEY_LSHIFT \<or> c AND 0x7F = KEY_RSHIFT"

definition ctrl_event :: "u8 \<Rightarrow> bool" where
  "ctrl_event c \<longleftrightarrow> c AND 0x7F = KEY_LCTRL"

definition pressed :: "u8 \<Rightarrow> bool" where
  "pressed c \<longleftrightarrow> c AND 0x80 = 0"

text \<open>Whether a modifier is down: its last event in the sequence decides.\<close>

definition held :: "(u8 \<Rightarrow> bool) \<Rightarrow> u8 list \<Rightarrow> bool \<Rightarrow> bool" where
  "held event cs before = (case find event (rev cs) of None \<Rightarrow> before | Some c \<Rightarrow> pressed c)"

lemma held_simps [simp]:
  "held event [] b = b"
  "held event (c # cs) b = held event cs (if event c then pressed c else b)"
proof -
  have "find P (xs @ ys) = (case find P xs of None \<Rightarrow> find P ys | Some x \<Rightarrow> Some x)"
    for P and xs ys :: "u8 list"
    by (induction xs) auto
  then show "held event (c # cs) b = held event cs (if event c then pressed c else b)"
    by (simp add: held_def split: option.split)
qed (simp add: held_def)

lemma low_bits: "c AND 0x80 = 0 \<Longrightarrow> c AND 0x7F = (c :: u8)"
proof -
  assume "c AND 0x80 = 0"
  moreover have "c AND 0x80 OR c AND 0x7F = c"
  proof -
    have "(0x80 OR 0x7F :: u8) = mask 8" by (simp add: mask_eq_exp_minus_1)
    then have "c AND (0x80 OR 0x7F) = take_bit 8 c" by (simp only: take_bit_eq_mask)
    moreover have "take_bit 8 c = c" using take_bit_length_eq [of c] by simp
    ultimately show ?thesis by (simp only: bit.conj_disj_distrib)
  qed
  ultimately show ?thesis by simp
qed

lemma process_scancode_state:
  "snd (process_scancode c kb) = kb\<lparr>
     shift_pressed := (if shift_event c then pressed c else shift_pressed kb),
     ctrl_pressed := (if ctrl_event c then pressed c else ctrl_pressed kb)\<rparr>"
  using low_bits [of c]
  by (auto simp: process_scancode_def shift_event_def ctrl_event_def pressed_def Let_def
      split: option.split)

lemma pressed_iff: "pressed c \<longleftrightarrow> unat c < 128"
proof -
  have c: "unat c < 256" using unsigned_less [where 'a = nat, of c] by simp
  have "c AND 0x80 = 0 \<longleftrightarrow> \<not> bit c 7"
    using and_exp_eq_0_iff_not_bit [of c 7] by simp
  also have "\<dots> \<longleftrightarrow> \<not> odd (unat c div 2 ^ 7)"
    using bit_unsigned_iff [where 'a = nat, of c 7] by (simp add: bit_iff_odd [of "unat c"])
  also have "\<dots> \<longleftrightarrow> unat c < 128"
  proof -
    have "unat c div 128 = 0 \<or> unat c div 128 = 1" using c by linarith
    then show ?thesis using c by (auto simp: div_eq_0_iff)
  qed
  finally show ?thesis by (simp add: pressed_def)
qed

text \<open>The two tables side by side, on the letters.\<close>

lemma letter_tables:
  "list_all (\<lambda>(k, s). k \<le> 96 \<or> s = k - 32 \<or> 122 < k) (zip keyboard_map keyboard_shift_map)"
  by code_simp

lemma sint_ascii: "unat (k :: u8) < 128 \<Longrightarrow> sint k = int (unat k)"
proof -
  assume "unat k < 128"
  then have "nat (uint k) < 128" by simp
  then have "uint k < 128" by linarith
  moreover have "- 128 \<le> uint k" using uint_ge_0 [of k] by linarith
  moreover have "sint k = signed_take_bit 7 (uint k)" by (simp add: sint_uint)
  ultimately have "sint k = uint k" using signed_take_bit_int_eq_self [of 7 "uint k"] by simp
  then show ?thesis by simp
qed

section \<open>Properties of the translation\<close>

text \<open>Shift and Ctrl act on letters as they should: a key that types a lower-case letter on
  its own types the upper-case letter with Shift, and with Ctrl alone the control code 1 to 26
  of that letter.\<close>

theorem letters_shift_ctrl:
  assumes "\<not> shift_pressed kb" and "\<not> ctrl_pressed kb"
    and "fst (process_scancode c kb) = k" and "97 \<le> unat k" and "unat k \<le> 122"
  shows "fst (process_scancode c (kb\<lparr>shift_pressed := True\<rparr>)) = k - 32
    \<and> fst (process_scancode c (kb\<lparr>ctrl_pressed := True\<rparr>)) = k - 96"
proof -
  have plain: "c AND 0x80 = 0" "c \<noteq> 0x2A" "c \<noteq> 0x36" "c \<noteq> 0x1D" "special_key c = None" "c < 128"
      and k: "k = keyboard_map ! unat c"
    using assms
    by (auto simp: process_scancode_def special_key_def Let_def split: if_splits option.splits)
  have "unat c < length keyboard_map" "unat c < length keyboard_shift_map"
    using plain(6) by (simp_all add: keyboard_map_def keyboard_shift_map_def word_less_nat_alt)
  then have "(k, keyboard_shift_map ! unat c) \<in> set (zip keyboard_map keyboard_shift_map)"
    unfolding k set_zip by auto
  then have "k \<le> 96 \<or> keyboard_shift_map ! unat c = k - 32 \<or> 122 < k"
    using letter_tables by (auto simp: list_all_iff)
  then have "keyboard_shift_map ! unat c = k - 32"
    using assms(4,5) by (auto simp: word_le_nat_alt word_less_nat_alt)
  moreover have "sint k = int (unat k)" using assms(5) by (intro sint_ascii) simp
  then have "97 \<le> sint k" "sint k \<le> 122" using assms(4,5) by linarith+
  ultimately show ?thesis
    using plain assms(1,2) by (simp add: process_scancode_def Let_def flip: k)
qed

theorem letters_shift_ctrl_witness:
  "fst (process_scancode 0x2E keyboard_start) = 99
   \<and> fst (process_scancode 0x2E (keyboard_start\<lparr>ctrl_pressed := True\<rparr>)) = 3"
proof -
  have c: "fst (process_scancode 0x2E keyboard_start) = 99" by code_simp
  then show ?thesis
    using letters_shift_ctrl [of keyboard_start "0x2E" 99] by (simp add: keyboard_start_def)
qed

text \<open>C30: Whatever is typed, the driver regards Shift (and Ctrl) as down exactly when the last
  event of such a key was a press.\<close>

theorem modifiers_follow_last_event:
  "shift_pressed (snd (type_codes cs kb)) = held shift_event cs (shift_pressed kb)
   \<and> ctrl_pressed (snd (type_codes cs kb)) = held ctrl_event cs (ctrl_pressed kb)"
proof (induction cs arbitrary: kb)
  case Nil
  then show ?case by simp
next
  case (Cons c cs)
  obtain key kb1 where 1: "process_scancode c kb = (key, kb1)" by fastforce
  have kb1: "kb1 = kb\<lparr>
     shift_pressed := (if shift_event c then pressed c else shift_pressed kb),
     ctrl_pressed := (if ctrl_event c then pressed c else ctrl_pressed kb)\<rparr>"
    using process_scancode_state [of c kb] by (simp add: 1)
  obtain keys kb2 where 2: "type_codes cs kb1 = (keys, kb2)" by fastforce
  have "snd (type_codes (c # cs) kb) = kb2" by (simp add: 1 2)
  moreover have "shift_pressed kb2 = held shift_event cs (shift_pressed kb1)
      \<and> ctrl_pressed kb2 = held ctrl_event cs (ctrl_pressed kb1)"
    using Cons.IH [of kb1] by (simp only: 2 snd_conv)
  moreover have "shift_pressed kb1 = (if shift_event c then pressed c else shift_pressed kb)"
      "ctrl_pressed kb1 = (if ctrl_event c then pressed c else ctrl_pressed kb)"
    by (simp_all add: kb1)
  ultimately show ?case by simp
qed

text \<open>The keypad row of the table is one entry off: the keypad's minus and plus keys type
  nothing, and the End key types a plus sign.\<close>

theorem keypad_row_shifted:
  assumes "\<not> shift_pressed kb"
  shows "process_scancode 0x4A kb = (0, kb) \<and> process_scancode 0x4E kb = (0, kb)
    \<and> process_scancode 0x4F kb = (43, kb)"
  using assms
  by (simp add: process_scancode_def special_key_def keyboard_map_def Let_def)

theorem keypad_row_shifted_witness:
  "fst (process_scancode 0x4F keyboard_start) = 43"
  using keypad_row_shifted [of keyboard_start] by (simp add: keyboard_start_def)

section \<open>Polling\<close>

lemma inb_shift:
  "port_in p port = x ## xs \<Longrightarrow> inb port p = (x, p\<lparr>port_in := (port_in p)(port := xs)\<rparr>)"
  by (simp add: inb_def)

lemma getchar_found:
  "keyboard_poll kb p = (Some key, kb', p') \<Longrightarrow> keyboard_getchar kb p = Some (key, kb', p')"
  by (subst keyboard_getchar.simps) simp

lemma getchar_again:
  "keyboard_poll kb p = (None, kb', p') \<Longrightarrow> keyboard_getchar kb p = keyboard_getchar kb' p'"
  by (subst keyboard_getchar.simps) simp

definition ready :: "u8 \<Rightarrow> bool" where
  "ready s \<longleftrightarrow> s AND 1 \<noteq> 0"

text \<open>The ports after the controller's status and data streams have moved on.\<close>

definition feed :: "u8 stream \<Rightarrow> u8 stream \<Rightarrow> 'p ports_scheme \<Rightarrow> 'p ports_scheme" where
  "feed status codes p = p\<lparr>port_in := (port_in p)(0x64 := status, 0x60 := codes)\<rparr>"

lemma feed_simps [simp]:
  "port_in (feed s d p) 0x64 = s" "port_in (feed s d p) 0x60 = d" "feed s d (feed s' d' p) = feed s d p"
  by (simp_all add: feed_def fun_upd_twist)

lemma poll_not_ready:
  assumes "\<not> key_available kb" and "port_in p 0x64 = s ## ss" and "\<not> ready s"
  shows "keyboard_poll kb p = (None, kb, feed ss (port_in p 0x60) p)"
proof -
  have "(port_in p)(0x64 := ss, 0x60 := port_in p 0x60) = (port_in p)(0x64 := ss)" by auto
  then show ?thesis
    using assms by (simp add: keyboard_poll_def inb_def ready_def feed_def)
qed

lemma scancode_keeps_available:
  assumes "process_scancode c kb = (key, kb')"
  shows "key_available kb' = key_available kb"
proof -
  have "kb' = snd (process_scancode c kb)" by (simp add: assms)
  then show ?thesis by (simp add: process_scancode_state)
qed

lemma poll_ready:
  assumes "\<not> key_available kb" and "port_in p 0x64 = s ## ss" and "ready s"
    and "port_in p 0x60 = c ## cs" and "process_scancode c kb = (key, kb')"
  shows "keyboard_poll kb p = (if key \<noteq> 0 then Some key else None, kb', feed ss cs p)"
  using assms scancode_keeps_available [OF assms(5)]
  by (simp add: keyboard_poll_def inb_def ready_def feed_def)

lemma getchar_ready:
  assumes "\<not> key_available kb" and "port_in p 0x64 = s ## ss" and "ready s"
    and "port_in p 0x60 = c ## cs" and "process_scancode c kb = (key, kb')" and "key \<noteq> 0"
  shows "keyboard_getchar kb p = Some (key, kb', feed ss cs p)"
  using poll_ready [OF assms(1-5)] assms(6) by (intro getchar_found) simp

text \<open>C31: \<open>keyboard_getchar\<close> returns as soon as the controller has delivered a scancode that
  types a key, with that key, having consumed exactly the scancodes up to it and one status
  byte for each round; scancodes before it that type nothing only change the modifiers.\<close>

theorem getchar_first_key:
  assumes "\<not> key_available kb" and "type_codes cs kb = ([], kb1)"
    and "process_scancode c kb1 = (key, kb2)" and "key \<noteq> 0"
    and "port_in p 0x64 = ss @- status" and "port_in p 0x60 = (cs @ [c]) @- codes"
    and "length (filter ready ss) = Suc (length cs)" and "ready (last ss)"
  shows "keyboard_getchar kb p = Some (key, kb2, feed status codes p)"
  using assms
proof (induction ss arbitrary: kb cs p)
  case Nil
  then show ?case by simp
next
  case (Cons s ss)
  note prems = Cons.prems and IH = Cons.IH
  show ?case
  proof (cases "ready s")
    case False
    then have ne: "ss \<noteq> []" using prems(7) by auto
    have "keyboard_getchar kb p = keyboard_getchar kb (feed (ss @- status) (port_in p 0x60) p)"
      using prems(1,5) False by (intro getchar_again poll_not_ready) simp_all
    then show ?thesis
      using Cons.IH [of kb cs "feed (ss @- status) (port_in p 0x60) p"] prems False ne by simp
  next
    case True
    show ?thesis
    proof (cases cs)
      case Nil
      have "ss = []"
      proof (rule ccontr)
        assume "ss \<noteq> []"
        then have "last ss \<in> set (filter ready ss)" using prems(8) by simp
        then show False using prems(7) True Nil by (auto simp: filter_empty_conv)
      qed
      have "keyboard_poll kb p = (if key \<noteq> 0 then Some key else None, kb2, feed status codes p)"
        by (rule poll_ready [OF prems(1)])
          (use prems True in \<open>simp_all add: \<open>ss = []\<close> Nil\<close>)
      then show ?thesis using prems(4) by (intro getchar_found) simp
    next
      case (Cons d ds)
      obtain kb' where d: "process_scancode d kb = (0, kb')" and ds: "type_codes ds kb' = ([], kb1)"
        using prems(2) by (auto simp: Cons split: prod.splits if_splits)
      have ne: "ss \<noteq> []" using prems(7) True by (auto simp: Cons)
      then have last: "ready (last ss)" using prems(8) by simp
      let ?p = "feed (ss @- status) ((ds @ [c]) @- codes) p"
      have "keyboard_poll kb p = (if (0 :: cchar) \<noteq> 0 then Some 0 else None, kb', ?p)"
        by (rule poll_ready [where s = s and c = d])
          (use prems(1,5,6) True d in \<open>simp_all add: Cons\<close>)
      then have "keyboard_getchar kb p = keyboard_getchar kb' ?p"
        by (intro getchar_again) simp
      also have "\<dots> = Some (key, kb2, feed status codes ?p)"
        by (rule IH [OF _ ds prems(3,4)])
          (use prems(1,5-7) scancode_keeps_available [OF d] True last in \<open>simp_all add: Cons\<close>)
      finally show ?thesis by simp
    qed
  qed
qed

text \<open>A shifted letter, with idle rounds between the scancodes.\<close>

theorem getchar_first_key_witness:
  "\<exists>kb. keyboard_getchar keyboard_start
      (feed ([0, 1, 0, 0, 1] @- sconst 0) ([0x2A, 0x1E] @- sconst 0)
         \<lparr>port_out = [], port_in = \<lambda>_. sconst 0\<rparr>)
    = Some (65, kb, feed (sconst 0) (sconst 0) \<lparr>port_out = [], port_in = \<lambda>_. sconst 0\<rparr>)"
proof -
  let ?kb = "keyboard_start\<lparr>shift_pressed := True\<rparr>"
  let ?p = "feed ([0, 1, 0, 0, 1] @- sconst 0) ([0x2A, 0x1E] @- sconst 0)
    \<lparr>port_out = [], port_in = \<lambda>_. sconst 0\<rparr>"
  have shift: "process_scancode 0x2A keyboard_start = (0, ?kb)"
    by (simp add: process_scancode_def keyboard_start_def)
  have key: "process_scancode 0x1E ?kb = (65, ?kb)"
    by (simp add: process_scancode_def keyboard_start_def special_key_def keyboard_shift_map_def Let_def)
  have "keyboard_getchar keyboard_start ?p = Some (65, ?kb, feed (sconst 0) (sconst 0) ?p)"
  proof (rule getchar_first_key [where cs = "[0x2A]" and ss = "[0, 1, 0, 0, 1]"])
    show "type_codes [0x2A] keyboard_start = ([], ?kb)" using shift by simp
    show "process_scancode 0x1E ?kb = (65, ?kb)" by (rule key)
  qed (simp_all add: keyboard_start_def ready_def)
  then show ?thesis by simp
qed

text \<open>A key that the interrupt handler stored is returned once: with nothing from the
  controller in between, \<open>keyboard_getchar\<close> hands out the stored key and marks the one-key
  buffer empty; a second key stored before that replaces the first.\<close>

theorem stored_key_returned_once:
  assumes "process_scancode c kb = (key, kb1)" and "key \<noteq> 0"
    and "port_in p 0x64 = s ## s' ## ss" and "ready s" and "\<not> ready s'"
    and "port_in p 0x60 = c ## codes"
  shows "(case keyboard_handler kb p of (kb', p') \<Rightarrow> keyboard_getchar kb' p')
    = Some (key, kb1\<lparr>last_key := key, key_available := False\<rparr>, feed ss codes p)"
proof -
  let ?kb = "kb1\<lparr>last_key := key, key_available := True\<rparr>"
  have h: "keyboard_handler kb p = (?kb, feed (s' ## ss) codes p)"
    using assms by (simp add: keyboard_handler_def inb_def ready_def feed_def)
  have "keyboard_poll ?kb (feed (s' ## ss) codes p)
      = (Some key, ?kb\<lparr>key_available := False\<rparr>, feed ss codes p)"
    using assms(5) by (simp add: keyboard_poll_def inb_def ready_def feed_def fun_upd_twist)
  then show ?thesis unfolding h by (simp add: getchar_found)
qed

theorem stored_key_returned_once_witness:
  "(case keyboard_handler keyboard_start
       (feed (1 ## 0 ## sconst 0) (0x1E ## sconst 0) \<lparr>port_out = [], port_in = \<lambda>_. sconst 0\<rparr>)
     of (kb', p') \<Rightarrow> map_option fst (keyboard_getchar kb' p')) = Some 97"
proof -
  have "process_scancode 0x1E keyboard_start = (97, keyboard_start)"
    by (simp add: process_scancode_def keyboard_start_def special_key_def keyboard_map_def Let_def)
  then show ?thesis
    using stored_key_returned_once [of "0x1E" keyboard_start 97 keyboard_start
        "feed (1 ## 0 ## sconst 0) (0x1E ## sconst 0) \<lparr>port_out = [], port_in = \<lambda>_. sconst 0\<rparr>"
        1 0 "sconst 0" "sconst 0"]
    by (simp add: ready_def split: prod.splits)
qed

end
