(* ===== verification/Timer_Driver.thy ===== *)
theory Timer_Driver imports Port_IO Number_Text begin

text \<open>
  The interval timer, src/drivers/timer/timer.c, apart from its waiting loop: programming
  the divisor, the tick counter and its interrupt handler. The loops that halt the processor
  are in the theory on interrupts.
\<close>

unbundle bit_operations_syntax

section \<open>State and operations\<close>

abbreviation PIT_FREQUENCY :: u32 where "PIT_FREQUENCY \<equiv> 1193180"
abbreviation TIMER_COMMAND :: u16 where "TIMER_COMMAND \<equiv> 0x43"
abbreviation TIMER_DATA :: u16 where "TIMER_DATA \<equiv> 0x40"
abbreviation TIMER_MODE_RATE_GENERATOR :: u8 where "TIMER_MODE_RATE_GENERATOR \<equiv> 0x34"

record timer =
  timer_ticks :: u32

definition timer_start :: timer where
  "timer_start = \<lparr>timer_ticks = 0\<rparr>"

text \<open>The division is undefined for the frequency 0.\<close>

definition timer_init ::
  "u32 \<Rightarrow> timer \<Rightarrow> 'p ports_scheme \<Rightarrow> fault + (timer \<times> 'p ports_scheme)" where
  "timer_init frequency t p =
     (if frequency = 0 then Inl Divide_Error
      else let divisor = PIT_FREQUENCY div frequency;
               p = outb TIMER_COMMAND TIMER_MODE_RATE_GENERATOR p;
               p = outb TIMER_DATA (ucast (divisor AND 0xFF)) p;
               p = outb TIMER_DATA (ucast (drop_bit 8 divisor AND 0xFF)) p;
               t = t\<lparr>timer_ticks := 0\<rparr>;
               (mask, p) = inb 0x21 p;
               mask = mask AND NOT 0x01
           in Inr (t, outb 0x21 mask p))"

definition timer_handler :: "timer \<Rightarrow> timer" where
  "timer_handler t = t\<lparr>timer_ticks := timer_ticks t + 1\<rparr>"

definition timer_get_ticks :: "timer \<Rightarrow> u32" where
  "timer_get_ticks t = timer_ticks t"

section \<open>Properties\<close>

lemma split_low_u16:
  "unat (ucast (drop_bit 8 p AND 0xFF) :: u8) * 256 + unat (ucast (p AND 0xFF) :: u8)
     = unat (p :: u32) mod 65536"
proof -
  have "unat (drop_bit 8 p) = unat p div 256"
    by (simp add: drop_bit_eq_div unat_div)
  then have "unat (ucast (drop_bit 8 p AND 0xFF) :: u8) = unat p div 256 mod 256"
    by (simp only: unat_byte)
  moreover have "unat p mod 65536 = unat p div 256 mod 256 * 256 + unat p mod 256"
    using mod_mult2_eq [of "unat p" 256 256] by (simp add: mult.commute)
  ultimately show ?thesis by (simp only: unat_byte)
qed

text \<open>C38: \<open>timer_init\<close> selects the rate generator and sends the divisor of the requested
  frequency, low byte first; the two bytes carry it modulo \<open>2\<^sup>16\<close>, so they carry all of it
  exactly from 19 Hz on. It resets the ticks and enables the timer's interrupt line without
  touching another one. The frequency 0 divides by zero.\<close>

theorem timer_init_programs:
  "timer_init 0 t p = Inl Divide_Error
   \<and> (f \<noteq> 0 \<longrightarrow> (\<exists>lo hi mask p'. timer_init f t p = Inr (t\<lparr>timer_ticks := 0\<rparr>, p')
        \<and> port_out p' = port_out p @ [(0x43, 0x34), (0x40, lo), (0x40, hi), (0x21, mask)]
        \<and> unat hi * 256 + unat lo = 1193180 div unat f mod 65536
        \<and> (19 \<le> unat f \<longrightarrow> unat hi * 256 + unat lo = 1193180 div unat f)
        \<and> (\<forall>n. bit mask n \<longleftrightarrow> bit (shd (port_in p 0x21)) n \<and> n \<noteq> 0)))"
proof (intro conjI impI)
  show "timer_init 0 t p = Inl Divide_Error" by (simp add: timer_init_def)
  assume f: "f \<noteq> 0"
  let ?d = "PIT_FREQUENCY div f" and ?m = "shd (port_in p 0x21) AND NOT 0x01"
  let ?p = "outb 0x21 ?m (snd (inb 0x21 (outb 0x40 (ucast (drop_bit 8 ?d AND 0xFF))
      (outb 0x40 (ucast (?d AND 0xFF)) (outb 0x43 0x34 p)))))"
  have run: "timer_init f t p = Inr (t\<lparr>timer_ticks := 0\<rparr>, ?p)"
    using f by (simp add: timer_init_def Let_def inb_def)
  have d: "unat ?d = 1193180 div unat f" by (simp add: unat_div)
  have small: "1193180 div unat f mod 65536 = 1193180 div unat f" if "19 \<le> unat f"
  proof -
    have "1193180 div unat f \<le> 1193180 div 19" using that by (intro div_le_mono2) simp_all
    then show ?thesis by simp
  qed
  have "\<forall>n. bit ?m n \<longleftrightarrow> bit (shd (port_in p 0x21)) n \<and> n \<noteq> 0"
    by (auto simp: bit_and_iff bit_not_iff bit_1_iff dest: bit_imp_le_length)
  then show "\<exists>lo hi mask p'. timer_init f t p = Inr (t\<lparr>timer_ticks := 0\<rparr>, p')
        \<and> port_out p' = port_out p @ [(0x43, 0x34), (0x40, lo), (0x40, hi), (0x21, mask)]
        \<and> unat hi * 256 + unat lo = 1193180 div unat f mod 65536
        \<and> (19 \<le> unat f \<longrightarrow> unat hi * 256 + unat lo = 1193180 div unat f)
        \<and> (\<forall>n. bit mask n \<longleftrightarrow> bit (shd (port_in p 0x21)) n \<and> n \<noteq> 0)"
    using run split_low_u16 [of ?d] small
    by (intro exI [of _ "ucast (?d AND 0xFF)"] exI [of _ "ucast (drop_bit 8 ?d AND 0xFF)"]
        exI [of _ ?m] exI [of _ ?p]) (simp add: d)
qed

theorem timer_init_programs_witness:
  "\<exists>lo hi mask p'. timer_init 100 timer_start \<lparr>port_out = [], port_in = \<lambda>_. sconst 0xFF\<rparr> = Inr (timer_start, p')
     \<and> port_out p' = [(0x43, 0x34), (0x40, lo), (0x40, hi), (0x21, mask)]
     \<and> unat hi * 256 + unat lo = 11931"
  using timer_init_programs [of timer_start "\<lparr>port_out = [], port_in = \<lambda>_. sconst 0xFF\<rparr>" 100]
  by (auto simp: timer_start_def)

end
