(* ===== verification/Interrupt_Table.thy ===== *)
theory Interrupt_Table imports Port_IO begin

text \<open>
  The interrupt descriptor table and the programming of the two interrupt controllers,
  src/kernel/idt.c and src/include/idt.h.
\<close>

unbundle bit_operations_syntax

section \<open>State and operations\<close>

record idt_entry =
  base_low :: u16
  selector :: u16
  always0 :: u8
  flags :: u8
  base_high :: u16

record idt_ptr =
  idtr_limit :: u16
  idtr_base :: u32

text \<open>
  The table has one entry for each value of the index type, so an index is never out of
  range. \<open>idt_loaded\<close> is the register that \<open>lidt\<close> sets.
\<close>

record idt =
  idt_entries :: "u8 \<Rightarrow> idt_entry"
  idt_loaded :: "idt_ptr option"

definition idt_set_gate :: "u8 \<Rightarrow> u32 \<Rightarrow> u16 \<Rightarrow> u8 \<Rightarrow> idt \<Rightarrow> idt" where
  "idt_set_gate num base sel fl d =
     d\<lparr>idt_entries := (idt_entries d)(num :=
        \<lparr>base_low = ucast (base AND 0xFFFF), selector = sel, always0 = 0, flags = fl,
         base_high = ucast (drop_bit 16 base AND 0xFFFF)\<rparr>)\<rparr>"

text \<open>The static table before \<open>idt_init\<close>: all zero.\<close>

definition idt_start :: idt where
  "idt_start = \<lparr>idt_entries = (\<lambda>_. \<lparr>base_low = 0, selector = 0, always0 = 0, flags = 0, base_high = 0\<rparr>),
     idt_loaded = None\<rparr>"

text \<open>The commands sent to the interrupt controllers, in order.\<close>

definition pic_commands :: "(u16 \<times> u8) list" where
  "pic_commands =
     [(0x20, 0x11), (0xA0, 0x11), (0x21, 0x20), (0xA1, 0x28), (0x21, 0x04), (0xA1, 0x02),
      (0x21, 0x01), (0xA1, 0x01), (0x21, 0xFC), (0xA1, 0xFF)]"

text \<open>
  The addresses of the table and of the two assembly handlers are given by the linker:
  \<open>table\<close>, \<open>irq0\<close> and \<open>irq1\<close>.
\<close>

definition idt_init ::
  "u32 \<Rightarrow> u32 \<Rightarrow> u32 \<Rightarrow> idt \<Rightarrow> 'p ports_scheme \<Rightarrow> idt \<times> 'p ports_scheme" where
  "idt_init table irq0 irq1 d p =
     (let d = fold (\<lambda>i d. idt_set_gate (of_nat i) 0 0 0 d) [0..<256] d;
          d = idt_set_gate 32 irq0 0x08 0x8E d;
          d = idt_set_gate 33 irq1 0x08 0x8E d;
          d = d\<lparr>idt_loaded := Some \<lparr>idtr_limit = 8 * 256 - 1, idtr_base = table\<rparr>\<rparr>
      in (d, fold (\<lambda>(port, data) p. outb port data p) pic_commands p))"

text \<open>The handler address an entry holds.\<close>

definition gate_base :: "idt_entry \<Rightarrow> u32" where
  "gate_base e = push_bit 16 (ucast (base_high e)) OR ucast (base_low e)"

section \<open>Properties\<close>

lemma gate_base_split:
  "push_bit 16 (ucast (ucast (drop_bit 16 b AND 0xFFFF) :: u16)) OR ucast (ucast (b AND 0xFFFF) :: u16)
     = (b :: u32)"
proof (rule bit_word_eqI)
  fix n assume "n < LENGTH(32)"
  have m: "(0xFFFF :: u32) = mask 16" by (simp add: mask_eq_exp_minus_1)
  show "bit (push_bit 16 (ucast (ucast (drop_bit 16 b AND 0xFFFF) :: u16))
      OR ucast (ucast (b AND 0xFFFF) :: u16) :: u32) n = bit b n"
    using \<open>n < LENGTH(32)\<close> unfolding m
    by (auto simp: bit_simps)
qed

lemma idt_entries_cleared:
  "idt_entries (fold (\<lambda>i d. idt_set_gate (of_nat i) b s f d) [0..<256] d) num
     = idt_entries (idt_set_gate num b s f d) num"
proof -
  have "idt_entries (fold (\<lambda>i d. idt_set_gate (of_nat i) b s f d) xs d) =
      fold (\<lambda>i g. g(of_nat i := idt_entries (idt_set_gate 0 b s f d) 0)) xs (idt_entries d)" for xs
    by (induction xs arbitrary: d) (simp_all add: idt_set_gate_def)
  moreover have "num \<in> of_nat ` set [0..<256]"
  proof
    show "num = of_nat (unat num)" by simp
    show "unat num \<in> set [0..<256]" using unsigned_less [where 'a = nat, of num] by simp
  qed
  ultimately show ?thesis
    by (simp only: fold_fun_upd_const) (simp add: idt_set_gate_def)
qed

lemma outb_fold:
  "port_out (fold (\<lambda>(port, data) p. outb port data p) xs p) = port_out p @ xs"
  by (induction xs arbitrary: p) auto

lemma idt_init_effect:
  "\<exists>d' p'. idt_init table irq0 irq1 d p = (d', p')
     \<and> gate_base (idt_entries d' 32) = irq0 \<and> gate_base (idt_entries d' 33) = irq1
     \<and> (\<forall>n \<in> {32, 33}. selector (idt_entries d' n) = 0x08 \<and> flags (idt_entries d' n) = 0x8E)
     \<and> (\<forall>n. n \<noteq> 32 \<longrightarrow> n \<noteq> 33 \<longrightarrow> gate_base (idt_entries d' n) = 0 \<and> flags (idt_entries d' n) = 0)
     \<and> idt_loaded d' = Some \<lparr>idtr_limit = 2047, idtr_base = table\<rparr>
     \<and> port_out p' = port_out p @ pic_commands"
proof -
  obtain d' p' where run: "idt_init table irq0 irq1 d p = (d', p')" by fastforce
  define d0 where "d0 = fold (\<lambda>i d. idt_set_gate (of_nat i) 0 0 0 d) [0..<256] d"
  have "d' = (idt_set_gate 33 irq1 0x08 0x8E (idt_set_gate 32 irq0 0x08 0x8E d0))
      \<lparr>idt_loaded := Some \<lparr>idtr_limit = 2047, idtr_base = table\<rparr>\<rparr>"
    and "p' = fold (\<lambda>(port, data) p. outb port data p) pic_commands p"
    using run by (simp_all add: idt_init_def Let_def d0_def)
  moreover have "idt_entries d0 n = idt_entries (idt_set_gate n 0 0 0 d) n" for n
    unfolding d0_def by (rule idt_entries_cleared)
  ultimately show ?thesis
    using run by (simp add: gate_base_def gate_base_split outb_fold idt_set_gate_def)
qed

text \<open>The masks sent last, line by line.\<close>

lemma pic_masks:
  "\<forall>n < 8. bit (0xFC :: u8) n \<longleftrightarrow> n \<notin> {0, 1}" "\<forall>n < 8. bit (0xFF :: u8) n"
proof -
  have "list_all (\<lambda>n. bit (0xFC :: u8) n = (n \<notin> {0, 1}) \<and> bit (0xFF :: u8) n) [0..<8]" by code_simp
  then show "\<forall>n < 8. bit (0xFC :: u8) n \<longleftrightarrow> n \<notin> {0, 1}" "\<forall>n < 8. bit (0xFF :: u8) n"
    by (simp_all add: list_all_iff)
qed

text \<open>C39: \<open>idt_init\<close> installs the timer handler at vector 32 and the keyboard handler at
  vector 33 as present 32-bit interrupt gates of the code segment, leaves every other gate
  empty, loads the table with its full size, and sends the two controllers, in this order, the
  initialisation word, their first vectors 32 and 40, their cascade line, the mode word, and a
  mask: that of the first has exactly the bits of lines 0 (timer) and 1 (keyboard) clear, which
  enables these, and that of the second none.\<close>

theorem idt_init_gates:
  "\<exists>d' p' m1 m2. idt_init table irq0 irq1 d p = (d', p')
     \<and> gate_base (idt_entries d' 32) = irq0 \<and> gate_base (idt_entries d' 33) = irq1
     \<and> (\<forall>n \<in> {32, 33}. selector (idt_entries d' n) = 0x08 \<and> flags (idt_entries d' n) = 0x8E)
     \<and> (\<forall>n. n \<noteq> 32 \<longrightarrow> n \<noteq> 33 \<longrightarrow> gate_base (idt_entries d' n) = 0 \<and> flags (idt_entries d' n) = 0)
     \<and> idt_loaded d' = Some \<lparr>idtr_limit = 2047, idtr_base = table\<rparr>
     \<and> port_out p' = port_out p @
         [(0x20, 0x11), (0xA0, 0x11), (0x21, 32), (0xA1, 40), (0x21, 4), (0xA1, 2),
          (0x21, 1), (0xA1, 1), (0x21, m1), (0xA1, m2)]
     \<and> (\<forall>n < 8. \<not> bit m1 n \<longleftrightarrow> n = 0 \<or> n = 1) \<and> (\<forall>n < 8. bit m2 n)"
  using idt_init_effect [of table irq0 irq1 d p] pic_masks unfolding pic_commands_def by fastforce

theorem idt_init_gates_witness:
  "\<exists>d' p'. idt_init 0x5000 0x1000 0x2000 idt_start \<lparr>port_out = [], port_in = \<lambda>_. sconst 0\<rparr> = (d', p')
     \<and> gate_base (idt_entries d' 33) = 0x2000"
  using idt_init_gates [of "0x5000" "0x1000" "0x2000" idt_start "\<lparr>port_out = [], port_in = \<lambda>_. sconst 0\<rparr>"]
  by auto

end
