(* ===== verification/Interrupts.thy ===== *)
theory Interrupts imports Screen_Driver Keyboard_Driver Timer_Driver Interrupt_Table begin

text \<open>
  The interrupt entry points of src/arch/x86/timer_entry.s and keyboard_entry.s, the
  \<open>hlt\<close> instruction, and the waiting loops of src/drivers/timer/timer.c that rest on them.
\<close>

section \<open>The machine state\<close>

text \<open>
  The drivers' states side by side; the ports are part of \<open>scr\<close>. \<open>interrupt_flag\<close> is the
  processor's flag. \<open>irqs\<close> is when the hardware raises interrupts, a parameter of the model: one
  list for each moment at which the processor can take interrupts, of those it takes there.
\<close>

datatype irq = Irq_Timer | Irq_Keyboard

record machine =
  scr :: screen
  kbd :: keyboard
  tmr :: timer
  gates :: idt
  interrupt_flag :: bool
  irqs :: "irq list stream"

definition irq0_handler :: "'m machine_scheme \<Rightarrow> 'm machine_scheme" where
  "irq0_handler m = m\<lparr>tmr := timer_handler (tmr m), scr := outb 0x20 0x20 (scr m)\<rparr>"

definition irq1_handler :: "'m machine_scheme \<Rightarrow> 'm machine_scheme" where
  "irq1_handler m =
     (let (kb, s) = keyboard_handler (kbd m) (scr m) in m\<lparr>kbd := kb, scr := outb 0x20 0x20 s\<rparr>)"

fun handle_irq :: "irq \<Rightarrow> 'm machine_scheme \<Rightarrow> 'm machine_scheme" where
  "handle_irq Irq_Timer m = irq0_handler m"
| "handle_irq Irq_Keyboard m = irq1_handler m"

text \<open>
  A moment between two instructions: what is due is handled, unless interrupts are disabled.
\<close>

definition interrupt_point :: "'m machine_scheme \<Rightarrow> 'm machine_scheme" where
  "interrupt_point m =
     (if interrupt_flag m then fold handle_irq (shd (irqs m)) (m\<lparr>irqs := stl (irqs m)\<rparr>) else m)"

text \<open>
  \<open>hlt\<close> lets moments without interrupts pass and resumes after the first ones have been
  handled. With interrupts disabled, or if there are no more, it never resumes, which is \<open>None\<close>.
\<close>

partial_function (option) hlt :: "'m machine_scheme \<Rightarrow> 'm machine_scheme option" where
  "hlt m =
     (if interrupt_flag m
      then if shd (irqs m) = [] then hlt (m\<lparr>irqs := stl (irqs m)\<rparr>) else Some (interrupt_point m)
      else None)"

text \<open>
  The loop of \<open>timer_wait\<close>: interrupts can come in front of the load of the counter and between
  the test and the \<open>hlt\<close> that it leads to.
\<close>

partial_function (option) timer_wait_loop ::
  "u32 \<Rightarrow> u32 \<Rightarrow> 'm machine_scheme \<Rightarrow> 'm machine_scheme option" where
  "timer_wait_loop start_ticks ticks m0 =
     (let m = interrupt_point m0
      in if timer_ticks (tmr m) - start_ticks < ticks
         then case hlt (interrupt_point m) of None \<Rightarrow> None | Some m \<Rightarrow> timer_wait_loop start_ticks ticks m
         else Some m)"

definition timer_wait :: "u32 \<Rightarrow> 'm machine_scheme \<Rightarrow> 'm machine_scheme option" where
  "timer_wait ticks m = timer_wait_loop (timer_ticks (tmr m)) ticks m"

definition timer_sleep :: "u32 \<Rightarrow> 'm machine_scheme \<Rightarrow> 'm machine_scheme option" where
  "timer_sleep milliseconds m = (let ticks = milliseconds div 10 in timer_wait ticks m)"

section \<open>Handlers\<close>

lemma irq_handler_simps [simp]:
  "tmr (irq0_handler m) = timer_handler (tmr m)" "tmr (irq1_handler m) = tmr m"
  "interrupt_flag (irq0_handler m) = interrupt_flag m" "interrupt_flag (irq1_handler m) = interrupt_flag m"
  "irqs (irq0_handler m) = irqs m" "irqs (irq1_handler m) = irqs m"
  by (simp_all add: irq0_handler_def irq1_handler_def split: prod.split)

lemma keyboard_handler_port_out [simp]: "port_out (snd (keyboard_handler kb p)) = port_out p"
  by (simp add: keyboard_handler_def inb_def Let_def split: prod.split)

text \<open>Each handler acknowledges its interrupt and sends nothing else.\<close>

lemma irq_acknowledged:
  "port_out (scr (irq0_handler m)) = port_out (scr m) @ [(0x20, 0x20)]"
  "port_out (scr (irq1_handler m)) = port_out (scr m) @ [(0x20, 0x20)]"
  using keyboard_handler_port_out [of "kbd m" "scr m"]
  by (simp_all add: irq0_handler_def irq1_handler_def case_prod_unfold Let_def)

section \<open>Waiting\<close>

definition ticks_in :: "irq list \<Rightarrow> nat" where
  "ticks_in is = count_list is Irq_Timer"

lemma handle_irqs:
  "tmr (fold handle_irq is m) = (tmr m)\<lparr>timer_ticks := timer_ticks (tmr m) + of_nat (ticks_in is)\<rparr>"
  "interrupt_flag (fold handle_irq is m) = interrupt_flag m" "irqs (fold handle_irq is m) = irqs m"
proof -
  have step: "tmr (handle_irq i m) = (tmr m)\<lparr>timer_ticks := timer_ticks (tmr m) + of_nat (ticks_in [i])\<rparr>"
      "interrupt_flag (handle_irq i m) = interrupt_flag m" "irqs (handle_irq i m) = irqs m"
      for i and m :: "'a machine_scheme"
    by (cases i; simp add: timer_handler_def ticks_in_def)+
  show "tmr (fold handle_irq is m) = (tmr m)\<lparr>timer_ticks := timer_ticks (tmr m) + of_nat (ticks_in is)\<rparr>"
    "interrupt_flag (fold handle_irq is m) = interrupt_flag m" "irqs (fold handle_irq is m) = irqs m"
    by (induction "is" arbitrary: m) (simp_all add: step ticks_in_def)
qed

lemma interrupt_point_simps:
  "interrupt_flag m \<Longrightarrow> timer_ticks (tmr (interrupt_point m)) = timer_ticks (tmr m) + of_nat (ticks_in (shd (irqs m)))"
  "interrupt_flag m \<Longrightarrow> irqs (interrupt_point m) = stl (irqs m)"
  "interrupt_flag (interrupt_point m) = interrupt_flag m"
  "\<not> interrupt_flag m \<Longrightarrow> interrupt_point m = m"
  by (simp_all add: interrupt_point_def handle_irqs)

lemma hlt_disabled: "\<not> interrupt_flag m \<Longrightarrow> hlt m = None"
  by (subst hlt.simps) simp

text \<open>The ticks that come in the first \<open>k\<close> moments.\<close>

definition ticks_until :: "nat \<Rightarrow> irq list stream \<Rightarrow> nat" where
  "ticks_until k is = sum_list (map ticks_in (stake k is))"

lemma ticks_until_simps [simp]:
  "ticks_until 0 is = 0" "ticks_until (Suc k) is = ticks_in (shd is) + ticks_until k (stl is)"
  by (simp_all add: ticks_until_def)

lemma ticks_until_add: "ticks_until (j + k) is = ticks_until j is + ticks_until k (sdrop j is)"
  by (induction j arbitrary: "is") simp_all

lemma ticks_until_mono: "j \<le> k \<Longrightarrow> ticks_until j is \<le> ticks_until k is"
  using ticks_until_add [of j "k - j" "is"] by simp

text \<open>
  A timer that goes on ticking, with at most one tick in each moment.
\<close>

definition ticking :: "irq list stream \<Rightarrow> bool" where
  "ticking is \<longleftrightarrow> (\<forall>k. ticks_in (is !! k) \<le> 1) \<and> (\<forall>k. \<exists>j \<ge> k. ticks_in (is !! j) = 1)"

lemma ticking_stl: "ticking is \<Longrightarrow> ticking (stl is)"
proof -
  assume t: "ticking is"
  have "\<exists>j \<ge> k. ticks_in (stl is !! j) = 1" for k
  proof -
    obtain j where "Suc k \<le> j" "ticks_in (is !! j) = 1" using t by (auto simp: ticking_def)
    then show ?thesis by (intro exI [of _ "j - 1"]) (cases j; simp)
  qed
  moreover have "ticks_in (stl is !! k) \<le> 1" for k
    using t unfolding ticking_def by (metis snth.simps(2))
  ultimately show ?thesis by (simp add: ticking_def)
qed

lemma ticking_sdrop: "ticking is \<Longrightarrow> ticking (sdrop k is)"
  by (induction k arbitrary: "is") (simp_all add: ticking_stl)

lemma ticking_first: "ticking is \<Longrightarrow> ticks_in (shd is) \<le> 1"
  unfolding ticking_def by (metis snth.simps(1))

lemma hlt_passes:
  assumes "interrupt_flag m" and "\<forall>j < k. irqs m !! j = []" and "irqs m !! k \<noteq> []"
  shows "\<exists>m'. hlt m = Some m' \<and> interrupt_flag m' \<and> irqs m' = sdrop (Suc k) (irqs m)
    \<and> timer_ticks (tmr m') = timer_ticks (tmr m) + of_nat (ticks_in (irqs m !! k))"
  using assms
proof (induction k arbitrary: m)
  case 0
  then show ?case by (subst hlt.simps) (simp add: interrupt_point_simps)
next
  case (Suc k)
  have "shd (irqs m) = []" using Suc.prems(2) by (metis snth.simps(1) zero_less_Suc)
  then have "hlt m = hlt (m\<lparr>irqs := stl (irqs m)\<rparr>)" using Suc.prems(1) by (subst hlt.simps) simp
  moreover have "\<forall>j < k. stl (irqs m) !! j = []" using Suc.prems(2) by (metis Suc_mono snth.simps(2))
  ultimately show ?case using Suc.IH [of "m\<lparr>irqs := stl (irqs m)\<rparr>"] Suc.prems by simp
qed

text \<open>Each time the loop halts, it wakes up in a later moment, with all ticks until then counted.\<close>

lemma hlt_wakes:
  assumes "interrupt_flag m" and t: "ticking (irqs m)"
  obtains m' k where "hlt m = Some m'" "interrupt_flag m'" "irqs m' = sdrop (Suc k) (irqs m)"
    "timer_ticks (tmr m') = timer_ticks (tmr m) + of_nat (ticks_until (Suc k) (irqs m))"
    "ticks_until (Suc k) (irqs m) \<le> 1"
proof -
  obtain i where "ticks_in (irqs m !! i) = 1" using t unfolding ticking_def by blast
  then have "irqs m !! i \<noteq> []" by (auto simp: ticks_in_def)
  then obtain k where k: "irqs m !! k \<noteq> []" "\<forall>j < k. irqs m !! j = []"
    using exists_least_iff [of "\<lambda>k. irqs m !! k \<noteq> []"] by blast
  have "ticks_until (Suc k) is = ticks_in (is !! k)" if "\<forall>j < k. is !! j = []" for k and "is" :: "irq list stream"
    using that
  proof (induction k arbitrary: "is")
    case (Suc k)
    have "shd is = []" using Suc.prems by (metis snth.simps(1) zero_less_Suc)
    moreover have "\<forall>j < k. stl is !! j = []" using Suc.prems by (metis Suc_mono snth.simps(2))
    ultimately show ?case using Suc.IH [of "stl is"] by (simp add: ticks_in_def)
  qed simp
  then have "ticks_until (Suc k) (irqs m) = ticks_in (irqs m !! k)" using k(2) by blast
  moreover have "ticks_in (irqs m !! k) \<le> 1" using t by (simp add: ticking_def)
  ultimately show thesis using hlt_passes [OF assms(1) k(2,1)] that by metis
qed


text \<open>The machine \<open>k\<close> moments later, with interrupts enabled.\<close>

definition later :: "nat \<Rightarrow> 'm machine_scheme \<Rightarrow> 'm machine_scheme \<Rightarrow> bool" where
  "later k m m' \<longleftrightarrow> interrupt_flag m' \<and> irqs m' = sdrop k (irqs m)
     \<and> timer_ticks (tmr m') = timer_ticks (tmr m) + of_nat (ticks_until k (irqs m))"

lemma later_trans: "later j m m1 \<Longrightarrow> later k m1 m2 \<Longrightarrow> later (j + k) m m2"
  by (simp add: later_def ticks_until_add sdrop_add add.commute)

lemma later_point: "interrupt_flag m \<Longrightarrow> later (Suc 0) m (interrupt_point m)"
  by (simp add: later_def interrupt_point_simps)

lemma later_ticking: "later k m m' \<Longrightarrow> ticking (irqs m) \<Longrightarrow> ticking (irqs m')"
  by (simp add: later_def ticking_sdrop)

lemma later_elapsed:
  assumes "later k m m'" and "unat (timer_ticks (tmr m) - start) + ticks_until k (irqs m) < 2 ^ 32"
  shows "unat (timer_ticks (tmr m') - start) = unat (timer_ticks (tmr m) - start) + ticks_until k (irqs m)"
proof -
  have e: "timer_ticks (tmr m') - start = (timer_ticks (tmr m) - start) + of_nat (ticks_until k (irqs m))"
    using assms(1) by (simp add: later_def)
  have "unat (of_nat (ticks_until k (irqs m)) :: u32) = ticks_until k (irqs m)"
    using assms(2) by (simp add: unat_of_nat)
  then show ?thesis unfolding e using assms(2) by (subst unat_add_lem [THEN iffD1]) simp_all
qed

lemma timer_wait_loop_done:
  "\<not> timer_ticks (tmr (interrupt_point m)) - start < n \<Longrightarrow> timer_wait_loop start n m = Some (interrupt_point m)"
  by (subst timer_wait_loop.simps) (simp add: Let_def)

lemma timer_wait_loop_again:
  "timer_ticks (tmr (interrupt_point m)) - start < n \<Longrightarrow> hlt (interrupt_point (interrupt_point m)) = Some m' \<Longrightarrow>
     timer_wait_loop start n m = timer_wait_loop start n m'"
  by (subst timer_wait_loop.simps) (simp add: Let_def)

text \<open>One round: the loop ends, or goes on from a later moment, at most one tick late.\<close>

lemma timer_wait_round:
  assumes "interrupt_flag m" and "ticking (irqs m)" and "unat n + 2 < 2 ^ 32"
    and "unat (timer_ticks (tmr m) - start) + ticks_in (shd (irqs m)) < unat n"
  obtains m' k where "timer_wait_loop start n m = timer_wait_loop start n m'" "later (Suc k) m m'"
    "unat (timer_ticks (tmr m) - start) + ticks_until (Suc k) (irqs m) = unat (timer_ticks (tmr m') - start)"
    "unat (timer_ticks (tmr m') - start) \<le> unat n + 1"
proof -
  let ?e = "\<lambda>m. unat (timer_ticks (tmr m) - start)"
  let ?m1 = "interrupt_point m" and ?m2 = "interrupt_point (interrupt_point m)"
  have 1: "later (Suc 0) m ?m1" by (rule later_point [OF assms(1)])
  have e1: "?e ?m1 = ?e m + ticks_in (shd (irqs m))"
    using later_elapsed [OF 1, of start] assms(3,4) by simp
  have 2: "later (Suc 0) ?m1 ?m2" using later_point [of ?m1] 1 by (simp add: later_def)
  have t1: "ticking (irqs ?m1)" by (rule later_ticking [OF 1 assms(2)])
  have e2: "?e ?m2 = ?e ?m1 + ticks_in (shd (irqs ?m1))" "?e ?m2 \<le> unat n"
    using later_elapsed [OF 2, of start] ticking_first [OF t1] e1 assms(3,4) by simp_all
  have "interrupt_flag ?m2" "ticking (irqs ?m2)"
    using 2 later_ticking [OF 2 t1] by (simp_all add: later_def)
  then obtain m3 j where m3: "hlt ?m2 = Some m3" "later (Suc j) ?m2 m3" "ticks_until (Suc j) (irqs ?m2) \<le> 1"
    using hlt_wakes unfolding later_def by metis
  have e3: "?e m3 = ?e ?m2 + ticks_until (Suc j) (irqs ?m2)"
    by (rule later_elapsed [OF m3(2)]) (use m3(3) e2(2) assms(3) in simp)
  have "irqs ?m1 = stl (irqs m)" "irqs ?m2 = stl (stl (irqs m))" using 1 2 by (simp_all add: later_def)
  then have "?e m + ticks_until (Suc (Suc (Suc j))) (irqs m) = ?e m3" using e1 e2(1) e3 by simp
  moreover have "later (Suc (Suc (Suc j))) m m3"
    using later_trans [OF later_trans [OF 1 2] m3(2)] by simp
  moreover have "timer_wait_loop start n m = timer_wait_loop start n m3"
    by (rule timer_wait_loop_again [OF _ m3(1)]) (use e1 assms(4) in \<open>simp add: word_less_nat_alt\<close>)
  ultimately show thesis using that e3 e2(2) m3(3) by simp
qed

lemma timer_wait_loop_returns:
  assumes "interrupt_flag m" and "ticking (irqs m)" and "unat n + 2 < 2 ^ 32"
    and "unat (timer_ticks (tmr m) - start) \<le> unat n + 1"
    and "unat n \<le> unat (timer_ticks (tmr m) - start) + ticks_until K (irqs m)"
  shows "\<exists>k m'. timer_wait_loop start n m = Some m' \<and> later k m m'
    \<and> unat n \<le> unat (timer_ticks (tmr m) - start) + ticks_until k (irqs m)
    \<and> unat (timer_ticks (tmr m) - start) + ticks_until k (irqs m) \<le> unat n + 2"
  using assms
proof (induction K arbitrary: m rule: less_induct)
  case (less K)
  let ?e = "\<lambda>m. unat (timer_ticks (tmr m) - start)"
  note first = ticking_first [OF less.prems(2)]
  show ?case
  proof (cases "?e m + ticks_in (shd (irqs m)) < unat n")
    case False
    have 1: "later (Suc 0) m (interrupt_point m)" by (rule later_point [OF less.prems(1)])
    have "?e (interrupt_point m) = ?e m + ticks_in (shd (irqs m))"
      using later_elapsed [OF 1, of start] first less.prems(3,4) by simp
    then have "timer_wait_loop start n m = Some (interrupt_point m)"
      using False by (intro timer_wait_loop_done) (simp add: word_less_nat_alt)
    then show ?thesis using 1 False first less.prems(4) by (intro exI [of _ "Suc 0"]) auto
  next
    case True
    obtain m3 k where m3: "timer_wait_loop start n m = timer_wait_loop start n m3" "later (Suc k) m m3"
        "?e m + ticks_until (Suc k) (irqs m) = ?e m3" "?e m3 \<le> unat n + 1"
      using timer_wait_round [OF less.prems(1-3) True] .
    have add: "ticks_until (Suc k + i) (irqs m) = ticks_until (Suc k) (irqs m) + ticks_until i (irqs m3)" for i
      using ticks_until_add [of "Suc k" i "irqs m"] m3(2) by (simp add: later_def)
    have "unat n \<le> ?e m3 + ticks_until (K - Suc k) (irqs m3)"
      using less.prems(5) m3(3) add [of "K - Suc k"] ticks_until_mono [of K "Suc k + (K - Suc k)" "irqs m"]
      by linarith
    moreover have "K \<noteq> 0" using less.prems(5) True by (cases K) auto
    ultimately obtain i m' where "timer_wait_loop start n m3 = Some m'" "later i m3 m'"
        "unat n \<le> ?e m3 + ticks_until i (irqs m3)" "?e m3 + ticks_until i (irqs m3) \<le> unat n + 2"
      using less.IH [of "K - Suc k" m3] m3(2,4) later_ticking [OF m3(2) less.prems(2)] less.prems(3)
      by (auto simp: later_def)
    then show ?thesis using later_trans [OF m3(2)] m3(1,3) add [of i]
      by (intro exI [of _ "Suc k + i"] exI [of _ m'] conjI) (assumption | simp | linarith)+
  qed
qed

lemma ticking_enough: "ticking is \<Longrightarrow> \<exists>K. n \<le> ticks_until K is"
proof (induction n arbitrary: "is")
  case (Suc n)
  obtain j where "ticks_in (is !! j) = 1" using Suc.prems unfolding ticking_def by blast
  then have "1 \<le> ticks_until (Suc j) is" using ticks_until_add [of j 1 "is"] by simp
  moreover obtain K where "n \<le> ticks_until K (sdrop (Suc j) is)"
    using Suc.IH [OF ticking_sdrop [OF Suc.prems]] by blast
  ultimately show ?case using ticks_until_add [of "Suc j" K "is"] by (intro exI [of _ "Suc j + K"]) simp
qed simp

text \<open>C32: \<open>timer_wait n\<close> with interrupts enabled returns if the timer goes on ticking, wherever
  the interrupts arrive and even when the 32-bit tick counter wraps around while it waits. It
  never returns early, and at most two ticks late: one tick that comes between the test and the
  \<open>hlt\<close>, which the loop then sleeps over, and one in front of the next test. It is assumed that no
  two ticks come in one moment between two instructions and that \<open>n\<close> is below \<open>2 ^ 32 - 2\<close>.\<close>

theorem timer_wait_bounds:
  assumes "interrupt_flag m" and "ticking (irqs m)" and "unat n + 2 < 2 ^ 32"
  shows "\<exists>k T m'. timer_wait n m = Some m' \<and> irqs m' = sdrop k (irqs m) \<and> T = ticks_until k (irqs m)
    \<and> timer_ticks (tmr m') = timer_ticks (tmr m) + of_nat T \<and> unat n \<le> T \<and> T \<le> unat n + 2"
proof -
  obtain K where "unat n \<le> ticks_until K (irqs m)" using ticking_enough [OF assms(2)] by blast
  then show ?thesis
    using timer_wait_loop_returns [OF assms, of "timer_ticks (tmr m)" K]
    by (auto simp: timer_wait_def later_def)
qed

text \<open>A machine for examples: nothing on the screen, no key, \<open>t\<close> ticks.\<close>

definition test_machine :: "bool \<Rightarrow> u32 \<Rightarrow> irq list stream \<Rightarrow> machine" where
  "test_machine f t is = \<lparr>scr = screen_start (\<lambda>_. 0) (\<lambda>_. sconst 0), kbd = keyboard_start,
     tmr = \<lparr>timer_ticks = t\<rparr>, gates = idt_start, interrupt_flag = f, irqs = is\<rparr>"

lemma sconst_simps: "shd (sconst x) = x" "stl (sconst x) = sconst x" "sconst x !! k = x"
  by simp_all

theorem timer_wait_bounds_witness:
  "\<exists>T m'. timer_wait 2 (test_machine True 0xFFFFFFFF (sconst [Irq_Keyboard, Irq_Timer])) = Some m'
    \<and> timer_ticks (tmr m') = 0xFFFFFFFF + of_nat T \<and> 2 \<le> T \<and> T \<le> 4"
proof -
  have "ticking (sconst [Irq_Keyboard, Irq_Timer])"
    by (auto simp: ticking_def ticks_in_def)
  then show ?thesis
    using timer_wait_bounds [of "test_machine True 0xFFFFFFFF (sconst [Irq_Keyboard, Irq_Timer])" 2]
    by (auto simp: test_machine_def)
qed

text \<open>With interrupts disabled, as in the safe mode the kernel is built for, a wait of at
  least one tick never returns, and so a sleep returns only when it is shorter than 10 ms.\<close>

theorem timer_sleep_disabled:
  assumes "\<not> interrupt_flag m"
  shows "timer_sleep ms m = (if ms < 10 then Some m else None)"
proof -
  have "timer_wait (ms div 10) m = (if ms div 10 = 0 then Some m else None)"
    using assms unfolding timer_wait_def
    by (subst timer_wait_loop.simps)
      (simp add: hlt_disabled interrupt_point_simps(4) Let_def word_neq_0_conv)
  moreover have "ms div 10 = 0 \<longleftrightarrow> ms < 10"
    by (simp add: word_unat_eq_iff unat_div word_less_nat_alt div_eq_0_iff)
  ultimately show ?thesis by (simp add: timer_sleep_def)
qed

theorem timer_sleep_disabled_witness:
  "timer_sleep 2000 (test_machine False 0 (sconst [Irq_Timer])) = None"
  using timer_sleep_disabled [of "test_machine False 0 (sconst [Irq_Timer])" 2000]
  by (simp add: test_machine_def)

end
