(* ===== verification/Byte_Memory.thy ===== *)
theory Byte_Memory imports Trak_Prelude begin

text \<open>
  The flat 32-bit memory of the machine (no paging, every address readable and writable),
  little-endian access to it, the block header \<open>memory_block_t\<close> of src/include/memory.h at
  its byte offsets, and the byte utilities \<open>memcpy\<close>, \<open>memset\<close> and \<open>memcmp\<close> of
  src/mm/memory.c.
\<close>

unbundle bit_operations_syntax

section \<open>Bytes, words and regions\<close>

type_synonym memory = "u32 \<Rightarrow> u8"

definition ld32 :: "memory \<Rightarrow> u32 \<Rightarrow> u32" where
  "ld32 m a = ucast (m a) OR push_bit 8 (ucast (m (a + 1)))
     OR push_bit 16 (ucast (m (a + 2))) OR push_bit 24 (ucast (m (a + 3)))"

definition st32 :: "memory \<Rightarrow> u32 \<Rightarrow> u32 \<Rightarrow> memory" where
  "st32 m a v = m(a := ucast v, a + 1 := ucast (drop_bit 8 v),
     a + 2 := ucast (drop_bit 16 v), a + 3 := ucast (drop_bit 24 v))"

definition region :: "nat \<Rightarrow> nat \<Rightarrow> u32 set" where
  "region lo n = {x. lo \<le> unat x \<and> unat x < lo + n}"

lemma region_iff [simp]: "x \<in> region lo n \<longleftrightarrow> lo \<le> unat x \<and> unat x < lo + n"
  by (simp add: region_def)

lemma word_combine_bytes:
  "ucast (ucast v :: u8) OR push_bit 8 (ucast (ucast (drop_bit 8 v) :: u8))
     OR push_bit 16 (ucast (ucast (drop_bit 16 v) :: u8))
     OR push_bit 24 (ucast (ucast (drop_bit 24 v) :: u8)) = (v :: u32)"
proof (rule bit_word_eqI)
  fix n :: nat
  assume "n < LENGTH(32)"
  then show "bit (ucast (ucast v :: u8) OR push_bit 8 (ucast (ucast (drop_bit 8 v) :: u8))
     OR push_bit 16 (ucast (ucast (drop_bit 16 v) :: u8))
     OR push_bit 24 (ucast (ucast (drop_bit 24 v) :: u8)) :: u32) n = bit v n"
    by (cases "n < 16"; cases "n < 24") (auto simp: bit_simps)
qed

lemma ld32_st32 [simp]: "ld32 (st32 m a v) a = v"
  by (simp add: ld32_def st32_def word_combine_bytes)

lemma unat_plus_small:
  "x + k < 2 ^ 32 \<Longrightarrow> unat ((of_nat x :: u32) + of_nat k) = x + k"
  by (simp add: unat_of_nat_small flip: of_nat_add)

lemma st32_frame:
  assumes "a + 4 \<le> 2 ^ 32" and "x \<notin> region a 4"
  shows "st32 m (of_nat a) v x = m x"
proof -
  have "x \<noteq> of_nat a + of_nat k" if "k < 4" for k
    using assms that unat_plus_small [of a k] by auto
  from this [of 0] this [of 1] this [of 2] this [of 3] show ?thesis
    by (simp add: st32_def)
qed

lemma ld32_cong:
  assumes "a + 4 \<le> 2 ^ 32" and "\<forall>x \<in> region a 4. m x = m' x"
  shows "ld32 m (of_nat a) = ld32 m' (of_nat a)"
proof -
  have "m (of_nat a + of_nat k) = m' (of_nat a + of_nat k)" if "k < 4" for k
    using assms that unat_plus_small [of a k] by auto
  from this [of 0] this [of 1] this [of 2] this [of 3] show ?thesis
    by (simp add: ld32_def)
qed

section \<open>Fields of a structure in memory\<close>

text \<open>
  The interface between a C structure and its bytes: a field at offset \<open>off\<close> of \<open>width\<close>
  bytes that can be read back after it is written, is determined by its own bytes and
  changes no others.
\<close>

locale struct_field =
  fixes get :: "memory \<Rightarrow> u32 \<Rightarrow> 'v"
    and put :: "memory \<Rightarrow> u32 \<Rightarrow> 'v \<Rightarrow> memory"
    and off width :: nat
  assumes get_put: "get (put m p v) p = v"
    and get_cong: "a + off + width \<le> 2 ^ 32 \<Longrightarrow> \<forall>x \<in> region (a + off) width. m x = m' x \<Longrightarrow>
      get m (of_nat a) = get m' (of_nat a)"
    and put_frame: "a + off + width \<le> 2 ^ 32 \<Longrightarrow> x \<notin> region (a + off) width \<Longrightarrow>
      put m (of_nat a) v x = m x"
begin

lemma get_outside:
  assumes "a + off + width \<le> 2 ^ 32" and "\<forall>x. x \<notin> A \<longrightarrow> m' x = m x"
    and "A \<inter> region (a + off) width = {}"
  shows "get m' (of_nat a) = get m (of_nat a)"
  using assms by (intro get_cong) auto

end

locale field_pair =
  f: struct_field get1 put1 off1 width1 + g: struct_field get2 put2 off2 width2
  for get1 :: "memory \<Rightarrow> u32 \<Rightarrow> 'v" and put1 off1 width1
    and get2 :: "memory \<Rightarrow> u32 \<Rightarrow> 'w" and put2 off2 width2
begin

lemma get_put_apart:
  assumes "a + off1 + width1 \<le> 2 ^ 32" and "b + off2 + width2 \<le> 2 ^ 32"
    and "a + off1 + width1 \<le> b + off2 \<or> b + off2 + width2 \<le> a + off1"
  shows "get1 (put2 m (of_nat b) v) (of_nat a) = get1 m (of_nat a)"
proof (rule f.get_outside [OF assms(1)])
  show "\<forall>x. x \<notin> region (b + off2) width2 \<longrightarrow> put2 m (of_nat b) v x = m x"
    using assms(2) g.put_frame by blast
  show "region (b + off2) width2 \<inter> region (a + off1) width1 = {}"
    using assms(3) by auto
qed

end

section \<open>The block header\<close>

text \<open>
  \<open>memory_block_t\<close>: \<open>size\<close> at offset 0, the byte-wide \<open>is_free\<close> at 4 (three bytes of
  padding follow), \<open>next\<close> at 8, \<open>prev\<close> at 12; \<open>sizeof\<close> is 16 on the 32-bit target.
\<close>

record memory_block =
  mb_size :: u32
  mb_is_free :: u8
  mb_next :: u32
  mb_prev :: u32

abbreviation MB_SIZEOF :: u32 where "MB_SIZEOF \<equiv> 16"

definition ld_size :: "memory \<Rightarrow> u32 \<Rightarrow> u32" where "ld_size m a = ld32 m a"
definition ld_free :: "memory \<Rightarrow> u32 \<Rightarrow> u8" where "ld_free m a = m (a + 4)"
definition ld_next :: "memory \<Rightarrow> u32 \<Rightarrow> u32" where "ld_next m a = ld32 m (a + 8)"
definition ld_prev :: "memory \<Rightarrow> u32 \<Rightarrow> u32" where "ld_prev m a = ld32 m (a + 12)"

definition set_size :: "memory \<Rightarrow> u32 \<Rightarrow> u32 \<Rightarrow> memory" where "set_size m a v = st32 m a v"
definition set_free :: "memory \<Rightarrow> u32 \<Rightarrow> u8 \<Rightarrow> memory" where "set_free m a v = m(a + 4 := v)"
definition set_next :: "memory \<Rightarrow> u32 \<Rightarrow> u32 \<Rightarrow> memory" where "set_next m a v = st32 m (a + 8) v"
definition set_prev :: "memory \<Rightarrow> u32 \<Rightarrow> u32 \<Rightarrow> memory" where "set_prev m a v = st32 m (a + 12) v"

definition hdr :: "memory \<Rightarrow> u32 \<Rightarrow> memory_block" where
  "hdr m a = \<lparr>mb_size = ld_size m a, mb_is_free = ld_free m a,
     mb_next = ld_next m a, mb_prev = ld_prev m a\<rparr>"

interpretation f_size: struct_field ld_size set_size 0 4
  by unfold_locales (auto simp: ld_size_def set_size_def intro: ld32_cong st32_frame)

lemma field32_cong:
  assumes "a + k + 4 \<le> 2 ^ 32" and "\<forall>x \<in> region (a + k) 4. m x = m' x"
  shows "ld32 m (of_nat a + of_nat k) = ld32 m' (of_nat a + of_nat k)"
  using ld32_cong [OF assms] by simp

lemma field32_frame:
  assumes "a + k + 4 \<le> 2 ^ 32" and "x \<notin> region (a + k) 4"
  shows "st32 m (of_nat a + of_nat k) v x = m x"
  using st32_frame [OF assms] by simp

interpretation f_next: struct_field ld_next set_next 8 4
  using field32_cong [where k = 8] field32_frame [where k = 8]
  by unfold_locales (simp_all add: ld_next_def set_next_def)

interpretation f_prev: struct_field ld_prev set_prev 12 4
  using field32_cong [where k = 12] field32_frame [where k = 12]
  by unfold_locales (simp_all add: ld_prev_def set_prev_def)

interpretation f_free: struct_field ld_free set_free 4 1
proof unfold_locales
  fix a :: nat and m m' :: memory and x v
  assume "a + 4 + 1 \<le> 2 ^ 32"
  then have u: "unat ((of_nat a :: u32) + 4) = a + 4" using unat_plus_small [of a 4] by simp
  show "\<forall>x \<in> region (a + 4) 1. m x = m' x \<Longrightarrow> ld_free m (of_nat a) = ld_free m' (of_nat a)"
    using u by (simp add: ld_free_def)
  show "x \<notin> region (a + 4) 1 \<Longrightarrow> set_free m (of_nat a) v x = m x"
    using u by (auto simp: set_free_def)
qed (simp add: ld_free_def set_free_def)

text \<open>Reading one field after writing another one, in the same header or in another.\<close>

interpretation size_size: field_pair ld_size set_size 0 4 ld_size set_size 0 4 ..
interpretation size_free: field_pair ld_size set_size 0 4 ld_free set_free 4 1 ..
interpretation size_next: field_pair ld_size set_size 0 4 ld_next set_next 8 4 ..
interpretation size_prev: field_pair ld_size set_size 0 4 ld_prev set_prev 12 4 ..
interpretation free_size: field_pair ld_free set_free 4 1 ld_size set_size 0 4 ..
interpretation free_free: field_pair ld_free set_free 4 1 ld_free set_free 4 1 ..
interpretation free_next: field_pair ld_free set_free 4 1 ld_next set_next 8 4 ..
interpretation free_prev: field_pair ld_free set_free 4 1 ld_prev set_prev 12 4 ..
interpretation next_size: field_pair ld_next set_next 8 4 ld_size set_size 0 4 ..
interpretation next_free: field_pair ld_next set_next 8 4 ld_free set_free 4 1 ..
interpretation next_next: field_pair ld_next set_next 8 4 ld_next set_next 8 4 ..
interpretation next_prev: field_pair ld_next set_next 8 4 ld_prev set_prev 12 4 ..
interpretation prev_size: field_pair ld_prev set_prev 12 4 ld_size set_size 0 4 ..
interpretation prev_free: field_pair ld_prev set_prev 12 4 ld_free set_free 4 1 ..
interpretation prev_next: field_pair ld_prev set_prev 12 4 ld_next set_next 8 4 ..
interpretation prev_prev: field_pair ld_prev set_prev 12 4 ld_prev set_prev 12 4 ..

lemmas field_apart =
  size_size.get_put_apart size_free.get_put_apart size_next.get_put_apart size_prev.get_put_apart
  free_size.get_put_apart free_free.get_put_apart free_next.get_put_apart free_prev.get_put_apart
  next_size.get_put_apart next_free.get_put_apart next_next.get_put_apart next_prev.get_put_apart
  prev_size.get_put_apart prev_free.get_put_apart prev_next.get_put_apart prev_prev.get_put_apart

lemmas field_same [simp] = f_size.get_put f_free.get_put f_next.get_put f_prev.get_put

text \<open>Two headers inside the address space that coincide or do not overlap.\<close>

definition sep :: "nat \<Rightarrow> nat \<Rightarrow> bool" where
  "sep a b \<longleftrightarrow> a + 16 \<le> 2 ^ 32 \<and> b + 16 \<le> 2 ^ 32 \<and> (a = b \<or> a + 16 \<le> b \<or> b + 16 \<le> a)"

lemma sep_refl: "a + 16 \<le> 2 ^ 32 \<Longrightarrow> sep a a"
  by (simp add: sep_def)

lemma hdr_set_size:
  "sep a b \<Longrightarrow> hdr (set_size m (of_nat b) v) (of_nat a)
     = (if a = b then (hdr m (of_nat a))\<lparr>mb_size := v\<rparr> else hdr m (of_nat a))"
  by (auto simp: sep_def hdr_def field_apart)

lemma hdr_set_free:
  "sep a b \<Longrightarrow> hdr (set_free m (of_nat b) w) (of_nat a)
     = (if a = b then (hdr m (of_nat a))\<lparr>mb_is_free := w\<rparr> else hdr m (of_nat a))"
  by (auto simp: sep_def hdr_def field_apart)

lemma hdr_set_next:
  "sep a b \<Longrightarrow> hdr (set_next m (of_nat b) v) (of_nat a)
     = (if a = b then (hdr m (of_nat a))\<lparr>mb_next := v\<rparr> else hdr m (of_nat a))"
  by (auto simp: sep_def hdr_def field_apart)

lemma hdr_set_prev:
  "sep a b \<Longrightarrow> hdr (set_prev m (of_nat b) v) (of_nat a)
     = (if a = b then (hdr m (of_nat a))\<lparr>mb_prev := v\<rparr> else hdr m (of_nat a))"
  by (auto simp: sep_def hdr_def field_apart)

lemmas hdr_set = hdr_set_size hdr_set_free hdr_set_next hdr_set_prev

lemma ld_hdr:
  "ld_size m a = mb_size (hdr m a)" "ld_free m a = mb_is_free (hdr m a)"
  "ld_next m a = mb_next (hdr m a)" "ld_prev m a = mb_prev (hdr m a)"
  by (simp_all add: hdr_def)

lemma hdr_cong:
  assumes "a + 16 \<le> 2 ^ 32" and "\<forall>x \<in> region a 16. m x = m' x"
  shows "hdr m (of_nat a) = hdr m' (of_nat a)"
  using assms by (simp add: hdr_def f_size.get_cong [of a m m'] f_free.get_cong [of a m m']
      f_next.get_cong [of a m m'] f_prev.get_cong [of a m m'])

lemma set_frame:
  assumes "a + 16 \<le> 2 ^ 32" and "x \<notin> region a 16"
  shows "set_size m (of_nat a) v x = m x" and "set_free m (of_nat a) w x = m x"
    and "set_next m (of_nat a) v x = m x" and "set_prev m (of_nat a) v x = m x"
  using assms by (auto intro!: f_size.put_frame f_free.put_frame f_next.put_frame f_prev.put_frame)

section \<open>memcpy, memset, memcmp\<close>

definition memcpy :: "u32 \<Rightarrow> u32 \<Rightarrow> u32 \<Rightarrow> memory \<Rightarrow> memory" where
  "memcpy dest src n m =
     fold (\<lambda>i m. m(dest + of_nat i := m (src + of_nat i))) [0..<unat n] m"

definition memset :: "u32 \<Rightarrow> u32 \<Rightarrow> u32 \<Rightarrow> memory \<Rightarrow> memory" where
  "memset ptr value n m =
     fold (\<lambda>i m. m(ptr + of_nat i := ucast value)) [0..<unat n] m"

fun memcmp_loop :: "memory \<Rightarrow> u32 \<Rightarrow> u32 \<Rightarrow> nat list \<Rightarrow> int" where
  "memcmp_loop m p1 p2 [] = 0"
| "memcmp_loop m p1 p2 (i # is) =
     (if m (p1 + of_nat i) < m (p2 + of_nat i) then -1
      else if m (p2 + of_nat i) < m (p1 + of_nat i) then 1
      else memcmp_loop m p1 p2 is)"

definition memcmp :: "u32 \<Rightarrow> u32 \<Rightarrow> u32 \<Rightarrow> memory \<Rightarrow> int" where
  "memcmp p1 p2 n m = memcmp_loop m p1 p2 [0..<unat n]"

definition bytes_at :: "memory \<Rightarrow> u32 \<Rightarrow> nat \<Rightarrow> u8 list" where
  "bytes_at m a n = map (\<lambda>i. m (a + of_nat i)) [0..<n]"

lemma of_nat_u32_inj: "i < 2 ^ 32 \<Longrightarrow> j < 2 ^ 32 \<Longrightarrow> (a :: u32) + of_nat i = a + of_nat j \<longleftrightarrow> i = j"
  using of_nat_eq_word_iff [where 'a = 32, of i j] by simp

lemma memset_at:
  assumes "k < 2 ^ 32"
  shows "memset ptr v n m (ptr + of_nat k) = (if k < unat n then ucast v else m (ptr + of_nat k))"
proof -
  have n: "unat n < 2 ^ 32" using unsigned_less [where 'a = nat, of n] by simp
  then have "ptr + of_nat k \<in> (\<lambda>i. ptr + of_nat i) ` {0..<unat n} \<longleftrightarrow> k < unat n"
    using assms by (auto simp: of_nat_eq_word_iff)
  then show ?thesis
    by (simp add: memset_def fold_fun_upd_const [where h = "\<lambda>i. ptr + of_nat i"])
qed

lemma bytes_at_memset: "bytes_at (memset ptr v n m) ptr (unat n) = replicate (unat n) (ucast v)"
proof (rule nth_equalityI)
  fix i
  assume "i < length (bytes_at (memset ptr v n m) ptr (unat n))"
  then have "i < unat n" by (simp add: bytes_at_def)
  moreover have "unat n < 2 ^ 32" using unsigned_less [where 'a = nat, of n] by simp
  ultimately show "bytes_at (memset ptr v n m) ptr (unat n) ! i = replicate (unat n) (ucast v) ! i"
    by (simp add: bytes_at_def memset_at)
qed (simp add: bytes_at_def)


text \<open>
  A forward copy is right as long as no byte is overwritten before it is read; that is so
  when the ranges do not overlap, and also when the destination starts in front of the source.
\<close>

lemma fold_copy:
  fixes f :: memory
  assumes "\<forall>i < n. \<forall>j < i. dest + of_nat j \<noteq> src + of_nat i" and "n \<le> 2 ^ 32"
  shows "(\<forall>k < n. fold (\<lambda>i m. m(dest + of_nat i := m (src + of_nat i))) [0..<n] f (dest + of_nat k)
            = f (src + of_nat k))
    \<and> (\<forall>x. (\<forall>k < n. x \<noteq> dest + of_nat k) \<longrightarrow>
        fold (\<lambda>i m. m(dest + of_nat i := m (src + of_nat i))) [0..<n] f x = f x)"
  using assms
proof (induction n)
  case 0
  then show ?case by simp
next
  case (Suc n)
  define g where "g = fold (\<lambda>i m. m(dest + of_nat i := m (src + of_nat i))) [0..<n] f"
  have "\<forall>i < n. \<forall>j < i. dest + of_nat j \<noteq> src + of_nat i" and "n \<le> 2 ^ 32"
    using Suc.prems by simp_all
  note both = Suc.IH [OF this, folded g_def]
  note IH = conjunct1 [OF both] conjunct2 [OF both]
  have "\<forall>k < n. src + of_nat n \<noteq> dest + of_nat k"
    using Suc.prems(1) [rule_format, of n] by (metis lessI)
  then have src: "g (src + of_nat n) = f (src + of_nat n)"
    by (rule IH(2) [THEN spec, THEN mp])
  have new: "dest + of_nat k \<noteq> dest + of_nat n" if "k < n" for k
    using that Suc.prems(2) by (auto simp: of_nat_eq_word_iff)
  have step: "fold (\<lambda>i m. m(dest + of_nat i := m (src + of_nat i))) [0..<Suc n] f
      = g(dest + of_nat n := f (src + of_nat n))"
    by (simp only: upt_Suc_append [of 0] zero_order fold_append fold.simps comp_def id_def src flip: g_def)
  show ?case
    unfolding step using IH new by (auto simp: less_Suc_eq)
qed

lemma memcpy_at:
  assumes "\<forall>i < unat n. \<forall>j < i. dest + of_nat j \<noteq> src + of_nat i" and "k < unat n"
  shows "memcpy dest src n m (dest + of_nat k) = m (src + of_nat k)"
  using fold_copy [OF assms(1)] assms(2) unsigned_less [where 'a = nat, of n]
  by (simp add: memcpy_def less_imp_le)

lemma memcpy_frame:
  assumes "\<forall>i < unat n. \<forall>j < i. dest + of_nat j \<noteq> src + of_nat i"
    and "\<forall>k < unat n. x \<noteq> dest + of_nat k"
  shows "memcpy dest src n m x = m x"
  using fold_copy [OF assms(1)] assms(2) unsigned_less [where 'a = nat, of n]
  by (simp add: memcpy_def less_imp_le)

lemma memcmp_loop_find:
  "memcmp_loop m p1 p2 is =
     (case find (\<lambda>i. m (p1 + of_nat i) \<noteq> m (p2 + of_nat i)) is of None \<Rightarrow> 0
      | Some i \<Rightarrow> if m (p1 + of_nat i) < m (p2 + of_nat i) then -1 else 1)"
  by (induction "is") auto

section \<open>Properties of the byte utilities\<close>

text \<open>C37: \<open>memcpy\<close> copies: if no destination byte is a source byte still to be read, the
  destination holds the source's former bytes and no byte outside it changes.\<close>

theorem memcpy_copies:
  assumes "\<forall>i < unat n. \<forall>j < i. dest + of_nat j \<noteq> src + of_nat i"
  shows "bytes_at (memcpy dest src n m) dest (unat n) = bytes_at m src (unat n)
    \<and> (\<forall>x. (\<forall>k < unat n. x \<noteq> dest + of_nat k) \<longrightarrow> memcpy dest src n m x = m x)"
  using memcpy_at [OF assms] memcpy_frame [OF assms] by (auto simp: bytes_at_def)

theorem memcpy_copies_witness:
  "bytes_at (memcpy 0x1000 0x2000 3 (\<lambda>a. ucast a)) 0x1000 3 = [0, 1, 2]"
proof -
  have "(0x1000 :: u32) + of_nat j \<noteq> 0x2000 + of_nat i" if "j < i" "i < unat (3 :: u32)" for i j
  proof -
    have "i \<in> {0, 1, 2}" "j \<in> {0, 1, 2}" using that by auto
    then show ?thesis by auto
  qed
  from memcpy_copies [of 3 "0x1000" "0x2000"] this
  have "bytes_at (memcpy 0x1000 0x2000 3 (\<lambda>a. ucast a)) 0x1000 (unat (3 :: u32))
      = bytes_at (\<lambda>a. ucast a) 0x2000 (unat (3 :: u32))" by blast
  then show ?thesis by (simp add: bytes_at_def upt_rec)
qed

text \<open>\<open>memcmp\<close> returns 0 exactly on equal byte strings, and otherwise the order of the
  first bytes that differ.\<close>

theorem memcmp_correct:
  "(memcmp p1 p2 n m = 0 \<longleftrightarrow> bytes_at m p1 (unat n) = bytes_at m p2 (unat n))
   \<and> (memcmp p1 p2 n m = -1 \<longleftrightarrow> (\<exists>i < unat n. m (p1 + of_nat i) < m (p2 + of_nat i)
        \<and> (\<forall>j < i. m (p1 + of_nat j) = m (p2 + of_nat j))))
   \<and> memcmp p1 p2 n m \<in> {-1, 0, 1}"
proof (cases "find (\<lambda>i. m (p1 + of_nat i) \<noteq> m (p2 + of_nat i)) [0..<unat n]")
  case None
  then have eq: "\<forall>i < unat n. m (p1 + of_nat i) = m (p2 + of_nat i)"
    by (auto simp: find_None_iff)
  with None show ?thesis
    by (auto simp: memcmp_def memcmp_loop_find bytes_at_def)
next
  case (Some k)
  then have k: "k < unat n" "m (p1 + of_nat k) \<noteq> m (p2 + of_nat k)"
      "\<forall>j < k. m (p1 + of_nat j) = m (p2 + of_nat j)"
    by (auto simp: find_Some_iff)
  have val: "memcmp p1 p2 n m = (if m (p1 + of_nat k) < m (p2 + of_nat k) then -1 else 1)"
    using Some by (simp add: memcmp_def memcmp_loop_find)
  have first: "i = k" if "m (p1 + of_nat i) < m (p2 + of_nat i)"
      "\<forall>j < i. m (p1 + of_nat j) = m (p2 + of_nat j)" for i
    using k that by (metis nat_neq_iff order_less_irrefl)
  have "bytes_at m p1 (unat n) \<noteq> bytes_at m p2 (unat n)"
    using k by (auto simp: bytes_at_def)
  moreover have "memcmp p1 p2 n m \<noteq> 0" "memcmp p1 p2 n m \<in> {-1, 0, 1}"
    by (auto simp: val)
  moreover have "memcmp p1 p2 n m = -1 \<longleftrightarrow> m (p1 + of_nat k) < m (p2 + of_nat k)"
    by (simp add: val)
  ultimately show ?thesis using k first by blast
qed

theorem memcmp_correct_witness:
  "memcmp 0x10 0x20 2 (\<lambda>a. ucast a) = -1"
proof -
  have "\<exists>i < unat (2 :: u32). (ucast (0x10 + of_nat i :: u32) :: u8) < ucast (0x20 + of_nat i :: u32)
      \<and> (\<forall>j < i. (ucast (0x10 + of_nat j :: u32) :: u8) = ucast (0x20 + of_nat j :: u32))"
    by (intro exI [of _ 0]) simp
  then show ?thesis using memcmp_correct [of "0x10" "0x20" 2 "\<lambda>a. ucast a"] by blast
qed

end
