(* ===== verification/Heap_Allocator.thy ===== *)
theory Heap_Allocator imports Byte_Memory Number_Text begin

text \<open>
  The heap of src/mm/memory.c as it is written: the global variables and the memory they
  point into, \<open>memory_init\<close>, \<open>kmalloc\<close>, \<open>kfree\<close>, \<open>krealloc\<close>, the counters and
  \<open>memory_print_stats\<close>. The block list lives in the memory itself, as headers linked by
  addresses; \<open>0\<close> is the null pointer.
\<close>

unbundle bit_operations_syntax

section \<open>State\<close>

abbreviation HEAP_START :: u32 where "HEAP_START \<equiv> 0x400000"
abbreviation HEAP_SIZE :: u32 where "HEAP_SIZE \<equiv> 0x400000"

record heap =
  mem :: memory
  heap_start :: u32
  memory_initialized :: bool
  total_allocated :: u32

definition heap_unset :: "memory \<Rightarrow> heap" where
  "heap_unset m = \<lparr>mem = m, heap_start = 0, memory_initialized = False, total_allocated = 0\<rparr>"

definition memory_init :: "heap \<Rightarrow> heap" where
  "memory_init h =
     (let p = HEAP_START;
          m = set_size (mem h) p (HEAP_SIZE - MB_SIZEOF);
          m = set_free m p 1;
          m = set_next m p 0;
          m = set_prev m p 0
      in h\<lparr>mem := m, heap_start := p, memory_initialized := True, total_allocated := 0\<rparr>)"

section \<open>kmalloc\<close>

definition align4 :: "u32 \<Rightarrow> u32" where
  "align4 sz = (sz + 3) AND NOT 3"

text \<open>
  The search loop: \<open>Some\<close> of the first block that is free and large enough, \<open>Some 0\<close> at
  the end of the list, and \<open>None\<close> if the links never lead to a null pointer.
\<close>

partial_function (option) kmalloc_find :: "memory \<Rightarrow> u32 \<Rightarrow> u32 \<Rightarrow> u32 option" where
  "kmalloc_find m sz current =
     (if current = 0 then Some 0
      else if ld_free m current \<noteq> 0 \<and> sz \<le> ld_size m current then Some current
      else kmalloc_find m sz (ld_next m current))"

definition split_block :: "u32 \<Rightarrow> u32 \<Rightarrow> memory \<Rightarrow> memory" where
  "split_block current sz m =
     (let new_block = current + MB_SIZEOF + sz;
          m = set_size m new_block (ld_size m current - sz - MB_SIZEOF);
          m = set_free m new_block 1;
          m = set_next m new_block (ld_next m current);
          m = set_prev m new_block current;
          m = (if ld_next m current \<noteq> 0 then set_prev m (ld_next m current) new_block else m);
          m = set_next m current new_block
      in set_size m current sz)"

definition kmalloc :: "u32 \<Rightarrow> heap \<Rightarrow> (u32 \<times> heap) option" where
  "kmalloc req h0 =
     (let h = (if memory_initialized h0 then h0 else memory_init h0)
      in if req = 0 then Some (0, h)
         else let sz = align4 req
              in case kmalloc_find (mem h) sz (heap_start h) of
                   None \<Rightarrow> None
                 | Some current \<Rightarrow>
                     if current = 0 then Some (0, h)
                     else let m = (if sz + MB_SIZEOF + 32 < ld_size (mem h) current
                                   then split_block current sz (mem h) else mem h);
                              m = set_free m current 0
                          in Some (current + MB_SIZEOF,
                               h\<lparr>mem := m, total_allocated := total_allocated h + ld_size m current\<rparr>))"

section \<open>kfree\<close>

definition merge_next :: "u32 \<Rightarrow> memory \<Rightarrow> memory" where
  "merge_next block m =
     (let m = set_size m block (ld_size m block + (ld_size m (ld_next m block) + MB_SIZEOF));
          m = (if ld_next m (ld_next m block) \<noteq> 0
               then set_prev m (ld_next m (ld_next m block)) block else m)
      in set_next m block (ld_next m (ld_next m block)))"

definition merge_prev :: "u32 \<Rightarrow> memory \<Rightarrow> memory" where
  "merge_prev block m =
     (let m = set_size m (ld_prev m block)
                (ld_size m (ld_prev m block) + (ld_size m block + MB_SIZEOF));
          m = (if ld_next m block \<noteq> 0 then set_prev m (ld_next m block) (ld_prev m block) else m)
      in set_next m (ld_prev m block) (ld_next m block))"

definition kfree :: "u32 \<Rightarrow> heap \<Rightarrow> heap" where
  "kfree ptr h =
     (if ptr = 0 \<or> \<not> memory_initialized h then h
      else let block = ptr - MB_SIZEOF
           in if ld_free (mem h) block \<noteq> 0 then h
              else let m = set_free (mem h) block 1;
                       total = total_allocated h - ld_size m block;
                       m = (if ld_next m block \<noteq> 0 \<and> ld_free m (ld_next m block) \<noteq> 0
                            then merge_next block m else m);
                       m = (if ld_prev m block \<noteq> 0 \<and> ld_free m (ld_prev m block) \<noteq> 0
                            then merge_prev block m else m)
                   in h\<lparr>mem := m, total_allocated := total\<rparr>)"

section \<open>krealloc\<close>

definition krealloc :: "u32 \<Rightarrow> u32 \<Rightarrow> heap \<Rightarrow> (u32 \<times> heap) option" where
  "krealloc ptr new_size h =
     (if ptr = 0 then kmalloc new_size h
      else if new_size = 0 then Some (0, kfree ptr h)
      else let block = ptr - MB_SIZEOF
           in if new_size \<le> ld_size (mem h) block then Some (ptr, h)
              else case kmalloc new_size h of
                     None \<Rightarrow> None
                   | Some (new_ptr, h1) \<Rightarrow>
                       if new_ptr \<noteq> 0 then
                         let n = (if ld_size (mem h1) block < new_size
                                  then ld_size (mem h1) block else new_size);
                             h2 = h1\<lparr>mem := memcpy new_ptr ptr n (mem h1)\<rparr>
                         in Some (new_ptr, kfree ptr h2)
                       else Some (new_ptr, h1))"

section \<open>Counters and statistics\<close>

definition memory_get_total :: "heap \<Rightarrow> u32" where
  "memory_get_total h = HEAP_SIZE"

definition memory_get_used :: "heap \<Rightarrow> u32" where
  "memory_get_used h = total_allocated h"

definition memory_get_free :: "heap \<Rightarrow> u32" where
  "memory_get_free h = HEAP_SIZE - total_allocated h"

text \<open>The static \<open>print_number\<close> of memory.c.\<close>

definition mm_print_number :: "u32 \<Rightarrow> screen \<Rightarrow> screen" where
  "mm_print_number num s =
     (if num = 0 then screen_print (cstr ''0'') s
      else fold (\<lambda>d s. screen_print [d] s) (rev (digits_rev num)) s)"

definition memory_print_stats :: "heap \<Rightarrow> screen \<Rightarrow> screen" where
  "memory_print_stats h s =
     (let s = screen_set_color VGA_COLOR_LIGHT_CYAN VGA_COLOR_BLACK s;
          s = screen_println (cstr ''Memory Statistics:'') s;
          s = screen_set_color VGA_COLOR_WHITE VGA_COLOR_BLACK s;
          s = screen_print (cstr ''Total heap size: '') s;
          s = mm_print_number (HEAP_SIZE div 1024) s;
          s = screen_println (cstr '' KB'') s;
          s = screen_print (cstr ''Used memory: '') s;
          s = mm_print_number (total_allocated h) s;
          s = screen_println (cstr '' bytes'') s;
          s = screen_print (cstr ''Free memory: '') s;
          s = mm_print_number (memory_get_free h) s;
          s = screen_println (cstr '' bytes'') s;
          s = screen_print (cstr ''Usage: '') s
      in if 0 < HEAP_SIZE
         then screen_println (cstr ''%'') (mm_print_number ((total_allocated h * 100) div HEAP_SIZE) s)
         else screen_println (cstr ''0%'') s)"

end
