(* ===== verification/File_System.thy ===== *)
theory File_System imports Heap_Allocator Timer_Driver begin

text \<open>
  The in-memory file system, src/lib/filesystem.c and src/include/filesystem.h, as it is
  written: the file table, the data area and the eight file handles, with every operation.
  Writing past an array, which C leaves undefined, is the outcome \<open>Inl Out_Of_Bounds\<close>.
\<close>

section \<open>Data\<close>

abbreviation MAX_FILES :: nat where "MAX_FILES \<equiv> 32"
abbreviation MAX_FILENAME_LENGTH :: nat where "MAX_FILENAME_LENGTH \<equiv> 16"
abbreviation MAX_FILE_SIZE :: u32 where "MAX_FILE_SIZE \<equiv> 1024"
abbreviation FILE_TYPE_REGULAR :: u8 where "FILE_TYPE_REGULAR \<equiv> 1"
abbreviation FILE_TYPE_DIRECTORY :: u8 where "FILE_TYPE_DIRECTORY \<equiv> 2"

abbreviation FILE_PERM_READ :: u8 where "FILE_PERM_READ \<equiv> 0x01"
abbreviation FILE_PERM_WRITE :: u8 where "FILE_PERM_WRITE \<equiv> 0x02"
abbreviation FILE_PERM_EXECUTE :: u8 where "FILE_PERM_EXECUTE \<equiv> 0x04"

text \<open>\<open>fe_name\<close> is the C string in the entry's 16-byte array.\<close>

record file_entry =
  fe_name :: "cchar list"
  fe_type :: u8
  fe_permissions :: u8
  fe_size :: u32
  fe_data_offset :: u32
  fe_created_time :: u32
  fe_in_use :: bool

record filesystem =
  total_files :: u32
  used_files :: u32
  total_size :: u32
  used_size :: u32
  files :: "file_entry list"
  data_area :: "u8 list"

record file_handle =
  file_index :: int
  position :: u32
  is_open :: bool

text \<open>
  The two static variables; \<open>None\<close> is the null pointer. A pointer into \<open>file_handles\<close> is
  the index of the handle.
\<close>

record fs_state =
  fs :: "filesystem option"
  file_handles :: "file_handle list"

definition fs_start :: fs_state where
  "fs_start = \<lparr>fs = None, file_handles = replicate 8 \<lparr>file_index = 0, position = 0, is_open = False\<rparr>\<rparr>"

section \<open>String and memory helpers\<close>

fun fs_strcmp :: "cchar list \<Rightarrow> cchar list \<Rightarrow> int" where
  "fs_strcmp (a # s1) (b # s2) =
     (if a \<noteq> 0 \<and> a = b then fs_strcmp s1 s2 else int (unat a) - int (unat b))"
| "fs_strcmp (a # s1) [] = int (unat a) - 0"
| "fs_strcmp [] (b # s2) = 0 - int (unat b)"
| "fs_strcmp [] [] = 0"

primrec fs_strlen :: "cchar list \<Rightarrow> nat" where
  "fs_strlen [] = 0"
| "fs_strlen (c # cs) = Suc (fs_strlen cs)"

text \<open>Copying a string and its terminator into an array of \<open>cap\<close> characters.\<close>

definition fs_strcpy :: "nat \<Rightarrow> cchar list \<Rightarrow> fault + cchar list" where
  "fs_strcpy cap src = (if length src < cap then Inr src else Inl Out_Of_Bounds)"

definition zero_entry :: file_entry where
  "zero_entry = \<lparr>fe_name = [], fe_type = 0, fe_permissions = 0, fe_size = 0, fe_data_offset = 0,
     fe_created_time = 0, fe_in_use = False\<rparr>"

definition zero_filesystem :: filesystem where
  "zero_filesystem = \<lparr>total_files = 0, used_files = 0, total_size = 0, used_size = 0,
     files = replicate MAX_FILES zero_entry, data_area = replicate (MAX_FILES * 1024) 0\<rparr>"

text \<open>Copying \<open>n\<close> bytes from index \<open>s\<close> of one array to index \<open>d\<close> of another.\<close>

fun fs_memcpy :: "u8 list \<Rightarrow> nat \<Rightarrow> u8 list \<Rightarrow> nat \<Rightarrow> nat \<Rightarrow> fault + u8 list" where
  "fs_memcpy dest d src s 0 = Inr dest"
| "fs_memcpy dest d src s (Suc n) =
     (if d < length dest \<and> s < length src
      then fs_memcpy (dest[d := src ! s]) (Suc d) src (Suc s) n
      else Inl Out_Of_Bounds)"

section \<open>Directory operations\<close>

text \<open>The search loop that the operations on names share.\<close>

definition fs_find :: "cchar list \<Rightarrow> filesystem \<Rightarrow> nat option" where
  "fs_find name f =
     find (\<lambda>i. fe_in_use (files f ! i) \<and> fs_strcmp (fe_name (files f ! i)) name = 0) [0..<MAX_FILES]"

definition fs_file_exists :: "cchar list option \<Rightarrow> fs_state \<Rightarrow> bool" where
  "fs_file_exists nm st =
     (case (fs st, nm) of
        (Some f, Some name) \<Rightarrow> fs_find name f \<noteq> None
      | _ \<Rightarrow> False)"

definition fs_create_file ::
  "cchar list option \<Rightarrow> u8 \<Rightarrow> timer \<Rightarrow> fs_state \<Rightarrow> fault + (int \<times> fs_state)" where
  "fs_create_file nm type t st =
     (case (fs st, nm) of
        (Some f, Some name) \<Rightarrow>
          if fs_file_exists nm st then Inr (-2, st)
          else (case find (\<lambda>i. \<not> fe_in_use (files f ! i)) [0..<MAX_FILES] of
                  None \<Rightarrow> Inr (-3, st)
                | Some i \<Rightarrow>
                    (case fs_strcpy MAX_FILENAME_LENGTH name of
                       Inl e \<Rightarrow> Inl e
                     | Inr copied \<Rightarrow>
                         let entry = \<lparr>fe_name = copied, fe_type = type, fe_permissions = FILE_PERM_READ OR FILE_PERM_WRITE,
                               fe_size = 0, fe_data_offset = of_nat i * MAX_FILE_SIZE,
                               fe_created_time = timer_get_ticks t, fe_in_use = True\<rparr>
                         in Inr (int i, st\<lparr>fs := Some (f\<lparr>files := (files f)[i := entry],
                              used_files := used_files f + 1\<rparr>)\<rparr>)))
      | _ \<Rightarrow> Inr (-1, st))"

definition fs_delete_file :: "cchar list option \<Rightarrow> fs_state \<Rightarrow> int \<times> fs_state" where
  "fs_delete_file nm st =
     (case (fs st, nm) of
        (Some f, Some name) \<Rightarrow>
          (case fs_find name f of
             None \<Rightarrow> (-2, st)
           | Some i \<Rightarrow>
               let f = f\<lparr>files := (files f)[i := zero_entry]\<rparr>;
                   f = f\<lparr>used_files := used_files f - 1\<rparr>;
                   f = f\<lparr>used_size := used_size f - fe_size (files f ! i)\<rparr>
               in (0, st\<lparr>fs := Some f\<rparr>))
      | _ \<Rightarrow> (-1, st))"

definition fs_open_file :: "cchar list option \<Rightarrow> fs_state \<Rightarrow> nat option \<times> fs_state" where
  "fs_open_file nm st =
     (case (fs st, nm) of
        (Some f, Some name) \<Rightarrow>
          (case fs_find name f of
             None \<Rightarrow> (None, st)
           | Some idx \<Rightarrow>
               (case find (\<lambda>i. \<not> is_open (file_handles st ! i)) [0..<8] of
                  None \<Rightarrow> (None, st)
                | Some i \<Rightarrow> (Some i, st\<lparr>file_handles := (file_handles st)
                    [i := \<lparr>file_index = int idx, position = 0, is_open = True\<rparr>]\<rparr>)))
      | _ \<Rightarrow> (None, st))"

definition fs_get_file_size :: "cchar list option \<Rightarrow> fs_state \<Rightarrow> u32" where
  "fs_get_file_size nm st =
     (case (fs st, nm) of
        (Some f, Some name) \<Rightarrow> (case fs_find name f of None \<Rightarrow> 0 | Some i \<Rightarrow> fe_size (files f ! i))
      | _ \<Rightarrow> 0)"

definition fs_get_type_string :: "u8 \<Rightarrow> cchar list" where
  "fs_get_type_string type =
     (if type = FILE_TYPE_REGULAR then cstr ''FILE''
      else if type = FILE_TYPE_DIRECTORY then cstr ''DIR'' else cstr ''UNKNOWN'')"

definition fs_get_free_space :: "fs_state \<Rightarrow> u32" where
  "fs_get_free_space st = (case fs st of None \<Rightarrow> 0 | Some f \<Rightarrow> total_size f - used_size f)"

section \<open>Handles\<close>

text \<open>
  Reading through a pointer to a handle or to the entry it names; both are array accesses
  whose index the code does not check.
\<close>

definition handle_at :: "nat \<Rightarrow> fs_state \<Rightarrow> fault + file_handle" where
  "handle_at h st =
     (if h < length (file_handles st) then Inr (file_handles st ! h) else Inl Out_Of_Bounds)"

definition entry_at :: "int \<Rightarrow> filesystem \<Rightarrow> fault + file_entry" where
  "entry_at i f =
     (if 0 \<le> i \<and> nat i < length (files f) then Inr (files f ! nat i) else Inl Out_Of_Bounds)"

definition put_handle :: "nat \<Rightarrow> file_handle \<Rightarrow> fs_state \<Rightarrow> fs_state" where
  "put_handle h fh st = st\<lparr>file_handles := (file_handles st)[h := fh]\<rparr>"

definition fs_close_file :: "nat option \<Rightarrow> fs_state \<Rightarrow> fault + fs_state" where
  "fs_close_file handle st =
     (case handle of
        None \<Rightarrow> Inr st
      | Some h \<Rightarrow>
          (case handle_at h st of
             Inl e \<Rightarrow> Inl e
           | Inr fh \<Rightarrow>
               if is_open fh
               then Inr (put_handle h \<lparr>file_index = -1, position = 0, is_open = False\<rparr> st)
               else Inr st))"

text \<open>
  The test that starts \<open>fs_read_file\<close>, \<open>fs_write_file\<close> and \<open>fs_seek_file\<close>: the open
  handle, the file system and the entry in use that the operation works on, \<open>None\<close> for the
  return value -1. \<open>buffer_ok\<close> says that the buffer is not null.
\<close>

definition fs_target ::
  "nat option \<Rightarrow> bool \<Rightarrow> fs_state \<Rightarrow> fault + (nat \<times> file_handle \<times> filesystem \<times> file_entry) option" where
  "fs_target handle buffer_ok st =
     (case handle of
        None \<Rightarrow> Inr None
      | Some h \<Rightarrow>
          (case handle_at h st of
             Inl e \<Rightarrow> Inl e
           | Inr fh \<Rightarrow>
               if \<not> is_open fh \<or> \<not> buffer_ok then Inr None
               else (case fs st of
                       None \<Rightarrow> Inr None
                     | Some f \<Rightarrow>
                         (case entry_at (file_index fh) f of
                            Inl e \<Rightarrow> Inl e
                          | Inr file \<Rightarrow>
                              if \<not> fe_in_use file then Inr None else Inr (Some (h, fh, f, file))))))"

definition fs_read_file ::
  "nat option \<Rightarrow> u8 list option \<Rightarrow> u32 \<Rightarrow> fs_state \<Rightarrow> fault + (int \<times> u8 list option \<times> fs_state)" where
  "fs_read_file handle buffer sz st =
     (case fs_target handle (buffer \<noteq> None) st of
        Inl e \<Rightarrow> Inl e
      | Inr None \<Rightarrow> Inr (-1, buffer, st)
      | Inr (Some (h, fh, f, file)) \<Rightarrow>
          if fe_size file \<le> position fh then Inr (0, buffer, st)
          else let available = fe_size file - position fh;
                   to_read = (if sz < available then sz else available)
               in (case fs_memcpy (the buffer) 0 (data_area f)
                          (unat (fe_data_offset file + position fh)) (unat to_read) of
                     Inl e \<Rightarrow> Inl e
                   | Inr buf \<Rightarrow> Inr (sint to_read, Some buf,
                       put_handle h (fh\<lparr>position := position fh + to_read\<rparr>) st)))"

definition fs_write_file ::
  "nat option \<Rightarrow> u8 list option \<Rightarrow> u32 \<Rightarrow> fs_state \<Rightarrow> fault + (int \<times> fs_state)" where
  "fs_write_file handle buffer sz st =
     (case fs_target handle (buffer \<noteq> None) st of
        Inl e \<Rightarrow> Inl e
      | Inr None \<Rightarrow> Inr (-1, st)
      | Inr (Some (h, fh, f, file)) \<Rightarrow>
          let sz = (if MAX_FILE_SIZE < position fh + sz then MAX_FILE_SIZE - position fh else sz)
          in if sz = 0 then Inr (0, st)
             else (case fs_memcpy (data_area f) (unat (fe_data_offset file + position fh))
                          (the buffer) 0 (unat sz) of
                     Inl e \<Rightarrow> Inl e
                   | Inr area \<Rightarrow>
                       let fh = fh\<lparr>position := position fh + sz\<rparr>;
                           f = f\<lparr>data_area := area\<rparr>;
                           f = (if fe_size file < position fh
                                then f\<lparr>used_size := used_size f + (position fh - fe_size file),
                                       files := (files f)[nat (file_index fh) := file\<lparr>fe_size := position fh\<rparr>]\<rparr>
                                else f)
                       in Inr (sint sz, (put_handle h fh st)\<lparr>fs := Some f\<rparr>)))"

definition fs_seek_file :: "nat option \<Rightarrow> u32 \<Rightarrow> fs_state \<Rightarrow> fault + (int \<times> fs_state)" where
  "fs_seek_file handle pos st =
     (case fs_target handle True st of
        Inl e \<Rightarrow> Inl e
      | Inr None \<Rightarrow> Inr (-1, st)
      | Inr (Some (h, fh, f, file)) \<Rightarrow>
          if fe_size file < pos then Inr (-1, st)
          else Inr (0, put_handle h (fh\<lparr>position := pos\<rparr>) st))"

section \<open>Reports\<close>

text \<open>
  The digits that the loops of \<open>fs_print_info\<close> produce from a signed \<open>num\<close>: none unless
  it is positive. Only the first two numbers have a case for zero.
\<close>

definition fs_digits :: "u32 \<Rightarrow> cchar list" where
  "fs_digits num = (if 0 < sint num then rev (digits_rev num) else [])"

definition fs_digits0 :: "u32 \<Rightarrow> cchar list" where
  "fs_digits0 num = (if num = 0 then [48] else fs_digits num)"

definition fs_print_info :: "fs_state \<Rightarrow> screen \<Rightarrow> screen" where
  "fs_print_info st s =
     (case fs st of
        None \<Rightarrow> screen_println (cstr ''File system not initialized!'') s
      | Some f \<Rightarrow>
          let s = screen_set_color VGA_COLOR_LIGHT_CYAN VGA_COLOR_BLACK s;
              s = screen_println (cstr ''File System Information:'') s;
              s = screen_set_color VGA_COLOR_WHITE VGA_COLOR_BLACK s;
              s = screen_print (cstr ''Total files: '') s;
              s = screen_print (fs_digits0 (total_files f)) s;
              s = screen_print (cstr '' / Used: '') s;
              s = screen_println (fs_digits0 (used_files f)) s;
              s = screen_print (cstr ''Total space: '') s;
              s = screen_print (fs_digits (total_size f)) s;
              s = screen_print (cstr '' bytes / Used: '') s;
              s = screen_print (fs_digits (used_size f)) s
          in screen_println (cstr '' bytes'') s)"

definition fs_list_entry :: "file_entry \<Rightarrow> screen \<Rightarrow> screen" where
  "fs_list_entry e s =
     (let s = (if fe_type e = FILE_TYPE_DIRECTORY
               then screen_print (cstr ''[DIR] '') (screen_set_color VGA_COLOR_LIGHT_BLUE VGA_COLOR_BLACK s)
               else screen_print (cstr ''[FILE]'') (screen_set_color VGA_COLOR_WHITE VGA_COLOR_BLACK s));
          s = screen_set_color VGA_COLOR_WHITE VGA_COLOR_BLACK s;
          s = screen_print (cstr '' '') s;
          s = screen_print (fe_name e) s;
          s = screen_print (cstr '' ('') s;
          s = screen_print (number_text (fe_size e)) s
      in screen_println (cstr '' bytes)'') s)"

definition fs_list_files :: "fs_state \<Rightarrow> screen \<Rightarrow> screen" where
  "fs_list_files st s =
     (case fs st of
        None \<Rightarrow> screen_println (cstr ''File system not initialized!'') s
      | Some f \<Rightarrow>
          let s = screen_set_color VGA_COLOR_LIGHT_CYAN VGA_COLOR_BLACK s;
              s = screen_println (cstr ''Directory Listing:'') s;
              s = screen_set_color VGA_COLOR_WHITE VGA_COLOR_BLACK s;
              (found_any, s) =
                fold (\<lambda>i (found_any, s). if fe_in_use (files f ! i)
                        then (True, fs_list_entry (files f ! i) s) else (found_any, s))
                  [0..<MAX_FILES] (False, s)
          in if found_any then s
             else screen_println (cstr ''No files found.'') (screen_set_color VGA_COLOR_YELLOW VGA_COLOR_BLACK s))"

section \<open>Initialisation\<close>

text \<open>\<open>sizeof(filesystem_t)\<close> on the 32-bit target: 16 + 32 * 36 + 32 * 1024.\<close>

abbreviation FS_SIZEOF :: u32 where "FS_SIZEOF \<equiv> 33936"

definition readme_text :: "cchar list" where
  "readme_text = cstr (''Welcome to TRAKOS File System!'' @ [CHR 0x0A]
     @ ''This is a simple in-memory file system.'' @ [CHR 0x0A]
     @ ''Use '' @ [CHR 0x27] @ ''ls'' @ [CHR 0x27] @ '' to list files.'')"

definition welcome_text :: "cchar list" where
  "welcome_text = cstr (''Hello from TRAKOS!'' @ [CHR 0x0A]
     @ ''This file system supports:'' @ [CHR 0x0A]
     @ ''- Create/delete files'' @ [CHR 0x0A]
     @ ''- Read/write operations'' @ [CHR 0x0A] @ ''- File listing'')"

text \<open>Opening a file, writing a text if that worked, and closing it, as \<open>fs_init\<close> does twice.\<close>

definition fs_fill :: "cchar list \<Rightarrow> cchar list \<Rightarrow> fs_state \<Rightarrow> fault + fs_state" where
  "fs_fill name content st =
     (case fs_open_file (Some name) st of
        (None, st) \<Rightarrow> Inr st
      | (Some h, st) \<Rightarrow>
          (case fs_write_file (Some h) (Some content) (of_nat (fs_strlen content)) st of
             Inl e \<Rightarrow> Inl e
           | Inr (_, st) \<Rightarrow> fs_close_file (Some h) st))"

definition fs_demo_files :: "timer \<Rightarrow> fs_state \<Rightarrow> fault + fs_state" where
  "fs_demo_files t st =
     (case fs_create_file (Some (cstr ''readme.txt'')) FILE_TYPE_REGULAR t st of Inl e \<Rightarrow> Inl e | Inr (_, st) \<Rightarrow>
     (case fs_create_file (Some (cstr ''welcome.txt'')) FILE_TYPE_REGULAR t st of Inl e \<Rightarrow> Inl e | Inr (_, st) \<Rightarrow>
     (case fs_create_file (Some (cstr ''docs'')) FILE_TYPE_DIRECTORY t st of Inl e \<Rightarrow> Inl e | Inr (_, st) \<Rightarrow>
     (case fs_fill (cstr ''readme.txt'') readme_text st of Inl e \<Rightarrow> Inl e | Inr st \<Rightarrow>
        fs_fill (cstr ''welcome.txt'') welcome_text st))))"

text \<open>
  \<open>kmalloc\<close> reserves the structure in the heap; the model keeps its contents in \<open>fs\<close>,
  apart from the bytes of the heap. \<open>None\<close> stands for a \<open>kmalloc\<close> that does not return.
\<close>

definition fs_init ::
  "timer \<Rightarrow> fs_state \<Rightarrow> heap \<Rightarrow> screen \<Rightarrow> (fault + (fs_state \<times> heap \<times> screen)) option" where
  "fs_init t st h s =
     (case kmalloc FS_SIZEOF h of
        None \<Rightarrow> None
      | Some (p, h) \<Rightarrow>
          if p = 0 then
            let s = screen_set_color VGA_COLOR_LIGHT_RED VGA_COLOR_BLACK s;
                s = screen_println (cstr ''Failed to allocate memory for file system!'') s
            in Some (Inr (st\<lparr>fs := None\<rparr>, h, s))
          else
            let f = zero_filesystem\<lparr>total_files := of_nat MAX_FILES, used_files := 0,
                      total_size := of_nat MAX_FILES * MAX_FILE_SIZE, used_size := 0\<rparr>;
                hs = map (\<lambda>_. \<lparr>file_index = -1, position = 0, is_open = False\<rparr>) [0..<8];
                st = st\<lparr>fs := Some f, file_handles := hs\<rparr>
            in Some (case fs_demo_files t st of Inl e \<Rightarrow> Inl e | Inr st \<Rightarrow> Inr (st, h, s)))"

end
