(* ===== verification/Shell_Commands.thy ===== *)
theory Shell_Commands imports Shell_Text Interrupts File_System begin

text \<open>
  The commands of the shell, \<open>shell_execute_command\<close> of src/drivers/shell/shell.c, one
  definition for each branch, over the state of the whole kernel.
\<close>

section \<open>The kernel state\<close>

text \<open>
  The drivers' machine with the heap and the file system. \<open>stack_bytes\<close> is what an
  uninitialised local array happens to hold, a parameter of the model.
\<close>

record kernel = machine +
  heap_state :: heap
  fsys :: fs_state
  stack_bytes :: "nat \<Rightarrow> cchar"

definition on_scr :: "(screen \<Rightarrow> screen) \<Rightarrow> 'm machine_scheme \<Rightarrow> 'm machine_scheme" where
  "on_scr f m = m\<lparr>scr := f (scr m)\<rparr>"

text \<open>A driver's \<open>keyboard_getchar\<close> on the machine.\<close>

definition machine_getchar :: "'m machine_scheme \<Rightarrow> (cchar \<times> 'm machine_scheme) option" where
  "machine_getchar m =
     (case keyboard_getchar (kbd m) (scr m) of
        None \<Rightarrow> None
      | Some (key, kb, s) \<Rightarrow> Some (key, m\<lparr>kbd := kb, scr := s\<rparr>))"

text \<open>An uninitialised local array.\<close>

definition local_array :: "nat \<Rightarrow> kernel \<Rightarrow> cchar list" where
  "local_array n k = map (stack_bytes k) [0..<n]"

section \<open>Commands that only report\<close>

text \<open>A run of \<open>screen_println\<close> calls, and one line in a colour.\<close>

definition println_all :: "string list \<Rightarrow> screen \<Rightarrow> screen" where
  "println_all ls s = fold (\<lambda>l s. screen_println (cstr l) s) ls s"

definition colored :: "u8 \<Rightarrow> string \<Rightarrow> screen \<Rightarrow> screen" where
  "colored fg l s = screen_println (cstr l) (screen_set_color fg VGA_COLOR_BLACK s)"

definition shell_help :: "screen \<Rightarrow> screen" where
  "shell_help s =
     (let s = colored VGA_COLOR_YELLOW ''Available commands:'' s; s = screen_set_color VGA_COLOR_WHITE VGA_COLOR_BLACK s
      in println_all
       [''  help      - Show this help message'',
        ''  clear     - Clear the screen'',
        ''  echo      - Echo text back'',
        ''  about     - Show system information'',
        ''  version   - Show kernel version'',
        ''  time      - Show system uptime'',
        ''  sleep     - Sleep for 2 seconds (demo)'',
        ''  calc      - Simple calculator (add 5+3)'',
        ''  colors    - Show color test'',
        ''  memory    - Show memory statistics'',
        ''  memtest   - Test memory allocation'',
        ''  ls        - List files in file system'',
        ''  cat <file> - Display file contents'',
        ''  create <file> - Create new file'',
        ''  delete <file> - Delete file'',
        ''  edit <file> - Edit file contents'',
        ''  copy <src> <dst> - Copy file'',
        ''  fsinfo    - Show file system information'',
        ''  ps        - Show system processes'',
        ''  uptime    - Show detailed system uptime'',
        ''  sysinfo   - Show complete system info'',
        ''  reboot    - Restart the system'',
        ''  memory    - Show memory statistics'',
        ''  memtest   - Test memory allocation'',
        ''  reboot    - Restart the system''] s)"

definition shell_version :: "screen \<Rightarrow> screen" where
  "shell_version s =
     (let s = colored VGA_COLOR_LIGHT_GREEN ''TRAKOS Kernel Version 1.0'' s; s = screen_set_color VGA_COLOR_WHITE VGA_COLOR_BLACK s
      in println_all [''Build date: 2024'', ''Features: Timer, Interrupts, Shell, Memory''] s)"

definition shell_about :: "screen \<Rightarrow> screen" where
  "shell_about s =
     (let s = colored VGA_COLOR_LIGHT_GREEN ''TRAKOS - Operating System'' s; s = screen_set_color VGA_COLOR_WHITE VGA_COLOR_BLACK s
      in println_all
       [''Version: 1.0'',
        ''Features: VGA Display, Keyboard, Shell, Timer, Memory'',
        ''Architecture: x86 32-bit'',
        ''Kernel: C with Assembly''] s)"

definition shell_calc :: "screen \<Rightarrow> screen" where
  "shell_calc s =
     (let s = colored VGA_COLOR_LIGHT_CYAN ''Simple Calculator Demo:'' s;
          s = screen_set_color VGA_COLOR_WHITE VGA_COLOR_BLACK s;
          s = screen_print (cstr ''5 + 3 = '') s;
          s = print_number (5 + 3) s;
          s = screen_println [] s;
          s = screen_print (cstr ''10 - 4 = '') s;
          s = print_number (10 - 4) s;
          s = screen_println [] s;
          s = screen_print (cstr ''6 * 7 = '') s;
          s = print_number (6 * 7) s;
          s = screen_println [] s;
          s = screen_print (cstr ''20 / 4 = '') s;
          s = print_number (20 div 4) s
      in screen_println [] s)"

definition shell_colors :: "screen \<Rightarrow> screen" where
  "shell_colors s =
     (let s = screen_print (cstr ''RED '') (screen_set_color VGA_COLOR_LIGHT_RED VGA_COLOR_BLACK s);
          s = screen_print (cstr ''GREEN '') (screen_set_color VGA_COLOR_LIGHT_GREEN VGA_COLOR_BLACK s);
          s = screen_print (cstr ''BLUE '') (screen_set_color VGA_COLOR_LIGHT_BLUE VGA_COLOR_BLACK s);
          s = screen_print (cstr ''YELLOW '') (screen_set_color VGA_COLOR_YELLOW VGA_COLOR_BLACK s);
          s = screen_print (cstr ''CYAN '') (screen_set_color VGA_COLOR_LIGHT_CYAN VGA_COLOR_BLACK s);
          s = screen_print (cstr ''MAGENTA'') (screen_set_color VGA_COLOR_LIGHT_MAGENTA VGA_COLOR_BLACK s)
      in screen_println [] (screen_set_color VGA_COLOR_WHITE VGA_COLOR_BLACK s))"

definition shell_time :: "u32 \<Rightarrow> screen \<Rightarrow> screen" where
  "shell_time ticks s =
     (let seconds = ticks div 100;
          minutes = seconds div 60;
          hours = minutes div 60;
          s = screen_set_color VGA_COLOR_LIGHT_CYAN VGA_COLOR_BLACK s;
          s = screen_print (cstr ''System uptime: '') s;
          s = (if 0 < hours then screen_print (cstr ''h '') (print_number hours s) else s);
          s = (if 0 < minutes mod 60 \<or> 0 < hours
               then screen_print (cstr ''m '') (print_number (minutes mod 60) s) else s);
          s = print_number (seconds mod 60) s;
          s = screen_println (cstr ''s'') s;
          s = screen_print (cstr ''Total ticks: '') s;
          s = print_number ticks s
      in screen_println [] s)"

definition shell_echo :: "screen \<Rightarrow> screen" where
  "shell_echo s =
     colored VGA_COLOR_LIGHT_CYAN (''Echo: Type something after '' @ [CHR 0x27] @ ''echo'' @ [CHR 0x27] @ '' command'') s"

definition shell_ps :: "screen \<Rightarrow> screen" where
  "shell_ps s =
     (let s = colored VGA_COLOR_LIGHT_CYAN ''System Processes:'' s; s = screen_set_color VGA_COLOR_WHITE VGA_COLOR_BLACK s
      in println_all
       [''  PID  NAME        STATUS   MEMORY'',
        ''   1   kernel      running   4MB'',
        ''   2   shell       running   1MB'',
        ''   3   filesystem  running   2MB'',
        ''   4   timer       running   <1MB'',
        ''Total: 4 processes''] s)"

definition shell_uptime :: "u32 \<Rightarrow> screen \<Rightarrow> screen" where
  "shell_uptime ticks s =
     (let seconds = ticks div 100;
          minutes = seconds div 60;
          hours = minutes div 60;
          days = hours div 24;
          s = colored VGA_COLOR_LIGHT_CYAN ''System Uptime Details:'' s;
          s = screen_set_color VGA_COLOR_WHITE VGA_COLOR_BLACK s;
          s = screen_print (cstr ''Total uptime: '') s;
          s = (if 0 < days then screen_print (cstr '' days, '') (print_number days s) else s);
          s = (if 0 < hours mod 24
               then screen_print (cstr '' hours, '') (print_number (hours mod 24) s) else s);
          s = print_number (minutes mod 60) s;
          s = screen_print (cstr '' minutes, '') s;
          s = print_number (seconds mod 60) s;
          s = screen_println (cstr '' seconds'') s;
          s = screen_print (cstr ''Timer ticks: '') s;
          s = print_number ticks s;
          s = screen_println (cstr '' (100Hz)'') s;
          s = screen_print (cstr ''Average load: '') s;
          s = print_number ((ticks mod 1000) div 10) s
      in screen_println (cstr ''%'') s)"

definition shell_sysinfo :: "screen \<Rightarrow> screen" where
  "shell_sysinfo s =
     (let s = colored VGA_COLOR_LIGHT_CYAN ''TRAKOS System Information:'' s; s = screen_set_color VGA_COLOR_WHITE VGA_COLOR_BLACK s
      in println_all
       [''OS Name: TRAKOS'',
        ''Version: 1.0 Enhanced'',
        ''Architecture: x86 32-bit'',
        ''Kernel: C with Assembly'',
        '''',
        ''Hardware:'',
        ''  CPU: x86 Compatible'',
        ''  Memory: 4MB heap + system'',
        ''  Display: VGA Text Mode 80x25'',
        ''  Timer: PIT 100Hz'',
        '''',
        ''Features:'',
        ''  - Interrupt-driven I/O'',
        ''  - Memory management'',
        ''  - File system (in-memory)'',
        ''  - Shell with 20+ commands'',
        ''  - Text editor'',
        ''  - Process simulation''] s)"

text \<open>Resetting the processor through the keyboard controller.\<close>

definition shell_reboot :: "screen \<Rightarrow> screen" where
  "shell_reboot s = outb 0x64 0xFE (colored VGA_COLOR_LIGHT_RED ''Rebooting system...'' s)"

definition shell_unknown :: "cchar list \<Rightarrow> screen \<Rightarrow> screen" where
  "shell_unknown command s =
     (let s = screen_set_color VGA_COLOR_LIGHT_RED VGA_COLOR_BLACK s;
          s = screen_print (cstr ''Unknown command: '') s;
          s = screen_println command s;
          s = screen_set_color VGA_COLOR_WHITE VGA_COLOR_BLACK s
      in screen_println (cstr (''Type '' @ [CHR 0x27] @ ''help'' @ [CHR 0x27] @ '' for available commands'')) s)"

section \<open>Memory test and sleeping\<close>

text \<open>\<open>None\<close>: the search of \<open>kmalloc\<close>, or the wait, does not return.\<close>

definition shell_memtest :: "kernel \<Rightarrow> kernel option" where
  "shell_memtest k =
     (let k = on_scr (colored VGA_COLOR_LIGHT_CYAN ''Memory Allocation Test:'') k;
          k = on_scr (screen_set_color VGA_COLOR_WHITE VGA_COLOR_BLACK) k
      in case kmalloc 1024 (heap_state k) of None \<Rightarrow> None | Some (ptr1, h) \<Rightarrow>
         let k = k\<lparr>heap_state := h\<rparr>;
             k = on_scr (screen_print (cstr ''Allocated 1024 bytes at: 0x'')) k;
             k = on_scr (print_hex ptr1) k;
             k = on_scr (screen_println []) k
         in case kmalloc 2048 (heap_state k) of None \<Rightarrow> None | Some (ptr2, h) \<Rightarrow>
            let k = k\<lparr>heap_state := h\<rparr>;
                k = on_scr (screen_print (cstr ''Allocated 2048 bytes at: 0x'')) k;
                k = on_scr (print_hex ptr2) k;
                k = on_scr (screen_println []) k;
                k = on_scr (screen_println (cstr ''Freeing first allocation...'')) k;
                k = k\<lparr>heap_state := kfree ptr1 (heap_state k)\<rparr>;
                k = on_scr (screen_println (cstr ''Freeing second allocation...'')) k;
                k = k\<lparr>heap_state := kfree ptr2 (heap_state k)\<rparr>
            in Some (on_scr (screen_println (cstr ''Memory test complete!'')) k))"

definition shell_sleep :: "kernel \<Rightarrow> kernel option" where
  "shell_sleep k =
     (let k = on_scr (colored VGA_COLOR_YELLOW ''Sleeping for 2 seconds...'') k
      in case timer_sleep 2000 k of
           None \<Rightarrow> None
         | Some k \<Rightarrow> Some (on_scr (screen_println (cstr ''Done sleeping!'')) k))"

end
