(* ===== verification/Shell_Files.thy ===== *)
theory Shell_Files imports Shell_Commands begin

text \<open>
  The file commands of the shell with its line editor, the dispatch of
  \<open>shell_execute_command\<close>, and the loop of \<open>shell_run\<close>, src/drivers/shell/shell.c.
\<close>

section \<open>cat, create, delete\<close>

text \<open>Three prints around a file name; the quote character is part of the texts.\<close>

definition quoted :: "string \<Rightarrow> cchar list \<Rightarrow> string \<Rightarrow> screen \<Rightarrow> screen" where
  "quoted before name after s =
     screen_println (cstr after) (screen_print name (screen_print (cstr before) s))"

text \<open>
  Outcomes: a fault, or the state the command leaves. The fault is an access past an array.
\<close>

definition shell_cat :: "nat \<Rightarrow> cchar list \<Rightarrow> kernel \<Rightarrow> fault + kernel" where
  "shell_cat parts argument k =
     (if parts < 2 then Inr (on_scr (colored VGA_COLOR_LIGHT_RED ''Usage: cat <filename>'') k)
      else case fs_open_file (Some argument) (fsys k) of
        (Some file, st) \<Rightarrow>
          let k = k\<lparr>fsys := st\<rparr>;
              k = on_scr (screen_set_color VGA_COLOR_LIGHT_CYAN VGA_COLOR_BLACK) k;
              k = on_scr (quoted ''Content of '' argument '':'') k;
              k = on_scr (screen_set_color VGA_COLOR_WHITE VGA_COLOR_BLACK) k
          in (case fs_read_file (Some file) (Some (local_array 512 k)) (512 - 1) (fsys k) of
                Inl e \<Rightarrow> Inl e
              | Inr (bytes_read, buffer, st) \<Rightarrow>
                  let k = k\<lparr>fsys := st\<rparr>
                  in (case (if 0 < bytes_read
                            then (case store_char (the buffer) (nat bytes_read) 0 of
                                    Inl e \<Rightarrow> Inl e
                                  | Inr buffer \<Rightarrow> Inr (on_scr (screen_println (string_in buffer)) k))
                            else Inr (on_scr (screen_println (cstr ''File is empty or error reading file.'')) k)) of
                        Inl e \<Rightarrow> Inl e
                      | Inr k \<Rightarrow>
                          (case fs_close_file (Some file) (fsys k) of
                             Inl e \<Rightarrow> Inl e
                           | Inr st \<Rightarrow> Inr (k\<lparr>fsys := st\<rparr>))))
      | (None, st) \<Rightarrow>
          let k = k\<lparr>fsys := st\<rparr>;
              k = on_scr (screen_set_color VGA_COLOR_LIGHT_RED VGA_COLOR_BLACK) k
          in Inr (on_scr (quoted (''File '' @ [CHR 0x27]) argument ([CHR 0x27] @ '' not found!'')) k))"

definition new_file_text :: "cchar list" where
  "new_file_text = cstr (''New file created by TRAKOS!'' @ [CHR 0x0A]
     @ ''Edit this file with '' @ [CHR 0x27] @ ''edit filename'' @ [CHR 0x27])"

definition shell_create :: "nat \<Rightarrow> cchar list \<Rightarrow> kernel \<Rightarrow> fault + kernel" where
  "shell_create parts argument k =
     (if parts < 2 then Inr (on_scr (colored VGA_COLOR_LIGHT_RED ''Usage: create <filename>'') k)
      else case fs_create_file (Some argument) FILE_TYPE_REGULAR (tmr k) (fsys k) of
        Inl e \<Rightarrow> Inl e
      | Inr (result, st) \<Rightarrow>
          let k = k\<lparr>fsys := st\<rparr>
          in if 0 \<le> result then
               let k = on_scr (screen_set_color VGA_COLOR_LIGHT_GREEN VGA_COLOR_BLACK) k;
                   k = on_scr (quoted (''Created file '' @ [CHR 0x27]) argument ([CHR 0x27] @ '' successfully!'')) k
               in (case fs_open_file (Some argument) (fsys k) of
                     (None, st) \<Rightarrow> Inr (k\<lparr>fsys := st\<rparr>)
                   | (Some file, st) \<Rightarrow>
                       (case fs_write_file (Some file) (Some new_file_text) (of_nat (strlen new_file_text)) st of
                          Inl e \<Rightarrow> Inl e
                        | Inr (_, st) \<Rightarrow>
                            (case fs_close_file (Some file) st of
                               Inl e \<Rightarrow> Inl e
                             | Inr st \<Rightarrow> Inr (on_scr (screen_println (cstr ''Added default content to the file.''))
                                              (k\<lparr>fsys := st\<rparr>)))))
             else
               let k = on_scr (screen_set_color VGA_COLOR_LIGHT_RED VGA_COLOR_BLACK) k
               in if result = -2
                  then Inr (on_scr (quoted (''File '' @ [CHR 0x27]) argument ([CHR 0x27] @ '' already exists!'')) k)
                  else Inr (on_scr (screen_println (cstr ''Failed to create file!'')) k))"

definition shell_delete :: "nat \<Rightarrow> cchar list \<Rightarrow> kernel \<Rightarrow> kernel" where
  "shell_delete parts argument k =
     (if parts < 2 then on_scr (colored VGA_COLOR_LIGHT_RED ''Usage: delete <filename>'') k
      else let (result, st) = fs_delete_file (Some argument) (fsys k);
               k = k\<lparr>fsys := st\<rparr>
           in if result = 0 then
                let k = on_scr (screen_set_color VGA_COLOR_LIGHT_GREEN VGA_COLOR_BLACK) k
                in on_scr (quoted (''Deleted file '' @ [CHR 0x27]) argument ([CHR 0x27] @ '' successfully!'')) k
              else
                let k = on_scr (screen_set_color VGA_COLOR_LIGHT_RED VGA_COLOR_BLACK) k
                in on_scr (quoted (''File '' @ [CHR 0x27]) argument
                     ([CHR 0x27] @ '' not found or error deleting!'')) k)"

section \<open>The line editor\<close>

text \<open>One key that is not Escape: the text array, the position in it, and the screen.\<close>

definition edit_key :: "cchar \<Rightarrow> cchar list \<Rightarrow> nat \<Rightarrow> screen \<Rightarrow> fault + (cchar list \<times> nat \<times> screen)" where
  "edit_key key content pos s =
     (if key = 10 then
        (case store_char content pos 10 of
           Inl e \<Rightarrow> Inl e
         | Inr content \<Rightarrow> Inr (content, pos + 1, screen_println [] s))
      else if key = 8 then
        (if 0 < pos then Inr (content, pos - 1, screen_print [8, 32, 8] s) else Inr (content, pos, s))
      else if 32 \<le> sint key \<and> sint key \<le> 126 then
        (case store_char content pos key of
           Inl e \<Rightarrow> Inl e
         | Inr content \<Rightarrow> Inr (content, pos + 1, screen_print [key] s))
      else Inr (content, pos, s))"

partial_function (option) edit_loop ::
  "cchar list \<Rightarrow> nat \<Rightarrow> 'm machine_scheme \<Rightarrow> (fault + (cchar list \<times> nat \<times> 'm machine_scheme)) option" where
  "edit_loop content pos m =
     (if pos < 512 - 1 then
        (case machine_getchar m of
           None \<Rightarrow> None
         | Some (key, m) \<Rightarrow>
             if key = 27 then Some (Inr (content, pos, m))
             else (case edit_key key content pos (scr m) of
                     Inl e \<Rightarrow> Some (Inl e)
                   | Inr (content, pos, s) \<Rightarrow> edit_loop content pos (m\<lparr>scr := s\<rparr>)))
      else Some (Inr (content, pos, m)))"

text \<open>What follows the loop: the file is created anew, replacing one of that name, and filled.\<close>

definition edit_write :: "cchar list \<Rightarrow> cchar list \<Rightarrow> nat \<Rightarrow> int \<Rightarrow> kernel \<Rightarrow> fault + kernel" where
  "edit_write argument content pos result k =
     (if 0 \<le> result then
        (case fs_open_file (Some argument) (fsys k) of
           (None, st) \<Rightarrow> Inr (k\<lparr>fsys := st\<rparr>)
         | (Some file, st) \<Rightarrow>
             (case fs_write_file (Some file) (Some content) (of_nat pos) st of
                Inl e \<Rightarrow> Inl e
              | Inr (_, st) \<Rightarrow>
                  (case fs_close_file (Some file) st of
                     Inl e \<Rightarrow> Inl e
                   | Inr st \<Rightarrow>
                       let k = k\<lparr>fsys := st\<rparr>;
                           k = on_scr (screen_println []) k;
                           k = on_scr (screen_set_color VGA_COLOR_LIGHT_GREEN VGA_COLOR_BLACK) k
                       in Inr (on_scr (quoted (''File '' @ [CHR 0x27]) argument
                            ([CHR 0x27] @ '' saved successfully!'')) k))))
      else Inr k)"

definition edit_save :: "cchar list \<Rightarrow> cchar list \<Rightarrow> nat \<Rightarrow> kernel \<Rightarrow> fault + kernel" where
  "edit_save argument content pos k =
     (case fs_create_file (Some argument) FILE_TYPE_REGULAR (tmr k) (fsys k) of
        Inl e \<Rightarrow> Inl e
      | Inr (result, st) \<Rightarrow>
          (case (if result = -2
                 then fs_create_file (Some argument) FILE_TYPE_REGULAR (tmr k)
                        (snd (fs_delete_file (Some argument) st))
                 else Inr (result, st)) of
             Inl e \<Rightarrow> Inl e
           | Inr (result, st) \<Rightarrow> edit_write argument content pos result (k\<lparr>fsys := st\<rparr>)))"

definition shell_edit :: "nat \<Rightarrow> cchar list \<Rightarrow> kernel \<Rightarrow> (fault + kernel) option" where
  "shell_edit parts argument k =
     (if parts < 2 then Some (Inr (on_scr (colored VGA_COLOR_LIGHT_RED ''Usage: edit <filename>'') k))
      else
        let k = on_scr (screen_set_color VGA_COLOR_LIGHT_CYAN VGA_COLOR_BLACK) k;
            k = on_scr (screen_print (cstr ''Simple Text Editor for: '')) k;
            k = on_scr (screen_println argument) k;
            k = on_scr (screen_set_color VGA_COLOR_WHITE VGA_COLOR_BLACK) k;
            k = on_scr (screen_println (cstr ''Type your text (press ESC when done):'')) k;
            k = on_scr (screen_println (cstr ''---'')) k
        in case edit_loop (replicate 512 0) 0 k of
             None \<Rightarrow> None
           | Some (Inl e) \<Rightarrow> Some (Inl e)
           | Some (Inr (content, pos, k)) \<Rightarrow> Some (edit_save argument content pos k))"

section \<open>The dispatch\<close>

definition done_scr :: "(screen \<Rightarrow> screen) \<Rightarrow> kernel \<Rightarrow> (fault + kernel) option" where
  "done_scr f k = Some (Inr (on_scr f k))"

definition run_command :: "nat \<Rightarrow> cchar list \<Rightarrow> cchar list \<Rightarrow> kernel \<Rightarrow> (fault + kernel) option" where
  "run_command parts command argument k =
     (let is = (\<lambda>name. strcmp command (cstr name) = 0)
      in if is ''help'' then done_scr shell_help k
         else if is ''clear'' then done_scr screen_clear k
         else if is ''version'' then done_scr shell_version k
         else if is ''about'' then done_scr shell_about k
         else if is ''calc'' then done_scr shell_calc k
         else if is ''colors'' then done_scr shell_colors k
         else if is ''memory'' then done_scr (memory_print_stats (heap_state k)) k
         else if is ''memtest'' then map_option Inr (shell_memtest k)
         else if is ''time'' then done_scr (shell_time (timer_get_ticks (tmr k))) k
         else if is ''sleep'' then map_option Inr (shell_sleep k)
         else if is ''echo'' then done_scr shell_echo k
         else if is ''ls'' then done_scr (fs_list_files (fsys k)) k
         else if is ''fsinfo'' then done_scr (fs_print_info (fsys k)) k
         else if is ''cat'' then Some (shell_cat parts argument k)
         else if is ''create'' then Some (shell_create parts argument k)
         else if is ''delete'' then Some (Inr (shell_delete parts argument k))
         else if is ''edit'' then shell_edit parts argument k
         else if is ''ps'' then done_scr shell_ps k
         else if is ''uptime'' then done_scr (shell_uptime (timer_get_ticks (tmr k))) k
         else if is ''sysinfo'' then done_scr shell_sysinfo k
         else if is ''reboot'' then done_scr shell_reboot k
         else if str_at command 0 = 0 then Some (Inr k)
         else done_scr (shell_unknown command) k)"

definition shell_execute_command :: "cchar list \<Rightarrow> kernel \<Rightarrow> (fault + kernel) option" where
  "shell_execute_command input k =
     (case parse_command input of
        Inl e \<Rightarrow> Some (Inl e)
      | Inr (parts, command, argument) \<Rightarrow> run_command parts command argument k)"

section \<open>The shell loop\<close>

abbreviation SHELL_BUFFER_SIZE :: nat where "SHELL_BUFFER_SIZE \<equiv> 256"

text \<open>The local variables of \<open>shell_run\<close>.\<close>

record shell_line =
  command_buffer :: "cchar list"
  buffer_index :: nat

text \<open>Removing the last character, for Backspace and Delete alike.\<close>

definition erase_key :: "shell_line \<Rightarrow> kernel \<Rightarrow> fault + (shell_line \<times> kernel)" where
  "erase_key l k =
     (if 0 < buffer_index l then
        (case store_char (command_buffer l) (buffer_index l - 1) 0 of
           Inl e \<Rightarrow> Inl e
         | Inr buf \<Rightarrow> Inr (\<lparr>command_buffer = buf, buffer_index = buffer_index l - 1\<rparr>,
                            on_scr (screen_print [8, 32, 8]) k))
      else Inr (l, k))"

text \<open>The body of the loop for one key.\<close>

definition shell_key :: "cchar \<Rightarrow> shell_line \<Rightarrow> kernel \<Rightarrow> (fault + (shell_line \<times> kernel)) option" where
  "shell_key key l k =
     (if key = 0 then Some (Inr (l, k))
      else if key = 10 then
        (case store_char (command_buffer l) (buffer_index l) 0 of
           Inl e \<Rightarrow> Some (Inl e)
         | Inr buf \<Rightarrow>
             (case shell_execute_command (string_in buf) (on_scr (screen_println []) k) of
                None \<Rightarrow> None
              | Some (Inl e) \<Rightarrow> Some (Inl e)
              | Some (Inr k) \<Rightarrow> Some (Inr (\<lparr>command_buffer = buf, buffer_index = 0\<rparr>,
                                          on_scr shell_print_prompt k))))
      else if key = 8 then Some (erase_key l k)
      else if key = 0x7F then Some (erase_key l k)
      else if key = 9 then
        Some (case store_char (command_buffer l) (buffer_index l) 0 of
           Inl e \<Rightarrow> Inl e
         | Inr buf \<Rightarrow>
             (case tab_complete buf (buffer_index l) (scr k) of
                Inl e \<Rightarrow> Inl e
              | Inr (buf, len, s) \<Rightarrow> Inr (\<lparr>command_buffer = buf, buffer_index = len\<rparr>, k\<lparr>scr := s\<rparr>)))
      else if 32 \<le> sint key \<and> sint key < 127 \<and> buffer_index l < SHELL_BUFFER_SIZE - 1 then
        Some (case store_char (command_buffer l) (buffer_index l) key of
           Inl e \<Rightarrow> Inl e
         | Inr buf \<Rightarrow> Inr (\<lparr>command_buffer = buf, buffer_index = buffer_index l + 1\<rparr>,
                            on_scr (screen_print [key]) k))
      else Some (Inr (l, k)))"

text \<open>One round of the loop, which never ends, and the rounds that have been run.\<close>

definition shell_round :: "shell_line \<times> kernel \<Rightarrow> (fault + (shell_line \<times> kernel)) option" where
  "shell_round = (\<lambda>(l, k).
     case machine_getchar k of
       None \<Rightarrow> None
     | Some (key, k) \<Rightarrow> shell_key key l k)"

text \<open>The state in which \<open>shell_run\<close> enters its loop.\<close>

definition shell_run_start :: "kernel \<Rightarrow> shell_line \<times> kernel" where
  "shell_run_start k =
     (\<lparr>command_buffer = local_array SHELL_BUFFER_SIZE k, buffer_index = 0\<rparr>, on_scr shell_print_prompt k)"

inductive shell_step :: "shell_line \<times> kernel \<Rightarrow> shell_line \<times> kernel \<Rightarrow> bool" where
  round: "shell_round x = Some (Inr y) \<Longrightarrow> shell_step x y"

code_pred shell_step .

end
