(* ===== verification/File_Properties.thy ===== *)
theory File_Properties imports File_System begin

text \<open>
  The properties of src/lib/filesystem.c: the invariant of the file table and the handles,
  the abstract view of the file system as a map from names to contents, the contract of a
  file store as an interface with its interpretation on the operations, and the properties
  that rest on them.
\<close>

section \<open>Helpers\<close>

lemma fs_strcmp_eq: "0 \<notin> set a \<Longrightarrow> 0 \<notin> set b \<Longrightarrow> fs_strcmp a b = 0 \<longleftrightarrow> a = b"
proof (induction a b rule: fs_strcmp.induct)
  case (1 a s1 b s2)
  then show ?case by (cases "a = b") (auto dest: word_uint_eq_iff [THEN iffD2])
qed (auto simp: uint_0_iff)

lemma fs_strlen_length [simp]: "fs_strlen s = length s"
  by (induction s) auto

lemma fs_memcpy_closed:
  "d + n \<le> length dest \<Longrightarrow> s + n \<le> length src \<Longrightarrow>
     fs_memcpy dest d src s n = Inr (take d dest @ take n (drop s src) @ drop (d + n) dest)"
proof (induction n arbitrary: dest d s)
  case 0
  then show ?case by simp
next
  case (Suc n)
  then have IH: "fs_memcpy (dest[d := src ! s]) (Suc d) src (Suc s) n =
      Inr (take (Suc d) (dest[d := src ! s]) @ take n (drop (Suc s) src) @ drop (Suc d + n) (dest[d := src ! s]))"
    by (intro Suc.IH) auto
  have "take (Suc d) (dest[d := src ! s]) = take d dest @ [src ! s]"
    using Suc.prems by (simp add: take_Suc_conv_app_nth)
  moreover have "take (Suc n) (drop s src) = src ! s # take n (drop (Suc s) src)"
    using Suc.prems by (simp add: Cons_nth_drop_Suc [symmetric])
  ultimately show ?case using Suc.prems IH by simp
qed

lemma fs_memcpy_fault:
  "0 < n \<Longrightarrow> length dest < d + n \<or> length src < s + n \<Longrightarrow> fs_memcpy dest d src s n = Inl Out_Of_Bounds"
proof (induction n arbitrary: dest d s)
  case (Suc n)
  show ?case
  proof (cases n)
    case 0
    then show ?thesis using Suc.prems by auto
  next
    case (Suc k)
    then show ?thesis using Suc.IH [of "dest[d := src ! s]" "Suc d" "Suc s"] Suc.prems by auto
  qed
qed simp

section \<open>Invariant\<close>

definition entry_ok :: "nat \<Rightarrow> file_entry \<Rightarrow> bool" where
  "entry_ok i e \<longleftrightarrow> (fe_in_use e \<longrightarrow> fe_data_offset e = of_nat (i * 1024) \<and> unat (fe_size e) \<le> 1024
     \<and> length (fe_name e) < 16 \<and> 0 \<notin> set (fe_name e))"

definition in_use :: "filesystem \<Rightarrow> nat \<Rightarrow> bool" where
  "in_use f i \<longleftrightarrow> i < 32 \<and> fe_in_use (files f ! i)"

definition table_ok :: "filesystem \<Rightarrow> bool" where
  "table_ok f \<longleftrightarrow> length (files f) = 32 \<and> length (data_area f) = 32768
     \<and> (\<forall>i < 32. entry_ok i (files f ! i))
     \<and> inj_on (\<lambda>i. fe_name (files f ! i)) (Collect (in_use f))
     \<and> total_files f = 32 \<and> total_size f = 32768
     \<and> used_files f = of_nat (card (Collect (in_use f)))"

definition handle_ok :: "file_handle \<Rightarrow> bool" where
  "handle_ok fh \<longleftrightarrow> (is_open fh \<longrightarrow>
     0 \<le> file_index fh \<and> file_index fh < 32 \<and> unat (position fh) \<le> 1024)"

definition fs_inv :: "fs_state \<Rightarrow> bool" where
  "fs_inv st \<longleftrightarrow> (case fs st of None \<Rightarrow> True | Some f \<Rightarrow> table_ok f)
     \<and> length (file_handles st) = 8 \<and> list_all handle_ok (file_handles st)"

text \<open>The file system as a map from names to contents.\<close>

definition file_bytes :: "filesystem \<Rightarrow> nat \<Rightarrow> u8 list" where
  "file_bytes f i = take (unat (fe_size (files f ! i))) (drop (i * 1024) (data_area f))"

definition c_string :: "cchar list \<Rightarrow> bool" where
  "c_string s \<longleftrightarrow> 0 \<notin> set s"

definition lookup :: "filesystem \<Rightarrow> cchar list \<Rightarrow> u8 list option" where
  "lookup f name = (if c_string name then map_option (file_bytes f) (fs_find name f) else None)"

definition fs_content :: "fs_state \<Rightarrow> cchar list \<Rightarrow> u8 list option" where
  "fs_content st = (case fs st of None \<Rightarrow> (\<lambda>_. None) | Some f \<Rightarrow> lookup f)"

lemma finite_in_use [simp]: "finite (Collect (in_use f))"
  by (rule finite_subset [of _ "{..<32}"]) (auto simp: in_use_def)

lemma fs_find_iff:
  assumes "table_ok f" and "c_string name"
  shows "fs_find name f = Some i \<longleftrightarrow> in_use f i \<and> fe_name (files f ! i) = name"
proof -
  have eq: "fs_strcmp (fe_name (files f ! j)) name = 0 \<longleftrightarrow> fe_name (files f ! j) = name"
    if "in_use f j" for j
    using assms that by (intro fs_strcmp_eq) (auto simp: table_ok_def entry_ok_def in_use_def c_string_def)
  have inj: "j = k" if "in_use f j" "in_use f k" "fe_name (files f ! j) = fe_name (files f ! k)" for j k
    using assms(1) that by (auto simp: table_ok_def inj_on_def)
  show ?thesis
  proof
    assume "fs_find name f = Some i"
    then have "i < 32" "fe_in_use (files f ! i)" "fs_strcmp (fe_name (files f ! i)) name = 0"
      by (auto simp: fs_find_def find_Some_iff)
    then show "in_use f i \<and> fe_name (files f ! i) = name" using eq [of i] by (simp add: in_use_def)
  next
    assume i: "in_use f i \<and> fe_name (files f ! i) = name"
    then have first: "j = i" if "in_use f j" "fs_strcmp (fe_name (files f ! j)) name = 0" for j
      using inj [of j i] eq [of j] that i by auto
    have "i < 32" "fe_in_use (files f ! i)" "fs_strcmp (fe_name (files f ! i)) name = 0"
      using i eq [of i] by (auto simp: in_use_def)
    moreover have "\<not> (fe_in_use (files f ! j) \<and> fs_strcmp (fe_name (files f ! j)) name = 0)"
      if "j < i" for j
      using first [of j] that calculation(1) by (auto simp: in_use_def)
    ultimately show "fs_find name f = Some i"
      unfolding fs_find_def find_Some_iff by (intro exI [of _ i]) simp
  qed
qed

lemma fs_find_None:
  assumes "table_ok f" and "c_string name"
  shows "fs_find name f = None \<longleftrightarrow> (\<forall>i. in_use f i \<longrightarrow> fe_name (files f ! i) \<noteq> name)"
  using fs_find_iff [OF assms] by (metis not_None_eq)

lemma in_use_subset: "Collect (in_use f) \<subseteq> {..<32}"
  by (auto simp: in_use_def)

lemma card_in_use: "card (Collect (in_use f)) \<le> 32"
  using card_mono [OF finite_lessThan in_use_subset, of f] by (simp only: card_lessThan)

text \<open>A slot is free exactly when fewer than 32 are in use, and the search finds one.\<close>

lemma find_free:
  "find (\<lambda>i. \<not> fe_in_use (files f ! i)) [0..<32] = None \<longleftrightarrow> card (Collect (in_use f)) = 32"
proof -
  have "find (\<lambda>i. \<not> fe_in_use (files f ! i)) [0..<32] = None \<longleftrightarrow> Collect (in_use f) = {..<32}"
    unfolding find_None_iff in_use_def set_upt set_eq_iff mem_Collect_eq lessThan_iff atLeastLessThan_iff
    by blast
  also have "\<dots> \<longleftrightarrow> card (Collect (in_use f)) = card {..<32 :: nat}"
  proof
    show "Collect (in_use f) = {..<32} \<Longrightarrow> card (Collect (in_use f)) = card {..<32 :: nat}"
      by (rule arg_cong)
    show "card (Collect (in_use f)) = card {..<32 :: nat} \<Longrightarrow> Collect (in_use f) = {..<32}"
      by (rule card_subset_eq [OF finite_lessThan in_use_subset])
  qed
  finally show ?thesis by (simp only: card_lessThan)
qed

lemma find_free_Some:
  assumes "find (\<lambda>i. \<not> fe_in_use (files f ! i)) [0..<32] = Some i"
  shows "i < 32 \<and> \<not> in_use f i"
proof -
  have "i \<in> set [0..<32]" and "\<not> fe_in_use (files f ! i)"
    using assms by (metis find_Some_iff nth_mem)+
  then show ?thesis by (simp add: in_use_def)
qed

text \<open>Changing one entry of the table changes the map at its old and its new name only.\<close>

lemma lookup_update:
  assumes "table_ok f" and "table_ok f'"
    and same: "\<And>j. j \<noteq> i \<Longrightarrow> files f' ! j = files f ! j \<and> (in_use f j \<longrightarrow> file_bytes f' j = file_bytes f j)"
  shows "lookup f' n =
    (if in_use f' i \<and> fe_name (files f' ! i) = n then Some (file_bytes f' i)
     else if in_use f i \<and> fe_name (files f ! i) = n then None else lookup f n)"
proof (cases "c_string n")
  case False
  then have "\<not> (in_use f' i \<and> fe_name (files f' ! i) = n)"
    using assms(2) by (auto simp: table_ok_def entry_ok_def in_use_def c_string_def)
  then show ?thesis using False by (simp add: lookup_def)
next
  case True
  note find = fs_find_iff [OF assms(1) True] and find' = fs_find_iff [OF assms(2) True]
  have other: "in_use f' j \<longleftrightarrow> in_use f j" if "j \<noteq> i" for j
    using same [OF that] by (simp add: in_use_def)
  consider (new) "in_use f' i" "fe_name (files f' ! i) = n"
    | (old) "in_use f i" "fe_name (files f ! i) = n" "\<not> (in_use f' i \<and> fe_name (files f' ! i) = n)"
    | (neither) "\<not> (in_use f' i \<and> fe_name (files f' ! i) = n)" "\<not> (in_use f i \<and> fe_name (files f ! i) = n)"
    by blast
  then show ?thesis
  proof cases
    case new
    then have "fs_find n f' = Some i" by (simp add: find')
    then show ?thesis using new True by (simp add: lookup_def)
  next
    case old
    then have "fs_find n f = Some i" by (simp add: find)
    have "fs_find n f' \<noteq> Some j" for j
    proof
      assume "fs_find n f' = Some j"
      then have j: "in_use f' j" "fe_name (files f' ! j) = n" by (simp_all add: find')
      then have "j \<noteq> i" using old by auto
      then have "fs_find n f = Some j" using j other same by (simp add: find)
      then show False using \<open>fs_find n f = Some i\<close> \<open>j \<noteq> i\<close> by simp
    qed
    then have "fs_find n f' = None" by (cases "fs_find n f'") auto
    then show ?thesis using old True by (auto simp: lookup_def)
  next
    case neither
    have iff: "fs_find n f' = Some j \<longleftrightarrow> fs_find n f = Some j" for j
      unfolding find find' using neither other [of j] same [of j] by (cases "j = i") auto
    have "fs_find n f' = fs_find n f"
      using iff by (metis not_None_eq)
    moreover have "file_bytes f' j = file_bytes f j" if "fs_find n f = Some j" for j
      using that same [of j] neither by (cases "j = i") (auto simp: find)
    ultimately have "lookup f' n = lookup f n"
      using True by (cases "fs_find n f") (simp_all add: lookup_def)
    then show ?thesis using neither by (simp only: if_False)
  qed
qed

text \<open>Writing \<open>b\<close> at offset \<open>p\<close> of the 1024-byte block of file \<open>i\<close>.\<close>

definition patch :: "u8 list \<Rightarrow> nat \<Rightarrow> u8 list \<Rightarrow> u8 list" where
  "patch a d b = take d a @ b @ drop (d + length b) a"

lemma length_patch [simp]: "d + length b \<le> length a \<Longrightarrow> length (patch a d b) = length a"
  by (simp add: patch_def)

lemma nth_patch:
  "d + length b \<le> length a \<Longrightarrow> k < length a \<Longrightarrow>
     patch a d b ! k = (if d \<le> k \<and> k < d + length b then b ! (k - d) else a ! k)"
  by (auto simp: patch_def nth_append min_def)

lemma patch_other_block:
  assumes "j \<noteq> i" and "k \<le> 1024" and "p + length b \<le> 1024"
    and "i * 1024 + 1024 \<le> length a" and "j * 1024 + 1024 \<le> length a"
  shows "take k (drop (j * 1024) (patch a (i * 1024 + p) b)) = take k (drop (j * 1024) a)"
proof (rule nth_equalityI)
  show "length (take k (drop (j * 1024) (patch a (i * 1024 + p) b))) = length (take k (drop (j * 1024) a))"
    using assms by simp
  fix x assume "x < length (take k (drop (j * 1024) (patch a (i * 1024 + p) b)))"
  then have x: "x < 1024" "x < k" using assms(2,3,4) by auto
  have "j < i \<or> i < j" using assms(1) by auto
  then have "j * 1024 + x < i * 1024 \<or> i * 1024 + 1024 \<le> j * 1024 + x" using x(1) by auto
  then show "take k (drop (j * 1024) (patch a (i * 1024 + p) b)) ! x = take k (drop (j * 1024) a) ! x"
    using assms x by (auto simp: nth_patch)
qed

lemma patch_own_block:
  assumes "p \<le> s" and "s \<le> 1024" and "p + length b \<le> 1024" and "i * 1024 + 1024 \<le> length a"
  shows "take (max s (p + length b)) (drop (i * 1024) (patch a (i * 1024 + p) b))
    = take p (take s (drop (i * 1024) a)) @ b @ drop (p + length b) (take s (drop (i * 1024) a))"
    (is "?l = ?r")
proof (rule nth_equalityI)
  show "length ?l = length ?r" using assms by (auto simp: min_def max_def)
  fix x assume "x < length ?l"
  then have x: "x < max s (p + length b)" "x < 1024" using assms by auto
  have "?l ! x = (if p \<le> x \<and> x < p + length b then b ! (x - p) else a ! (i * 1024 + x))"
    using assms x by (auto simp: nth_patch)
  also have "\<dots> = ?r ! x"
  proof -
    consider "x < p" | "p \<le> x" "x < p + length b" | "p + length b \<le> x" "x < s"
      using x by linarith
    then show ?thesis
    proof cases
      case 1
      then show ?thesis using assms by (simp add: nth_append)
    next
      case 2
      then have "x - p < length b" by linarith
      then show ?thesis using 2 assms by (simp add: nth_append)
    next
      case 3
      then have "\<not> x - p < length b" by linarith
      then show ?thesis using 3 assms by (simp add: nth_append)
    qed
  qed
  finally show "?l ! x = ?r ! x" .
qed

section \<open>The file store interface\<close>

text \<open>
  What a client of the file system relies on: \<open>content\<close> maps names to contents,
  \<open>cursor\<close> gives the file and the position of an open handle, and the operations change
  these two as their names say. \<open>free\<close> counts the files that can still be created.
\<close>

locale file_store =
  fixes ok :: "'s \<Rightarrow> bool" and free :: "'s \<Rightarrow> nat"
    and content :: "'s \<Rightarrow> 'n \<Rightarrow> 'b list option"
    and cursor :: "'s \<Rightarrow> 'h \<Rightarrow> ('n \<times> nat) option"
    and valid :: "'n \<Rightarrow> bool" and cap :: nat
    and create :: "'n \<Rightarrow> 's \<Rightarrow> fault + (int \<times> 's)"
    and delete :: "'n \<Rightarrow> 's \<Rightarrow> int \<times> 's"
    and openf :: "'n \<Rightarrow> 's \<Rightarrow> 'h option \<times> 's"
    and writef :: "'h \<Rightarrow> 'b list \<Rightarrow> 's \<Rightarrow> fault + (int \<times> 's)"
    and readf :: "'h \<Rightarrow> nat \<Rightarrow> 's \<Rightarrow> fault + ('b list \<times> 's)"
    and closef :: "'h \<Rightarrow> 's \<Rightarrow> fault + 's"
  assumes create_new: "ok s \<Longrightarrow> cursor s = (\<lambda>_. None) \<Longrightarrow> 0 < free s \<Longrightarrow> valid n \<Longrightarrow> content s n = None \<Longrightarrow>
      \<exists>i s'. create n s = Inr (i, s') \<and> 0 \<le> i \<and> ok s' \<and> cursor s' = (\<lambda>_. None)
        \<and> content s' = (content s)(n \<mapsto> []) \<and> free s = Suc (free s')"
    and create_old: "ok s \<Longrightarrow> valid n \<Longrightarrow> content s n = Some b \<Longrightarrow> create n s = Inr (-2, s)"
    and delete_old: "ok s \<Longrightarrow> cursor s = (\<lambda>_. None) \<Longrightarrow> content s n = Some b \<Longrightarrow>
      \<exists>s'. delete n s = (0, s') \<and> ok s' \<and> free s' = Suc (free s) \<and> cursor s' = (\<lambda>_. None)
        \<and> content s' = (content s)(n := None)"
    and open_old: "ok s \<Longrightarrow> cursor s = (\<lambda>_. None) \<Longrightarrow> content s n = Some b \<Longrightarrow>
      \<exists>h s'. openf n s = (Some h, s') \<and> ok s' \<and> content s' = content s \<and> cursor s' = [h \<mapsto> (n, 0)]
        \<and> free s' = free s"
    and write_in: "ok s \<Longrightarrow> cursor s h = Some (n, p) \<Longrightarrow> content s n = Some b \<Longrightarrow> p \<le> length b \<Longrightarrow>
      p + length d \<le> cap \<Longrightarrow>
      \<exists>s'. writef h d s = Inr (int (length d), s') \<and> ok s'
        \<and> content s' = (content s)(n \<mapsto> take p b @ d @ drop (p + length d) b)
        \<and> cursor s' = (cursor s)(h \<mapsto> (n, p + length d)) \<and> free s' = free s"
    and read_at: "ok s \<Longrightarrow> cursor s h = Some (n, p) \<Longrightarrow> content s n = Some b \<Longrightarrow> k \<le> cap \<Longrightarrow>
      \<exists>s'. readf h k s = Inr (take k (drop p b), s') \<and> ok s' \<and> content s' = content s
        \<and> cursor s' = (cursor s)(h \<mapsto> (n, p + length (take k (drop p b)))) \<and> free s' = free s"
    and close_open: "ok s \<Longrightarrow> cursor s h = Some c \<Longrightarrow>
      \<exists>s'. closef h s = Inr s' \<and> ok s' \<and> content s' = content s \<and> cursor s' = (cursor s)(h := None)
        \<and> free s' = free s"
begin

text \<open>Opening an existing empty file, writing a text that fits and closing it.\<close>

lemma fill:
  assumes "ok s" and "cursor s = (\<lambda>_. None)" and "content s n = Some []" and "length d \<le> cap"
  shows "\<exists>h s1 s2 s3. openf n s = (Some h, s1) \<and> writef h d s1 = Inr (int (length d), s2)
    \<and> closef h s2 = Inr s3 \<and> ok s3 \<and> cursor s3 = (\<lambda>_. None) \<and> content s3 = (content s)(n \<mapsto> d)
    \<and> free s3 = free s"
proof -
  obtain h s1 where 1: "openf n s = (Some h, s1)" "ok s1" "content s1 = content s" "cursor s1 = [h \<mapsto> (n, 0)]"
      "free s1 = free s"
    using open_old [OF assms(1-3)] by blast
  obtain s2 where 2: "writef h d s1 = Inr (int (length d), s2)" "ok s2"
      "content s2 = (content s)(n \<mapsto> d)" "cursor s2 = [h \<mapsto> (n, length d)]" "free s2 = free s1"
    using write_in [OF 1(2), of h n 0 "[]" d] 1(3,4) assms(3,4) by auto
  obtain s3 where 3: "closef h s2 = Inr s3" "ok s3" "content s3 = content s2" "cursor s3 = (cursor s2)(h := None)"
      "free s3 = free s2"
    using close_open [OF 2(2), of h] 2(4) by auto
  then have "cursor s3 = (\<lambda>_. None)" using 2(4) by auto
  then show ?thesis using 1(1,5) 2(1,3,5) 3 by auto
qed

text \<open>Opening a file, reading a prefix of its content and closing it.\<close>

lemma load:
  assumes "ok s" and "cursor s = (\<lambda>_. None)" and "content s n = Some b" and "k \<le> cap"
  shows "\<exists>h s1 s2 s3. openf n s = (Some h, s1) \<and> readf h k s1 = Inr (take k b, s2)
    \<and> closef h s2 = Inr s3 \<and> ok s3 \<and> cursor s3 = (\<lambda>_. None) \<and> content s3 = content s
    \<and> free s3 = free s"
proof -
  obtain h s1 where 1: "openf n s = (Some h, s1)" "ok s1" "content s1 = content s" "cursor s1 = [h \<mapsto> (n, 0)]"
      "free s1 = free s"
    using open_old [OF assms(1-3)] by blast
  obtain s2 where 2: "readf h k s1 = Inr (take k b, s2)" "ok s2" "content s2 = content s"
      "cursor s2 = [h \<mapsto> (n, length (take k b))]" "free s2 = free s1"
    using read_at [OF 1(2), of h n 0 b k] 1(3,4) assms(3,4) by auto
  obtain s3 where 3: "closef h s2 = Inr s3" "ok s3" "content s3 = content s2" "cursor s3 = (cursor s2)(h := None)"
      "free s3 = free s2"
    using close_open [OF 2(2), of h] 2(4) by auto
  then have "cursor s3 = (\<lambda>_. None)" using 2(4) by auto
  then show ?thesis using 1(1,5) 2(1,3,5) 3 by auto
qed

text \<open>Replacing a file: create, on failure delete and create again, and fill.\<close>

lemma replace_empty:
  assumes "ok s" and "cursor s = (\<lambda>_. None)" and "valid n" and "content s n = None \<Longrightarrow> 0 < free s"
  shows "(\<exists>i s'. create n s = Inr (i, s') \<and> 0 \<le> i \<and> ok s' \<and> cursor s' = (\<lambda>_. None)
        \<and> content s' = (content s)(n \<mapsto> []))
    \<or> (\<exists>s1 i s'. create n s = Inr (-2, s) \<and> delete n s = (0, s1) \<and> create n s1 = Inr (i, s') \<and> 0 \<le> i
        \<and> ok s' \<and> cursor s' = (\<lambda>_. None) \<and> content s' = (content s)(n \<mapsto> []))"
proof (cases "content s n")
  case None
  then show ?thesis using create_new [OF assms(1,2) assms(4) assms(3)] by blast
next
  case (Some b)
  obtain s1 where 1: "delete n s = (0, s1)" "ok s1" "0 < free s1" "cursor s1 = (\<lambda>_. None)"
      "content s1 = (content s)(n := None)"
    using delete_old [OF assms(1,2) Some] by auto
  obtain i s' where 2: "create n s1 = Inr (i, s')" "0 \<le> i" "ok s'" "cursor s' = (\<lambda>_. None)"
      "content s' = (content s1)(n \<mapsto> [])"
    using create_new [OF 1(2,4,3) assms(3)] 1(5) by auto
  have "content s' = (content s)(n \<mapsto> [])" using 1(5) 2(5) by simp
  then show ?thesis using create_old [OF assms(1,3) Some] 1(1) 2 by blast
qed

end

section \<open>The operations on the table\<close>

definition fs_valid :: "cchar list \<Rightarrow> bool" where
  "fs_valid name \<longleftrightarrow> c_string name \<and> length name < 16"

lemma lookup_Some:
  assumes "table_ok f"
  shows "lookup f name = Some b \<longleftrightarrow> (\<exists>i. in_use f i \<and> fe_name (files f ! i) = name \<and> b = file_bytes f i)"
proof (cases "c_string name")
  case True
  then show ?thesis using fs_find_iff [OF assms True] by (auto simp: lookup_def)
next
  case False
  then have "\<not> (in_use f i \<and> fe_name (files f ! i) = name)" for i
    using assms by (auto simp: table_ok_def entry_ok_def in_use_def c_string_def)
  then show ?thesis using False by (auto simp: lookup_def)
qed

lemma lookup_find:
  assumes "table_ok f" and "lookup f name = Some b"
  obtains i where "fs_find name f = Some i" "in_use f i" "fe_name (files f ! i) = name" "b = file_bytes f i"
proof -
  have c: "c_string name" using assms(2) by (auto simp: lookup_def split: if_splits)
  have "map_option (file_bytes f) (fs_find name f) = Some b"
    using assms(2) c by (simp add: lookup_def)
  then obtain i where i: "fs_find name f = Some i" "b = file_bytes f i"
    by (cases "fs_find name f") simp_all
  then have "in_use f i \<and> fe_name (files f ! i) = name" using fs_find_iff [OF assms(1) c] by simp
  then show thesis using that [OF i(1) _ _ i(2)] by (elim conjE)
qed

text \<open>Putting a new entry into the table.\<close>

definition set_entry :: "nat \<Rightarrow> file_entry \<Rightarrow> filesystem \<Rightarrow> filesystem" where
  "set_entry i e f = f\<lparr>files := (files f)[i := e]\<rparr>"

lemma in_use_set_entry:
  "length (files f) = 32 \<Longrightarrow> i < 32 \<Longrightarrow> in_use (set_entry i e f) j \<longleftrightarrow> (if j = i then fe_in_use e else in_use f j)"
  by (auto simp: in_use_def set_entry_def)

lemma table_ok_set_entry:
  assumes "table_ok f" and "i < 32" and "entry_ok i e" and "length area = 32768"
    and "fe_in_use e \<Longrightarrow> \<forall>j. in_use f j \<and> j \<noteq> i \<longrightarrow> fe_name (files f ! j) \<noteq> fe_name e"
    and "uf = of_nat (card ((if fe_in_use e then insert i else (\<lambda>S. S - {i})) (Collect (in_use f))))"
  shows "table_ok ((set_entry i e f)\<lparr>used_files := uf, data_area := area, used_size := us\<rparr>)"
proof -
  let ?f = "(set_entry i e f)\<lparr>used_files := uf, data_area := area, used_size := us\<rparr>"
  have len: "length (files f) = 32" using assms(1) by (simp add: table_ok_def)
  have use: "in_use ?f j \<longleftrightarrow> (if j = i then fe_in_use e else in_use f j)" for j
    using in_use_set_entry [OF len assms(2), of e j] by (simp add: in_use_def)
  have coll: "Collect (in_use ?f) = (if fe_in_use e then insert i else (\<lambda>S. S - {i})) (Collect (in_use f))"
  proof (rule set_eqI)
    fix j
    show "j \<in> Collect (in_use ?f)
        \<longleftrightarrow> j \<in> (if fe_in_use e then insert i else (\<lambda>S. S - {i})) (Collect (in_use f))"
      unfolding mem_Collect_eq use by (cases "fe_in_use e") simp_all
  qed
  have name: "fe_name (files ?f ! j) = (if j = i then fe_name e else fe_name (files f ! j))" for j
    using len assms(2) by (cases "j = i") (simp_all add: set_entry_def)
  have "inj_on (\<lambda>j. fe_name (files ?f ! j)) (Collect (in_use ?f))"
  proof (rule inj_onI)
    fix j k assume jk: "j \<in> Collect (in_use ?f)" "k \<in> Collect (in_use ?f)"
      "fe_name (files ?f ! j) = fe_name (files ?f ! k)"
    have old: "x = y" if "in_use f x" "in_use f y" "fe_name (files f ! x) = fe_name (files f ! y)" for x y
      using assms(1) that by (auto simp: table_ok_def inj_on_def)
    have "in_use ?f j" "in_use ?f k" using jk(1,2) by simp_all
    then show "j = k"
      using jk(3) unfolding use name
      using assms(5) old by (cases "j = i"; cases "k = i") (auto simp: eq_commute)
  qed
  moreover have "entry_ok j (files ?f ! j)" if "j < 32" for j
    using assms(1,3) that len by (cases "j = i") (auto simp: table_ok_def set_entry_def)
  ultimately show ?thesis
    using assms(1,4,6) len coll by (simp add: table_ok_def set_entry_def)
qed

lemma file_bytes_empty [simp]: "fe_size (files f ! i) = 0 \<Longrightarrow> file_bytes f i = []"
  by (simp add: file_bytes_def)

lemma create_effect:
  assumes "fs st = Some f" and "table_ok f" and "fs_valid name" and "lookup f name = None"
    and "find (\<lambda>i. \<not> fe_in_use (files f ! i)) [0..<32] = Some i"
  shows "\<exists>f'. fs_create_file (Some name) type t st = Inr (int i, st\<lparr>fs := Some f'\<rparr>) \<and> table_ok f'
    \<and> lookup f' = (lookup f)(name \<mapsto> []) \<and> Collect (in_use f') = insert i (Collect (in_use f))
    \<and> used_size f' = used_size f"
proof -
  note i = find_free_Some [OF assms(5)]
  define e where "e = \<lparr>fe_name = name, fe_type = type, fe_permissions = 1 OR 2, fe_size = 0,
    fe_data_offset = of_nat i * MAX_FILE_SIZE, fe_created_time = timer_get_ticks t, fe_in_use = True\<rparr>"
  define f' where "f' = f\<lparr>files := (files f)[i := e], used_files := used_files f + 1\<rparr>"
  have c: "c_string name" "length name < 16" using assms(3) by (simp_all add: fs_valid_def)
  have nofind: "fs_find name f = None" using assms(4) c by (simp add: lookup_def)
  have len: "length (files f) = 32" using assms(2) by (simp add: table_ok_def)
  have "fs_create_file (Some name) type t st = Inr (int i, st\<lparr>fs := Some f'\<rparr>)"
    using assms(1,5) nofind c
    by (simp add: fs_create_file_def fs_file_exists_def fs_strcpy_def Let_def e_def f'_def)
  moreover have eq: "f' = (set_entry i e f)\<lparr>used_files := of_nat (card (insert i (Collect (in_use f)))),
      data_area := data_area f, used_size := used_size f\<rparr>"
  proof -
    have "card (insert i (Collect (in_use f))) = Suc (card (Collect (in_use f)))"
      using i by (intro card_insert_disjoint) auto
    then have "used_files f + 1 = of_nat (card (insert i (Collect (in_use f))))"
      using assms(2) by (simp add: table_ok_def)
    then show ?thesis by (simp add: f'_def set_entry_def)
  qed
  moreover have ok: "table_ok f'"
    unfolding eq
  proof (rule table_ok_set_entry [OF assms(2)])
    show "entry_ok i e" using c by (simp add: entry_ok_def e_def c_string_def)
    show "length (data_area f) = 32768" using assms(2) by (simp add: table_ok_def)
    show "\<forall>j. in_use f j \<and> j \<noteq> i \<longrightarrow> fe_name (files f ! j) \<noteq> fe_name e"
      using nofind fs_find_None [OF assms(2) c(1)] by (simp add: e_def)
    show "of_nat (card (insert i (Collect (in_use f))))
        = (of_nat (card ((if fe_in_use e then insert i else (\<lambda>S. S - {i})) (Collect (in_use f)))) :: u32)"
      by (simp add: e_def)
  qed (use i in simp)
  moreover have use: "in_use f' j \<longleftrightarrow> j = i \<or> in_use f j" for j
    using in_use_set_entry [OF len, of i e j] i unfolding eq by (simp add: in_use_def e_def)
  moreover have "lookup f' n = ((lookup f)(name \<mapsto> [])) n" for n
  proof -
    have same: "files f' ! j = files f ! j \<and> (in_use f j \<longrightarrow> file_bytes f' j = file_bytes f j)" if "j \<noteq> i" for j
      using that by (simp add: f'_def file_bytes_def)
    have ei: "files f' ! i = e" using i len by (simp add: f'_def)
    then show ?thesis
      using lookup_update [OF assms(2) ok same, where n = n] i use [of i] by (simp add: e_def)
  qed
  ultimately show ?thesis by (intro exI [of _ f']) (auto simp: f'_def)
qed

lemma delete_effect:
  assumes "fs st = Some f" and "table_ok f" and "lookup f name = Some b"
  shows "\<exists>f' i. fs_delete_file (Some name) st = (0, st\<lparr>fs := Some f'\<rparr>) \<and> table_ok f'
    \<and> lookup f' = (lookup f)(name := None) \<and> in_use f i \<and> fe_name (files f ! i) = name
    \<and> Collect (in_use f') = Collect (in_use f) - {i}
    \<and> used_size f' = used_size f"
proof -
  obtain i where i: "fs_find name f = Some i" "in_use f i" "fe_name (files f ! i) = name"
    using lookup_find [OF assms(2,3)] by metis
  have i32: "i < 32" using i(2) by (simp add: in_use_def)
  have len: "length (files f) = 32" using assms(2) by (simp add: table_ok_def)
  define f' where "f' = f\<lparr>files := (files f)[i := zero_entry], used_files := used_files f - 1\<rparr>"
  have "fs_delete_file (Some name) st = (0, st\<lparr>fs := Some f'\<rparr>)"
    using assms(1) i(1) i32 len by (simp add: fs_delete_file_def Let_def f'_def zero_entry_def)
  moreover have eq: "f' = (set_entry i zero_entry f)\<lparr>used_files := of_nat (card (Collect (in_use f) - {i})),
      data_area := data_area f, used_size := used_size f\<rparr>"
  proof -
    have "Suc (card (Collect (in_use f) - {i})) = card (Collect (in_use f))"
      using i(2) by (intro card_Suc_Diff1) simp_all
    then have "of_nat (card (Collect (in_use f))) = (of_nat (Suc (card (Collect (in_use f) - {i}))) :: u32)"
      by simp
    then have "used_files f - 1 = of_nat (card (Collect (in_use f) - {i}))"
      using assms(2) by (simp add: table_ok_def)
    then show ?thesis by (simp add: f'_def set_entry_def)
  qed
  moreover have ok: "table_ok f'"
    unfolding eq
    by (rule table_ok_set_entry [OF assms(2) i32])
      (use assms(2) in \<open>simp_all add: entry_ok_def zero_entry_def table_ok_def\<close>)
  moreover have use: "in_use f' j \<longleftrightarrow> j \<noteq> i \<and> in_use f j" for j
    using in_use_set_entry [OF len i32, of zero_entry j] unfolding eq by (simp add: in_use_def zero_entry_def)
  moreover have "lookup f' n = ((lookup f)(name := None)) n" for n
  proof -
    have same: "files f' ! j = files f ! j \<and> (in_use f j \<longrightarrow> file_bytes f' j = file_bytes f j)" if "j \<noteq> i" for j
      using that by (simp add: f'_def file_bytes_def)
    show ?thesis
      using lookup_update [OF assms(2) ok same, where n = n] i use [of i] by simp
  qed
  moreover have "Collect (in_use f') = Collect (in_use f) - {i}"
  proof (rule set_eqI)
    fix j show "j \<in> Collect (in_use f') \<longleftrightarrow> j \<in> Collect (in_use f) - {i}" using use [of j] by auto
  qed
  ultimately show ?thesis using i(2,3) by (intro exI [of _ f'] exI [of _ i]) (simp add: f'_def fun_eq_iff)
qed

text \<open>An open handle that leads to a file in use.\<close>

definition handle_for :: "fs_state \<Rightarrow> filesystem \<Rightarrow> nat \<Rightarrow> nat \<Rightarrow> nat \<Rightarrow> bool" where
  "handle_for st f h i p \<longleftrightarrow> fs st = Some f \<and> table_ok f \<and> length (file_handles st) = 8 \<and> h < 8
     \<and> is_open (file_handles st ! h) \<and> file_index (file_handles st ! h) = int i \<and> in_use f i
     \<and> unat (position (file_handles st ! h)) = p \<and> p \<le> 1024"

lemma handle_for_target:
  assumes "handle_for st f h i p"
  shows "fs_target (Some h) True st = Inr (Some (h, file_handles st ! h, f, files f ! i))"
  using assms
  by (auto simp: handle_for_def fs_target_def handle_at_def entry_at_def in_use_def table_ok_def)

lemma handle_for_entry:
  assumes "handle_for st f h i p"
  shows "i < 32 \<and> unat (fe_data_offset (files f ! i) + position (file_handles st ! h)) = i * 1024 + p
    \<and> unat (fe_size (files f ! i)) \<le> 1024 \<and> length (data_area f) = 32768 \<and> length (files f) = 32
    \<and> length (file_bytes f i) = unat (fe_size (files f ! i))"
proof -
  have i: "i < 32" and e: "fe_data_offset (files f ! i) = of_nat (i * 1024)" "unat (fe_size (files f ! i)) \<le> 1024"
    and p: "unat (position (file_handles st ! h)) = p" "p \<le> 1024"
    and len: "length (data_area f) = 32768" "length (files f) = 32"
    using assms by (auto simp: handle_for_def in_use_def table_ok_def entry_ok_def)
  define k where "k = i * 1024"
  have k: "k \<le> 31744" using i by (simp add: k_def)
  have "unat (position (file_handles st ! h) + of_nat k) = unat (position (file_handles st ! h)) + k"
    by (rule unat_add_of_nat) (use k p in simp)
  then have "unat (of_nat k + position (file_handles st ! h)) = k + p"
    by (simp only: p(1) add.commute)
  then have "unat (fe_data_offset (files f ! i) + position (file_handles st ! h)) = i * 1024 + p"
    unfolding e(1) k_def .
  moreover have "length (file_bytes f i) = unat (fe_size (files f ! i))"
    using e(2) k len(1) by (simp add: file_bytes_def k_def)
  ultimately show ?thesis using i e(2) len by blast
qed

text \<open>Reading returns the bytes from the position on and advances it.\<close>

lemma read_effect:
  assumes h: "handle_for st f h i p" and k: "k \<le> length buf" "k < 2 ^ 32"
  shows "\<exists>p' st'. fs_read_file (Some h) (Some buf) (of_nat k) st =
      Inr (int (length (take k (drop p (file_bytes f i)))),
        Some (take k (drop p (file_bytes f i)) @ drop (length (take k (drop p (file_bytes f i)))) buf), st')
    \<and> st' = put_handle h ((file_handles st ! h)\<lparr>position := p'\<rparr>) st
    \<and> unat p' = p + length (take k (drop p (file_bytes f i)))"
proof -
  let ?fh = "file_handles st ! h" and ?e = "files f ! i"
  note e = handle_for_entry [OF h] and t = handle_for_target [OF h]
  have pos: "unat (position ?fh) = p" "p \<le> 1024" using h by (simp_all add: handle_for_def)
  have uk: "unat (of_nat k :: u32) = k" using k by (intro unat_of_nat_small) simp
  show ?thesis
  proof (cases "fe_size ?e \<le> position ?fh")
    case True
    then have "length (file_bytes f i) \<le> p" using e pos by (simp add: word_le_nat_alt)
    moreover have "put_handle h (?fh\<lparr>position := position ?fh\<rparr>) st = st"
      by (simp add: put_handle_def)
    ultimately show ?thesis
      using t True pos by (intro exI [of _ "position ?fh"] exI [of _ st]) (simp add: fs_read_file_def)
  next
    case False
    then have less: "p < unat (fe_size ?e)" using pos by (simp add: word_le_nat_alt)
    define n where "n = (if (of_nat k :: u32) < fe_size ?e - position ?fh then of_nat k else fe_size ?e - position ?fh)"
    have avail: "unat (fe_size ?e - position ?fh) = unat (fe_size ?e) - p"
      using False pos by (subst unat_sub) simp_all
    then have n: "unat n = min k (unat (fe_size ?e) - p)"
      by (auto simp: n_def word_less_nat_alt uk)
    have bytes: "take (unat n) (drop (i * 1024 + p) (data_area f)) = take k (drop p (file_bytes f i))"
      using n less by (simp add: file_bytes_def drop_take min_def add.commute [of p])
    have lenb: "length (take k (drop p (file_bytes f i))) = unat n" using n e by (simp add: min.commute)
    have "i * 1024 + p + unat n \<le> length (data_area f)" using e n less by auto
    then have copy: "fs_memcpy buf 0 (data_area f) (i * 1024 + p) (unat n)
        = Inr (take k (drop p (file_bytes f i)) @ drop (unat n) buf)"
      using fs_memcpy_closed [of 0 "unat n" buf "i * 1024 + p" "data_area f"] k n bytes by simp
    have "unat n \<le> 1024" using n e by linarith
    then have "unat n < 2 ^ 31" by simp
    then have "sint n = int (unat n)" by (intro sint_small)
    moreover have "unat (position ?fh + n) = p + unat n"
      using pos n e less by (subst unat_add_lem [THEN iffD1]) auto
    ultimately show ?thesis
      using t False copy e lenb
      by (intro exI [of _ "position ?fh + n"] exI [of _ "put_handle h (?fh\<lparr>position := position ?fh + n\<rparr>) st"])
        (simp add: fs_read_file_def Let_def flip: n_def)
  qed
qed

text \<open>Overwriting a part of a list, possibly past its end.\<close>

definition overwrite :: "nat \<Rightarrow> u8 list \<Rightarrow> u8 list \<Rightarrow> u8 list" where
  "overwrite p d b = take p b @ d @ drop (p + length d) b"

text \<open>The file system after bytes were stored in the block of file \<open>i\<close>.\<close>

definition stored :: "nat \<Rightarrow> nat \<Rightarrow> u8 list \<Rightarrow> u32 \<Rightarrow> u32 \<Rightarrow> filesystem \<Rightarrow> filesystem" where
  "stored i p b s us f = (set_entry i ((files f ! i)\<lparr>fe_size := s\<rparr>) f)
     \<lparr>used_files := used_files f, data_area := patch (data_area f) (i * 1024 + p) b, used_size := us\<rparr>"

lemma stored_table:
  assumes ok: "table_ok f" and i: "in_use f i" and fit: "p + length b \<le> 1024" and s: "unat s \<le> 1024"
  shows "table_ok (stored i p b s us f)" and "in_use (stored i p b s us f) j = in_use f j"
    and "fe_name (files (stored i p b s us f) ! j) = fe_name (files f ! j)"
proof -
  have i32: "i < 32" and len: "length (files f) = 32" "length (data_area f) = 32768"
    using ok i by (auto simp: in_use_def table_ok_def)
  let ?e = "(files f ! i)\<lparr>fe_size := s\<rparr>"
  have used: "fe_in_use ?e" using i by (simp add: in_use_def)
  show "table_ok (stored i p b s us f)"
    unfolding stored_def
  proof (rule table_ok_set_entry [OF ok i32])
    show "entry_ok i ?e" using ok i s by (auto simp: table_ok_def entry_ok_def in_use_def)
    show "length (patch (data_area f) (i * 1024 + p) b) = 32768"
      using i32 fit len by (subst length_patch) auto
    show "\<forall>j. in_use f j \<and> j \<noteq> i \<longrightarrow> fe_name (files f ! j) \<noteq> fe_name ?e"
      using ok i by (auto simp: table_ok_def inj_on_def)
    have "insert i (Collect (in_use f)) = Collect (in_use f)" using i by auto
    then show "used_files f = of_nat (card ((if fe_in_use ?e then insert i else (\<lambda>S. S - {i})) (Collect (in_use f))))"
      using ok used by (simp add: table_ok_def)
  qed
  show "in_use (stored i p b s us f) j = in_use f j"
    and "fe_name (files (stored i p b s us f) ! j) = fe_name (files f ! j)"
    using len i by (auto simp: in_use_def stored_def set_entry_def nth_list_update)
qed

lemma stored_bytes:
  assumes ok: "table_ok f" and i: "in_use f i" and fit: "p + length b \<le> 1024"
  shows "in_use f j \<Longrightarrow> j \<noteq> i \<Longrightarrow> file_bytes (stored i p b s us f) j = file_bytes f j"
    and "unat s = max (unat (fe_size (files f ! i))) (p + length b) \<Longrightarrow> p \<le> length (file_bytes f i) \<Longrightarrow>
      file_bytes (stored i p b s us f) i = overwrite p b (file_bytes f i)"
proof -
  have i32: "i < 32" and len: "length (files f) = 32" "length (data_area f) = 32768"
    using ok i by (auto simp: in_use_def table_ok_def)
  have size: "unat (fe_size (files f ! j)) \<le> 1024" if "in_use f j" for j
    using ok that by (auto simp: table_ok_def entry_ok_def in_use_def)
  show "file_bytes (stored i p b s us f) j = file_bytes f j" if j: "in_use f j" "j \<noteq> i"
  proof -
    have "j < 32" using j(1) by (simp add: in_use_def)
    then have "take (unat (fe_size (files f ! j))) (drop (j * 1024) (patch (data_area f) (i * 1024 + p) b))
        = take (unat (fe_size (files f ! j))) (drop (j * 1024) (data_area f))"
      using i32 j size [OF j(1)] fit len by (intro patch_other_block) auto
    then show ?thesis using j(2) by (simp add: file_bytes_def stored_def set_entry_def)
  qed
  show "file_bytes (stored i p b s us f) i = overwrite p b (file_bytes f i)"
    if s: "unat s = max (unat (fe_size (files f ! i))) (p + length b)" and p: "p \<le> length (file_bytes f i)"
  proof -
    have "p \<le> unat (fe_size (files f ! i))" using p by (simp add: file_bytes_def)
    then show ?thesis
      using patch_own_block [of p "unat (fe_size (files f ! i))" b i "data_area f"] size [OF i] s i32 len fit
      by (simp add: overwrite_def file_bytes_def stored_def set_entry_def)
  qed
qed

lemma stored_lookup:
  assumes ok: "table_ok f" and i: "in_use f i" and fit: "p + length b \<le> 1024"
    and s: "unat s = max (unat (fe_size (files f ! i))) (p + length b)"
  shows "lookup (stored i p b s us f) n =
    (if fe_name (files f ! i) = n then Some (file_bytes (stored i p b s us f) i) else lookup f n)"
proof -
  have s': "unat s \<le> 1024"
    using s fit ok i by (auto simp: table_ok_def entry_ok_def in_use_def)
  note t = stored_table [OF ok i fit s', where us = us]
  have same: "files (stored i p b s us f) ! j = files f ! j
      \<and> (in_use f j \<longrightarrow> file_bytes (stored i p b s us f) j = file_bytes f j)" if "j \<noteq> i" for j
    using stored_bytes(1) [OF ok i fit] that by (simp add: stored_def set_entry_def)
  show ?thesis
    using lookup_update [OF ok t(1) same, where n = n] i t(2) [of i] t(3) [of i] by simp
qed

text \<open>
  Writing \<open>k\<close> bytes of a buffer stores as many as fit in the 1024-byte block; the other
  files keep their bytes. First the size the code computes.
\<close>

definition clamped :: "u32 \<Rightarrow> u32 \<Rightarrow> u32" where
  "clamped pos sz = (if MAX_FILE_SIZE < pos + sz then MAX_FILE_SIZE - pos else sz)"

lemma clamped_unat:
  assumes "unat pos = p" and "p \<le> 1024" and "p + k < 2 ^ 32"
  shows "unat (clamped pos (of_nat k)) = min k (1024 - p)"
proof -
  have "unat (of_nat k :: u32) = k" using assms(3) by (intro unat_of_nat_small) simp
  moreover have "unat (pos + of_nat k) = p + k"
    using assms unat_add_of_nat [of pos k] by simp
  moreover have "unat (MAX_FILE_SIZE - pos) = 1024 - p"
    using assms by (subst unat_sub) (simp_all add: word_le_nat_alt)
  ultimately show ?thesis by (auto simp: clamped_def word_less_nat_alt)
qed

lemma write_nothing:
  assumes h: "handle_for st f h i p" and "clamped (position (file_handles st ! h)) (of_nat k) = 0"
  shows "fs_write_file (Some h) (Some buf) (of_nat k) st = Inr (0, st)"
    and "(put_handle h ((file_handles st ! h)\<lparr>position := position (file_handles st ! h)\<rparr>) st)\<lparr>fs := Some f\<rparr> = st"
    and "lookup f = (lookup f)(fe_name (files f ! i) \<mapsto> overwrite p [] (file_bytes f i))"
proof -
  have st: "fs st = Some f" "table_ok f" "in_use f i" using h by (simp_all add: handle_for_def)
  show "fs_write_file (Some h) (Some buf) (of_nat k) st = Inr (0, st)"
    using handle_for_target [OF h] assms(2) by (simp add: fs_write_file_def Let_def clamped_def)
  show "(put_handle h ((file_handles st ! h)\<lparr>position := position (file_handles st ! h)\<rparr>) st)\<lparr>fs := Some f\<rparr> = st"
    using st by (simp add: put_handle_def)
  show "lookup f = (lookup f)(fe_name (files f ! i) \<mapsto> overwrite p [] (file_bytes f i))"
    using lookup_Some [OF st(2)] st(3) by (auto simp: overwrite_def fun_eq_iff)
qed

lemma write_some:
  assumes h: "handle_for st f h i p" and k: "k \<le> length buf" "p + k < 2 ^ 32"
    and pos: "pos = position (file_handles st ! h)"
    and sz: "sz = clamped pos (of_nat k)" "sz \<noteq> 0" and b: "b = take (unat sz) buf"
  shows "\<exists>s us. fs_write_file (Some h) (Some buf) (of_nat k) st =
      Inr (int (unat sz), (put_handle h ((file_handles st ! h)\<lparr>position := pos + sz\<rparr>) st)\<lparr>fs := Some (stored i p b s us f)\<rparr>)
    \<and> unat s = max (unat (fe_size (files f ! i))) (p + unat sz)"
    and "unat (pos + sz) = p + unat sz" and "p + unat sz \<le> 1024" and "length b = unat sz"
proof -
  let ?e = "files f ! i"
  note e = handle_for_entry [OF h] and t = handle_for_target [OF h]
  have p: "unat pos = p" "p \<le> 1024" and idx: "file_index (file_handles st ! h) = int i"
    using h by (simp_all add: handle_for_def pos)
  have m: "unat sz = min k (1024 - p)" using clamped_unat [OF p k(2)] sz(1) by simp
  then show fit: "p + unat sz \<le> 1024" and len: "length b = unat sz" using p(2) k(1) b by auto
  show p': "unat (pos + sz) = p + unat sz"
    using p fit by (subst unat_add_lem [THEN iffD1]) auto
  have "i * 1024 + p + unat sz \<le> 32768" "unat sz \<le> length buf" using e fit m k(1) by simp_all
  then have copy: "fs_memcpy (data_area f) (i * 1024 + p) buf 0 (unat sz)
      = Inr (patch (data_area f) (i * 1024 + p) b)"
    using fs_memcpy_closed [of "i * 1024 + p" "unat sz" "data_area f" 0 buf] e
    by (simp add: patch_def b)
  define s where "s = (if fe_size ?e < pos + sz then pos + sz else fe_size ?e)"
  define us where "us = (if fe_size ?e < pos + sz then used_size f + (pos + sz - fe_size ?e) else used_size f)"
  have "sint sz = int (unat sz)" using sint_small [of sz] fit by simp
  moreover have "stored i p b s us f = (let f1 = f\<lparr>data_area := patch (data_area f) (i * 1024 + p) b\<rparr>
      in if fe_size ?e < pos + sz then f1\<lparr>used_size := used_size f1 + (pos + sz - fe_size ?e),
          files := (files f1)[i := ?e\<lparr>fe_size := pos + sz\<rparr>]\<rparr> else f1)"
    by (simp add: stored_def set_entry_def s_def us_def Let_def)
  ultimately have "fs_write_file (Some h) (Some buf) (of_nat k) st =
      Inr (int (unat sz), (put_handle h ((file_handles st ! h)\<lparr>position := pos + sz\<rparr>) st)\<lparr>fs := Some (stored i p b s us f)\<rparr>)"
    using t copy sz(2) e idx
    by (simp add: fs_write_file_def Let_def sz(1) clamped_def pos)
  moreover have "unat s = max (unat (fe_size ?e)) (p + unat sz)"
    using p' by (auto simp: s_def word_less_nat_alt)
  ultimately show "\<exists>s us. fs_write_file (Some h) (Some buf) (of_nat k) st =
      Inr (int (unat sz), (put_handle h ((file_handles st ! h)\<lparr>position := pos + sz\<rparr>) st)\<lparr>fs := Some (stored i p b s us f)\<rparr>)
    \<and> unat s = max (unat (fe_size (files f ! i))) (p + unat sz)" by blast
qed

lemma write_effect:
  assumes h: "handle_for st f h i p" and k: "k \<le> length buf" "p + k < 2 ^ 32"
  defines "m \<equiv> min k (1024 - p)"
  shows "\<exists>p' f'. fs_write_file (Some h) (Some buf) (of_nat k) st =
      Inr (int m, (put_handle h ((file_handles st ! h)\<lparr>position := p'\<rparr>) st)\<lparr>fs := Some f'\<rparr>)
    \<and> unat p' = p + m \<and> table_ok f' \<and> Collect (in_use f') = Collect (in_use f)
    \<and> (\<forall>j. fe_name (files f' ! j) = fe_name (files f ! j))
    \<and> (p \<le> length (file_bytes f i) \<longrightarrow>
         lookup f' = (lookup f)(fe_name (files f ! i) \<mapsto> overwrite p (take m buf) (file_bytes f i)))
    \<and> (\<forall>n. n \<noteq> fe_name (files f ! i) \<longrightarrow> lookup f' n = lookup f n)"
proof -
  define pos where "pos = position (file_handles st ! h)"
  define sz where "sz = clamped pos (of_nat k)"
  have st: "table_ok f" "in_use f i" and p: "unat pos = p" "p \<le> 1024"
    using h by (simp_all add: handle_for_def pos_def)
  have m: "unat sz = m" using clamped_unat [OF p k(2)] by (simp add: sz_def m_def)
  show ?thesis
  proof (cases "sz = 0")
    case True
    note w = write_nothing [OF h, folded pos_def, OF True [unfolded sz_def]]
    have "m = 0" using m True by simp
    then show ?thesis using w p(1) st
      by (intro exI [of _ pos] exI [of _ f]) simp
  next
    case False
    let ?b = "take m buf"
    note w = write_some [OF h k pos_def sz_def False refl, unfolded m]
    obtain s us where run: "fs_write_file (Some h) (Some buf) (of_nat k) st = Inr (int m,
        (put_handle h ((file_handles st ! h)\<lparr>position := pos + sz\<rparr>) st)\<lparr>fs := Some (stored i p ?b s us f)\<rparr>)"
        "unat s = max (unat (fe_size (files f ! i))) (p + length ?b)"
      using w by auto
    have fit: "p + length ?b \<le> 1024" "unat s \<le> 1024"
      using w(3,4) run(2) handle_for_entry [OF h] by auto
    note table = stored_table [OF st fit, where us = us]
    note look = stored_lookup [OF st fit(1) run(2), where us = us]
    have "lookup (stored i p ?b s us f) = (lookup f)(fe_name (files f ! i) \<mapsto> overwrite p ?b (file_bytes f i))"
      if "p \<le> length (file_bytes f i)"
      using look stored_bytes(2) [OF st fit(1) run(2) that, where us = us] by (auto simp: fun_eq_iff)
    then show ?thesis
      using run(1) w(2) table look by (intro exI [of _ "pos + sz"] exI [of _ "stored i p ?b s us f"]) auto
  qed
qed

text \<open>A position and a size that add up past the word wrap around the test of the limit.\<close>

lemma write_wraps:
  assumes h: "handle_for st f h i p" and wrap: "2 ^ 32 \<le> p + unat sz"
  shows "fs_write_file (Some h) (Some buf) sz st = Inl Out_Of_Bounds"
proof -
  let ?pos = "position (file_handles st ! h)"
  note e = handle_for_entry [OF h] and t = handle_for_target [OF h]
  have p: "unat ?pos = p" "p \<le> 1024" using h by (simp_all add: handle_for_def)
  have sz: "unat sz < 2 ^ 32" using unsigned_less [where 'a = nat, of sz] by simp
  then have "unat (?pos + sz) = p + unat sz - 2 ^ 32"
    using p wrap by (simp add: unat_word_ariths mod_if)
  then have "\<not> MAX_FILE_SIZE < ?pos + sz" "sz \<noteq> 0"
    using sz p wrap by (auto simp: word_less_nat_alt)
  moreover have "fs_memcpy (data_area f) (i * 1024 + p) buf 0 (unat sz) = Inl Out_Of_Bounds"
    by (rule fs_memcpy_fault) (use e p wrap in auto)
  ultimately show ?thesis using e t by (simp add: fs_write_file_def Let_def)
qed

section \<open>The file system satisfies the interface\<close>

definition fs_free :: "fs_state \<Rightarrow> nat" where
  "fs_free st = (case fs st of None \<Rightarrow> 0 | Some f \<Rightarrow> 32 - card (Collect (in_use f)))"

definition handle_cursor :: "filesystem \<Rightarrow> file_handle \<Rightarrow> (cchar list \<times> nat) option" where
  "handle_cursor f fh =
     (if is_open fh \<and> in_use f (nat (file_index fh))
      then Some (fe_name (files f ! nat (file_index fh)), unat (position fh)) else None)"

definition fs_cursor :: "fs_state \<Rightarrow> nat \<Rightarrow> (cchar list \<times> nat) option" where
  "fs_cursor st h =
     (case fs st of None \<Rightarrow> None
      | Some f \<Rightarrow> if h < 8 then handle_cursor f (file_handles st ! h) else None)"

text \<open>A well-formed initialised file system whose open handles all lead to a file in use.\<close>

definition fs_ok :: "fs_state \<Rightarrow> bool" where
  "fs_ok st \<longleftrightarrow> fs_inv st \<and> (\<exists>f. fs st = Some f
     \<and> (\<forall>fh \<in> set (file_handles st). is_open fh \<longrightarrow> in_use f (nat (file_index fh))))"

text \<open>Reading \<open>k\<close> bytes into a buffer of that size.\<close>

definition read_bytes :: "nat \<Rightarrow> nat \<Rightarrow> fs_state \<Rightarrow> fault + (u8 list \<times> fs_state)" where
  "read_bytes h k st =
     (case fs_read_file (Some h) (Some (replicate k 0)) (of_nat k) st of
        Inl e \<Rightarrow> Inl e
      | Inr (r, buf, st) \<Rightarrow> Inr (take (nat r) (the buf), st))"

lemma fs_okE:
  assumes "fs_ok st"
  obtains f where "fs st = Some f" "table_ok f" "length (file_handles st) = 8"
    "\<forall>fh \<in> set (file_handles st). handle_ok fh \<and> (is_open fh \<longrightarrow> in_use f (nat (file_index fh)))"
  using assms by (auto simp: fs_ok_def fs_inv_def list_all_iff)

lemma fs_okI:
  assumes "fs st = Some f" and "table_ok f" and "length (file_handles st) = 8"
    and "\<forall>fh \<in> set (file_handles st). handle_ok fh \<and> (is_open fh \<longrightarrow> in_use f (nat (file_index fh)))"
  shows "fs_ok st"
  using assms by (auto simp: fs_ok_def fs_inv_def list_all_iff)

lemma all_closed:
  assumes "fs_ok st" and "fs_cursor st = (\<lambda>_. None)" and "fh \<in> set (file_handles st)"
  shows "\<not> is_open fh"
proof -
  obtain f where f: "fs st = Some f" "length (file_handles st) = 8"
      "is_open fh \<longrightarrow> in_use f (nat (file_index fh))"
    using assms(1,3) by (elim fs_okE) auto
  obtain h where h: "h < 8" "fh = file_handles st ! h" using assms(3) f(2) by (auto simp: in_set_conv_nth)
  have "fs_cursor st h = None" using assms(2) by simp
  then show ?thesis using f h by (auto simp: fs_cursor_def handle_cursor_def split: if_splits)
qed

lemma closed_cursor:
  "(\<And>fh. fh \<in> set (file_handles st) \<Longrightarrow> \<not> is_open fh) \<Longrightarrow> length (file_handles st) = 8 \<Longrightarrow>
     fs_cursor st = (\<lambda>_. None)"
  by (auto simp: fs_cursor_def handle_cursor_def fun_eq_iff split: option.split)

lemma cursor_handle:
  assumes "fs_ok st" and "fs_cursor st h = Some (n, p)"
  obtains f i where "handle_for st f h i p" "fe_name (files f ! i) = n"
proof -
  obtain f where f: "fs st = Some f" "table_ok f" "length (file_handles st) = 8"
      "\<forall>fh \<in> set (file_handles st). handle_ok fh \<and> (is_open fh \<longrightarrow> in_use f (nat (file_index fh)))"
    using assms(1) by (rule fs_okE)
  let ?fh = "file_handles st ! h" and ?i = "nat (file_index (file_handles st ! h))"
  have c: "h < 8" "is_open ?fh" "in_use f ?i" "n = fe_name (files f ! ?i)" "p = unat (position ?fh)"
    using assms(2) f(1) by (auto simp: fs_cursor_def handle_cursor_def split: if_splits)
  then have "handle_ok ?fh" using f(3,4) by simp
  then have "handle_for st f h ?i p" using f(1-3) c by (simp add: handle_for_def handle_ok_def)
  then show thesis using that c(4) by simp
qed

text \<open>Moving the position of an open handle, possibly with a new table of the same files.\<close>

lemma move_handle:
  assumes ok: "fs_ok st" and h: "handle_for st f h i p" and p': "unat p' \<le> 1024"
    and f': "table_ok f'" "\<And>j. in_use f' j = in_use f j" "\<And>j. fe_name (files f' ! j) = fe_name (files f ! j)"
  defines "st' \<equiv> (put_handle h ((file_handles st ! h)\<lparr>position := p'\<rparr>) st)\<lparr>fs := Some f'\<rparr>"
  shows "fs_ok st'" and "fs_cursor st' = (fs_cursor st)(h \<mapsto> (fe_name (files f ! i), unat p'))"
proof -
  have st: "fs st = Some f" "length (file_handles st) = 8" "h < 8" "is_open (file_handles st ! h)"
      "file_index (file_handles st ! h) = int i" "in_use f i"
    using h by (simp_all add: handle_for_def)
  let ?fh = "(file_handles st ! h)\<lparr>position := p'\<rparr>"
  have old: "handle_ok fh \<and> (is_open fh \<longrightarrow> in_use f (nat (file_index fh)))" if "fh \<in> set (file_handles st)" for fh
    using ok st(1) that by (auto elim!: fs_okE)
  show "fs_ok st'"
  proof (rule fs_okI)
    show "fs st' = Some f'" "length (file_handles st') = 8" "table_ok f'"
      using st f' by (simp_all add: st'_def put_handle_def)
    show "\<forall>fh \<in> set (file_handles st'). handle_ok fh \<and> (is_open fh \<longrightarrow> in_use f' (nat (file_index fh)))"
    proof
      fix fh assume "fh \<in> set (file_handles st')"
      then consider "fh = ?fh" | "fh \<in> set (file_handles st)"
        using set_update_subset_insert [of "file_handles st" h ?fh] by (auto simp: st'_def put_handle_def)
      then show "handle_ok fh \<and> (is_open fh \<longrightarrow> in_use f' (nat (file_index fh)))"
      proof cases
        case 1
        moreover have "i < 32" using st(6) by (simp add: in_use_def)
        ultimately show ?thesis using p' st(4-6) f'(2) by (simp add: handle_ok_def)
      next
        case 2
        then show ?thesis using old [of fh] f'(2) by simp
      qed
    qed
  qed
  show "fs_cursor st' = (fs_cursor st)(h \<mapsto> (fe_name (files f ! i), unat p'))"
  proof
    fix k
    have "fs_cursor st' k = (if k < 8 then handle_cursor f' ((file_handles st)[h := ?fh] ! k) else None)"
      by (simp add: fs_cursor_def st'_def put_handle_def)
    also have "\<dots> = (if k = h then Some (fe_name (files f ! i), unat p') else fs_cursor st k)"
    proof (cases "k = h")
      case True
      then show ?thesis using st f'(2,3) by (simp add: handle_cursor_def)
    next
      case False
      then show ?thesis using st(1) f'(2,3) by (simp add: fs_cursor_def handle_cursor_def)
    qed
    finally show "fs_cursor st' k = ((fs_cursor st)(h \<mapsto> (fe_name (files f ! i), unat p'))) k"
      by simp
  qed
qed

text \<open>Replacing the table by one with the same files, while no handle is open.\<close>

lemma idle_fs_ok:
  assumes "fs_ok st" and "fs_cursor st = (\<lambda>_. None)" and "table_ok f'"
  shows "fs_ok (st\<lparr>fs := Some f'\<rparr>)" and "fs_cursor (st\<lparr>fs := Some f'\<rparr>) = (\<lambda>_. None)"
proof -
  obtain f where f: "length (file_handles st) = 8"
      "\<forall>fh \<in> set (file_handles st). handle_ok fh \<and> (is_open fh \<longrightarrow> in_use f (nat (file_index fh)))"
    using assms(1) by (rule fs_okE)
  have closed: "\<not> is_open fh" if "fh \<in> set (file_handles st)" for fh
    by (rule all_closed [OF assms(1,2) that])
  show "fs_ok (st\<lparr>fs := Some f'\<rparr>)"
    by (rule fs_okI [where f = f']) (use f closed assms(3) in simp_all)
  show "fs_cursor (st\<lparr>fs := Some f'\<rparr>) = (\<lambda>_. None)"
    by (rule closed_cursor) (use f(1) closed in simp_all)
qed

lemma open_effect:
  assumes ok: "fs_ok st" and idle: "fs_cursor st = (\<lambda>_. None)" and n: "fs_content st n = Some b"
  shows "\<exists>h st'. fs_open_file (Some n) st = (Some h, st') \<and> fs_ok st' \<and> fs_content st' = fs_content st
    \<and> fs_cursor st' = [h \<mapsto> (n, 0)] \<and> fs_free st' = fs_free st"
proof -
  obtain f where f: "fs st = Some f" "table_ok f" "length (file_handles st) = 8"
      "\<forall>fh \<in> set (file_handles st). handle_ok fh \<and> (is_open fh \<longrightarrow> in_use f (nat (file_index fh)))"
    using ok by (rule fs_okE)
  have closed: "\<not> is_open (file_handles st ! h)" if "h < 8" for h
    using all_closed [OF ok idle, of "file_handles st ! h"] f(3) that by simp
  obtain i where i: "fs_find n f = Some i" "in_use f i" "fe_name (files f ! i) = n"
    using lookup_find [OF f(2), of n b] n f(1) by (auto simp: fs_content_def)
  let ?fh = "\<lparr>file_index = int i, position = 0, is_open = True\<rparr>"
  define st' where "st' = st\<lparr>file_handles := (file_handles st)[0 := ?fh]\<rparr>"
  have "find (\<lambda>i. \<not> is_open (file_handles st ! i)) [0..<8] = Some 0"
    using closed [of 0] by (simp add: upt_rec [of 0 8])
  then have run: "fs_open_file (Some n) st = (Some 0, st')"
    using f(1) i(1) by (simp add: fs_open_file_def st'_def)
  have i32: "i < 32" using i(2) by (simp add: in_use_def)
  have mem: "fh = ?fh \<or> fh \<in> set (file_handles st)" if "fh \<in> set (file_handles st')" for fh
    using that set_update_subset_insert [of "file_handles st" 0 ?fh] by (auto simp: st'_def)
  have "fs_ok st'"
  proof (rule fs_okI)
    show "fs st' = Some f" "length (file_handles st') = 8" using f by (simp_all add: st'_def)
    show "\<forall>fh \<in> set (file_handles st'). handle_ok fh \<and> (is_open fh \<longrightarrow> in_use f (nat (file_index fh)))"
    proof
      fix fh assume "fh \<in> set (file_handles st')"
      from mem [OF this] show "handle_ok fh \<and> (is_open fh \<longrightarrow> in_use f (nat (file_index fh)))"
        using f(4) i(2) i32 by (elim disjE) (simp_all add: handle_ok_def)
    qed
  qed (rule f(2))
  moreover have "fs_cursor st' = [0 \<mapsto> (n, 0)]"
  proof
    fix k
    show "fs_cursor st' k = [0 \<mapsto> (n, 0)] k"
      using f(1,3) i closed [of k] by (cases "k = 0") (simp_all add: fs_cursor_def handle_cursor_def st'_def)
  qed
  moreover have "fs_content st' = fs_content st" "fs_free st' = fs_free st"
    by (simp_all add: st'_def fs_content_def fs_free_def)
  ultimately show ?thesis using run by blast
qed

lemma close_effect:
  assumes ok: "fs_ok st" and c: "fs_cursor st h = Some c"
  shows "\<exists>st'. fs_close_file (Some h) st = Inr st' \<and> fs_ok st' \<and> fs_content st' = fs_content st
    \<and> fs_cursor st' = (fs_cursor st)(h := None) \<and> fs_free st' = fs_free st"
proof -
  obtain n p where np: "c = (n, p)" by fastforce
  obtain f i where h: "handle_for st f h i p"
    using cursor_handle [OF ok c [unfolded np]] by blast
  have f: "fs st = Some f" "table_ok f" "length (file_handles st) = 8" "h < 8" "is_open (file_handles st ! h)"
    using h by (simp_all add: handle_for_def)
  have old: "handle_ok fh \<and> (is_open fh \<longrightarrow> in_use f (nat (file_index fh)))" if "fh \<in> set (file_handles st)" for fh
    using ok f(1) that by (auto elim!: fs_okE)
  let ?fh = "\<lparr>file_index = -1, position = 0, is_open = False\<rparr>"
  let ?st = "put_handle h ?fh st"
  have "fs_close_file (Some h) st = Inr ?st"
    using f by (simp add: fs_close_file_def handle_at_def)
  moreover have "fs_ok ?st"
  proof (rule fs_okI)
    show "fs ?st = Some f" "length (file_handles ?st) = 8" using f by (simp_all add: put_handle_def)
    show "\<forall>fh \<in> set (file_handles ?st). handle_ok fh \<and> (is_open fh \<longrightarrow> in_use f (nat (file_index fh)))"
    proof
      fix fh assume "fh \<in> set (file_handles ?st)"
      then consider "fh = ?fh" | "fh \<in> set (file_handles st)"
        using set_update_subset_insert [of "file_handles st" h ?fh] by (auto simp: put_handle_def)
      then show "handle_ok fh \<and> (is_open fh \<longrightarrow> in_use f (nat (file_index fh)))"
        using old by cases (simp_all add: handle_ok_def)
    qed
  qed (rule f(2))
  moreover have "fs_cursor ?st = (fs_cursor st)(h := None)"
  proof
    fix k
    show "fs_cursor ?st k = ((fs_cursor st)(h := None)) k"
      using f by (cases "k = h") (simp_all add: fs_cursor_def handle_cursor_def put_handle_def)
  qed
  moreover have "fs_content ?st = fs_content st" "fs_free ?st = fs_free st"
    by (simp_all add: put_handle_def fs_content_def fs_free_def)
  ultimately show ?thesis by blast
qed

lemma cursor_content:
  assumes "handle_for st f h i p" and "fs_content st (fe_name (files f ! i)) = Some b"
  shows "b = file_bytes f i"
proof -
  have "fs st = Some f" "table_ok f" "in_use f i" using assms(1) by (simp_all add: handle_for_def)
  then have "lookup f (fe_name (files f ! i)) = Some (file_bytes f i)" using lookup_Some by blast
  then show ?thesis using assms(2) \<open>fs st = Some f\<close> by (simp add: fs_content_def)
qed

lemma write_law:
  assumes ok: "fs_ok st" and c: "fs_cursor st h = Some (n, p)" and n: "fs_content st n = Some b"
    and p: "p \<le> length b" and fit: "p + length d \<le> 1024"
  shows "\<exists>st'. fs_write_file (Some h) (Some d) (of_nat (length d)) st = Inr (int (length d), st') \<and> fs_ok st'
    \<and> fs_content st' = (fs_content st)(n \<mapsto> take p b @ d @ drop (p + length d) b)
    \<and> fs_cursor st' = (fs_cursor st)(h \<mapsto> (n, p + length d)) \<and> fs_free st' = fs_free st"
proof -
  obtain f i where h: "handle_for st f h i p" and name: "fe_name (files f ! i) = n"
    using cursor_handle [OF ok c] by blast
  have b: "b = file_bytes f i" using cursor_content [OF h] n name by simp
  have st: "fs st = Some f" using h by (simp add: handle_for_def)
  have min: "min (length d) (1024 - p) = length d" "p + length d < 2 ^ 32" using fit by auto
  obtain p' f' where w: "fs_write_file (Some h) (Some d) (of_nat (length d)) st = Inr (int (length d),
        (put_handle h ((file_handles st ! h)\<lparr>position := p'\<rparr>) st)\<lparr>fs := Some f'\<rparr>)"
      "unat p' = p + length d" "table_ok f'" "Collect (in_use f') = Collect (in_use f)"
      "\<forall>j. fe_name (files f' ! j) = fe_name (files f ! j)"
      "lookup f' = (lookup f)(n \<mapsto> overwrite p d (file_bytes f i))"
    using write_effect [OF h order_refl min(2), unfolded min(1)] p by (auto simp: b name)
  let ?st = "(put_handle h ((file_handles st ! h)\<lparr>position := p'\<rparr>) st)\<lparr>fs := Some f'\<rparr>"
  have use: "in_use f' j = in_use f j" for j using w(4) by (simp add: set_eq_iff)
  have "fs_ok ?st" "fs_cursor ?st = (fs_cursor st)(h \<mapsto> (n, p + length d))"
    using move_handle [OF ok h _ w(3) use, of p'] w(2,5) fit name by auto
  moreover have "fs_content ?st = (fs_content st)(n \<mapsto> take p b @ d @ drop (p + length d) b)"
    by (simp add: fs_content_def st w(6) b overwrite_def)
  moreover have "fs_free ?st = fs_free st" using w(4) by (simp add: fs_free_def st)
  ultimately show ?thesis using w(1) by blast
qed

lemma read_law:
  assumes ok: "fs_ok st" and c: "fs_cursor st h = Some (n, p)" and n: "fs_content st n = Some b"
    and k: "k \<le> 1024"
  shows "\<exists>st'. read_bytes h k st = Inr (take k (drop p b), st') \<and> fs_ok st' \<and> fs_content st' = fs_content st
    \<and> fs_cursor st' = (fs_cursor st)(h \<mapsto> (n, p + length (take k (drop p b)))) \<and> fs_free st' = fs_free st"
proof -
  obtain f i where h: "handle_for st f h i p" and name: "fe_name (files f ! i) = n"
    using cursor_handle [OF ok c] by blast
  have b: "b = file_bytes f i" using cursor_content [OF h] n name by simp
  have st: "fs st = Some f" "table_ok f" "p \<le> 1024" using h by (simp_all add: handle_for_def)
  let ?r = "take k (drop p b)"
  obtain p' where r: "fs_read_file (Some h) (Some (replicate k 0)) (of_nat k) st =
        Inr (int (length ?r), Some (?r @ drop (length ?r) (replicate k 0)),
          put_handle h ((file_handles st ! h)\<lparr>position := p'\<rparr>) st)"
      "unat p' = p + length ?r"
    using read_effect [OF h, of k "replicate k 0"] k by (auto simp: b)
  let ?st = "put_handle h ((file_handles st ! h)\<lparr>position := p'\<rparr>) st"
  have "length b \<le> 1024" using handle_for_entry [OF h] by (simp add: b)
  then have p': "unat p' \<le> 1024" using r(2) st(3) by auto
  have eq: "?st = ?st\<lparr>fs := Some f\<rparr>" using st(1) by (simp add: put_handle_def)
  have "fs_ok ?st" "fs_cursor ?st = (fs_cursor st)(h \<mapsto> (n, p + length ?r))"
    using move_handle [OF ok h p' st(2), folded eq] r(2) name by simp_all
  moreover have "fs_content ?st = fs_content st" "fs_free ?st = fs_free st"
    by (simp_all add: put_handle_def fs_content_def fs_free_def)
  moreover have "read_bytes h k st = Inr (?r, ?st)"
    by (auto simp: read_bytes_def r(1) min_def)
  ultimately show ?thesis by blast
qed

lemma create_law:
  assumes ok: "fs_ok s" and idle: "fs_cursor s = (\<lambda>_. None)" and room: "0 < fs_free s"
    and v: "fs_valid n" and n: "fs_content s n = None"
  shows "\<exists>i s'. fs_create_file (Some n) type t s = Inr (i, s') \<and> 0 \<le> i \<and> fs_ok s'
      \<and> fs_cursor s' = (\<lambda>_. None) \<and> fs_content s' = (fs_content s)(n \<mapsto> [])
      \<and> fs_free s = Suc (fs_free s')"
proof -
  obtain f where f: "fs s = Some f" "table_ok f" using ok by (rule fs_okE)
  have cont: "fs_content s = lookup f" by (simp add: fs_content_def f(1))
  have "card (Collect (in_use f)) \<noteq> 32" using room f(1) by (auto simp: fs_free_def)
  then obtain i where i: "find (\<lambda>i. \<not> fe_in_use (files f ! i)) [0..<32] = Some i"
    using find_free [of f] by (meson not_None_eq)
  from create_effect [OF f v n [unfolded cont] i, of type t]
  obtain f' where f': "fs_create_file (Some n) type t s = Inr (int i, s\<lparr>fs := Some f'\<rparr>)" "table_ok f'"
      "lookup f' = (lookup f)(n \<mapsto> [])" "Collect (in_use f') = insert i (Collect (in_use f))" by blast
  have "card (Collect (in_use f')) = Suc (card (Collect (in_use f)))"
    unfolding f'(4) using find_free_Some [OF i] by (intro card_insert_disjoint) auto
  then have "fs_free s = Suc (fs_free (s\<lparr>fs := Some f'\<rparr>))"
    using card_in_use [of f'] f(1) by (simp add: fs_free_def)
  moreover have "fs_content (s\<lparr>fs := Some f'\<rparr>) = (fs_content s)(n \<mapsto> [])"
    unfolding cont by (simp add: fs_content_def f'(3))
  ultimately show ?thesis using f'(1) idle_fs_ok [OF ok idle f'(2)] by auto
qed

lemma create_exists_law:
  assumes ok: "fs_ok s" and n: "fs_content s n = Some b"
  shows "fs_create_file (Some n) type t s = Inr (-2, s)"
proof -
  obtain f where f: "fs s = Some f" "table_ok f" using ok by (rule fs_okE)
  then have "lookup f n = Some b" using n by (simp add: fs_content_def)
  then obtain i where "fs_find n f = Some i" using lookup_find [OF f(2)] by metis
  then show ?thesis using f(1) by (simp add: fs_create_file_def fs_file_exists_def)
qed

lemma delete_law:
  assumes ok: "fs_ok s" and idle: "fs_cursor s = (\<lambda>_. None)" and n: "fs_content s n = Some b"
  shows "\<exists>s'. fs_delete_file (Some n) s = (0, s') \<and> fs_ok s' \<and> fs_free s' = Suc (fs_free s)
      \<and> fs_cursor s' = (\<lambda>_. None) \<and> fs_content s' = (fs_content s)(n := None)"
proof -
  obtain f where f: "fs s = Some f" "table_ok f" using ok by (rule fs_okE)
  have cont: "fs_content s = lookup f" by (simp add: fs_content_def f(1))
  obtain f' i where f': "fs_delete_file (Some n) s = (0, s\<lparr>fs := Some f'\<rparr>)" "table_ok f'"
      "lookup f' = (lookup f)(n := None)" "in_use f i" "Collect (in_use f') = Collect (in_use f) - {i}"
    using delete_effect [OF f n [unfolded cont]] by blast
  have "Suc (card (Collect (in_use f'))) = card (Collect (in_use f))"
    unfolding f'(5) using f'(4) by (intro card_Suc_Diff1) simp_all
  then have "fs_free (s\<lparr>fs := Some f'\<rparr>) = Suc (fs_free s)"
    using card_in_use [of f] f(1) by (simp add: fs_free_def)
  moreover have "fs_content (s\<lparr>fs := Some f'\<rparr>) = (fs_content s)(n := None)"
    unfolding cont by (simp add: fs_content_def f'(3))
  ultimately show ?thesis using f'(1) idle_fs_ok [OF ok idle f'(2)] by blast
qed

interpretation fstore: file_store fs_ok fs_free fs_content fs_cursor fs_valid 1024
    "\<lambda>n. fs_create_file (Some n) type t" "\<lambda>n. fs_delete_file (Some n)" "\<lambda>n. fs_open_file (Some n)"
    "\<lambda>h d. fs_write_file (Some h) (Some d) (of_nat (length d))" read_bytes "\<lambda>h. fs_close_file (Some h)"
  for type t
  by unfold_locales
    (rule create_law create_exists_law delete_law open_effect close_effect write_law read_law; assumption)+

end
