(* ===== verification/Heap_Blocks.thy ===== *)
theory Heap_Blocks imports Trak_Prelude begin

text \<open>
  What the heap of src/mm/memory.c promises, without memory or links: a list of blocks, in
  address order, each a payload size and a free flag; first-fit allocation with splitting,
  and freeing as marking a block and joining all neighbouring free blocks. A header takes
  16 bytes in front of each payload.
\<close>

section \<open>Block lists\<close>

type_synonym blk = "nat \<times> bool"

definition span :: "blk list \<Rightarrow> nat" where
  "span bs = sum_list (map (\<lambda>b. 16 + fst b) bs)"

definition used :: "blk list \<Rightarrow> nat" where
  "used bs = sum_list (map (\<lambda>b. if snd b then 0 else fst b) bs)"

definition coalesced :: "blk list \<Rightarrow> bool" where
  "coalesced bs = successively (\<lambda>b c. \<not> (snd b \<and> snd c)) bs"

definition aligned :: "blk list \<Rightarrow> bool" where
  "aligned bs = list_all (\<lambda>b. 4 dvd fst b) bs"

text \<open>Addresses of the headers, and the live payloads with their sizes, from address \<open>a\<close>.\<close>

primrec hdrs :: "nat \<Rightarrow> blk list \<Rightarrow> nat list" where
  "hdrs a [] = []"
| "hdrs a (b # bs) = a # hdrs (a + 16 + fst b) bs"

primrec live :: "nat \<Rightarrow> blk list \<Rightarrow> (nat \<times> nat) list" where
  "live a [] = []"
| "live a (b # bs) = (if snd b then [] else [(a + 16, fst b)]) @ live (a + 16 + fst b) bs"

lemma span_simps [simp]:
  "span [] = 0" "span (b # bs) = 16 + fst b + span bs" "span (xs @ ys) = span xs + span ys"
  by (simp_all add: span_def)

lemma used_simps [simp]:
  "used [] = 0" "used (b # bs) = (if snd b then 0 else fst b) + used bs"
  "used (xs @ ys) = used xs + used ys"
  by (simp_all add: used_def)

lemma aligned_simps [simp]:
  "aligned []" "aligned (b # bs) \<longleftrightarrow> 4 dvd fst b \<and> aligned bs"
  "aligned (xs @ ys) \<longleftrightarrow> aligned xs \<and> aligned ys"
  by (simp_all add: aligned_def)

lemma hdrs_append [simp]: "hdrs a (xs @ ys) = hdrs a xs @ hdrs (a + span xs) ys"
  by (induction xs arbitrary: a) (auto simp: add.assoc)

lemma live_append [simp]: "live a (xs @ ys) = live a xs @ live (a + span xs) ys"
  by (induction xs arbitrary: a) (auto simp: add.assoc)

lemma coalesced_simps [simp]:
  "coalesced []" "coalesced [b]"
  "coalesced (b # c # bs) \<longleftrightarrow> \<not> (snd b \<and> snd c) \<and> coalesced (c # bs)"
  by (simp_all add: coalesced_def)

lemma coalesced_append:
  "coalesced (xs @ ys) \<longleftrightarrow> coalesced xs \<and> coalesced ys
     \<and> (xs = [] \<or> ys = [] \<or> \<not> (snd (last xs) \<and> snd (hd ys)))"
  by (simp add: coalesced_def successively_append_iff)

lemma coalesced_Cons:
  "coalesced (b # bs) \<longleftrightarrow> coalesced bs \<and> (bs = [] \<or> \<not> (snd b \<and> snd (hd bs)))"
  using coalesced_append [of "[b]" bs] by auto

lemma used_le_span: "used bs \<le> span bs"
  by (induction bs) auto

lemma length_le_span: "16 * length bs \<le> span bs"
  by (induction bs) auto

lemma hdrs_bounds: "x \<in> set (hdrs a bs) \<Longrightarrow> a \<le> x \<and> x + 16 \<le> a + span bs"
  by (induction bs arbitrary: a) fastforce+

lemma live_bounds: "(q, t) \<in> set (live a bs) \<Longrightarrow> a + 16 \<le> q \<and> q + t \<le> a + span bs"
  by (induction bs arbitrary: a) (fastforce split: if_splits)+

text \<open>Headers do not overlap each other or a live payload, and live payloads are disjoint.\<close>

lemma hdrs_apart:
  "x \<in> set (hdrs a bs) \<Longrightarrow> y \<in> set (hdrs a bs) \<Longrightarrow> x = y \<or> x + 16 \<le> y \<or> y + 16 \<le> x"
proof (induction bs arbitrary: a)
  case (Cons b bs)
  show ?case
    using Cons.IH [of "a + 16 + fst b"] Cons.prems
      hdrs_bounds [of x "a + 16 + fst b" bs] hdrs_bounds [of y "a + 16 + fst b" bs] by auto
qed simp

lemma live_hdrs_apart:
  "(q, t) \<in> set (live a bs) \<Longrightarrow> x \<in> set (hdrs a bs) \<Longrightarrow> q + t \<le> x \<or> x + 16 \<le> q"
proof (induction bs arbitrary: a)
  case (Cons b bs)
  show ?case
    using Cons.IH [of "a + 16 + fst b"] Cons.prems
      hdrs_bounds [of x "a + 16 + fst b" bs] live_bounds [of q t "a + 16 + fst b" bs]
    by (auto split: if_splits)
qed simp

lemma live_apart:
  "(q, t) \<in> set (live a bs) \<Longrightarrow> (r, u) \<in> set (live a bs) \<Longrightarrow>
     (q, t) = (r, u) \<or> q + t + 16 \<le> r \<or> r + u + 16 \<le> q"
proof (induction bs arbitrary: a)
  case (Cons b bs)
  show ?case
    using Cons.IH [of "a + 16 + fst b"] Cons.prems
      live_bounds [of r u "a + 16 + fst b" bs] live_bounds [of q t "a + 16 + fst b" bs]
    by (auto split: if_splits)
qed simp

lemma sum_live: "sum_list (map snd (live a bs)) = used bs"
  by (induction bs arbitrary: a) auto

section \<open>First-fit allocation\<close>

definition carve :: "nat \<Rightarrow> nat \<Rightarrow> blk list" where
  "carve n s = (if n + 48 < s then [(n, False), (s - n - 16, True)] else [(s, False)])"

primrec alloc_spec :: "nat \<Rightarrow> nat \<Rightarrow> blk list \<Rightarrow> (nat \<times> blk list) option" where
  "alloc_spec n a [] = None"
| "alloc_spec n a (b # bs) =
     (if snd b \<and> n \<le> fst b then Some (a + 16, carve n (fst b) @ bs)
      else map_option (\<lambda>(p, bs'). (p, b # bs')) (alloc_spec n (a + 16 + fst b) bs))"

definition no_fit :: "nat \<Rightarrow> blk list \<Rightarrow> bool" where
  "no_fit n bs = list_all (\<lambda>b. snd b \<longrightarrow> fst b < n) bs"

lemma no_fit_simps [simp]:
  "no_fit n []" "no_fit n (b # bs) \<longleftrightarrow> (snd b \<longrightarrow> fst b < n) \<and> no_fit n bs"
  by (simp_all add: no_fit_def)

lemma alloc_spec_None: "alloc_spec n a bs = None \<longleftrightarrow> no_fit n bs"
  by (induction bs arbitrary: a) auto

lemma alloc_spec_split:
  "no_fit n xs \<Longrightarrow> n \<le> s \<Longrightarrow>
     alloc_spec n a (xs @ (s, True) # ys) = Some (a + span xs + 16, xs @ carve n s @ ys)"
  by (induction xs arbitrary: a) (auto simp: add.assoc)

lemma first_fit_cases:
  obtains "no_fit n bs"
  | xs s ys where "bs = xs @ (s, True) # ys" "no_fit n xs" "n \<le> s"
proof (induction bs arbitrary: thesis)
  case Nil
  then show ?case by simp
next
  case (Cons b bs)
  show ?case
  proof (cases "snd b \<and> n \<le> fst b")
    case True
    then show ?thesis using Cons.prems(2) [of "[]" "fst b" bs] by (cases b) auto
  next
    case False
    show ?thesis
    proof (rule Cons.IH)
      assume "no_fit n bs"
      with False show thesis using Cons.prems(1) by auto
    next
      fix xs s ys
      assume "bs = xs @ (s, True) # ys" "no_fit n xs" "n \<le> s"
      with False show thesis using Cons.prems(2) [of "b # xs" s ys] by auto
    qed
  qed
qed

lemma carve_facts:
  assumes "n \<le> s"
  shows "span (carve n s) = 16 + s" and "carve n s \<noteq> []"
    and "\<not> snd (hd (carve n s))" and "coalesced (carve n s)"
    and "4 dvd n \<Longrightarrow> 4 dvd s \<Longrightarrow> aligned (carve n s)"
    and "\<exists>t \<ge> n. used (carve n s) = t \<and> live a (carve n s) = [(a + 16, t)] \<and> t \<le> n + 48"
  using assms by (auto simp: carve_def)


section \<open>Freeing\<close>

primrec mark_free :: "nat \<Rightarrow> nat \<Rightarrow> blk list \<Rightarrow> blk list" where
  "mark_free t a [] = []"
| "mark_free t a (b # bs) =
     (if a = t then (fst b, True) # bs else b # mark_free t (a + 16 + fst b) bs)"

fun join_free :: "blk list \<Rightarrow> blk list" where
  "join_free [] = []"
| "join_free [b] = [b]"
| "join_free (b # c # bs) =
     (if snd b \<and> snd c then join_free ((fst b + fst c + 16, True) # bs)
      else b # join_free (c # bs))"

text \<open>Freeing the payload at \<open>p\<close>, whose header is 16 bytes in front of it.\<close>

definition free_spec :: "nat \<Rightarrow> nat \<Rightarrow> blk list \<Rightarrow> blk list" where
  "free_spec p a bs = join_free (mark_free (p - 16) a bs)"

lemma mark_free_split:
  "mark_free (a + span xs) a (xs @ (s, f) # ys) = xs @ (s, True) # ys"
proof (induction xs arbitrary: a)
  case (Cons x xs)
  then show ?case using Cons.IH [of "a + 16 + fst x"] by (simp add: ac_simps)
qed simp

lemma join_free_coalesced [simp]: "coalesced bs \<Longrightarrow> join_free bs = bs"
  by (induction bs rule: join_free.induct) auto

lemma join_free_prefix:
  "coalesced xs \<Longrightarrow> xs = [] \<or> \<not> snd (last xs) \<Longrightarrow> join_free (xs @ zs) = xs @ join_free zs"
proof (induction xs)
  case (Cons x xs)
  show ?case
  proof (cases xs)
    case Nil
    with Cons.prems show ?thesis by (cases zs) auto
  next
    case (Cons y ys)
    with Cons.IH Cons.prems show ?thesis by (auto simp: Cons.prems)
  qed
qed simp

text \<open>The block in front joined with the one behind, as far as they are free.\<close>

definition join_right :: "nat \<Rightarrow> blk list \<Rightarrow> nat \<times> blk list" where
  "join_right s ys =
     (case ys of (t, True) # zs \<Rightarrow> (s + (t + 16), zs) | _ \<Rightarrow> (s, ys))"

definition join_left :: "blk list \<Rightarrow> nat \<Rightarrow> blk list \<times> nat" where
  "join_left xs s =
     (if xs \<noteq> [] \<and> snd (last xs) then (butlast xs, fst (last xs) + (s + 16)) else (xs, s))"

lemma join_free_right:
  assumes "coalesced ys" and "join_right s ys = (s', ys')"
  shows "join_free ((s, True) # ys) = (s', True) # ys' \<and> coalesced ((s', True) # ys')"
proof (cases ys)
  case Nil
  with assms show ?thesis by (simp add: join_right_def)
next
  case (Cons y zs)
  obtain t f where y: "y = (t, f)" by fastforce
  have "coalesced ((s + t + 16, True) # zs)" if f
    using assms(1) that by (auto simp: Cons y coalesced_Cons)
  then show ?thesis
    using assms by (cases f) (auto simp: Cons y join_right_def add.assoc)
qed

lemma join_free_local:
  assumes "coalesced (xs @ (s, False) # ys)"
    and "join_right s ys = (s1, ys1)" and "join_left xs s1 = (xs2, s2)"
  shows "join_free (xs @ (s, True) # ys) = xs2 @ (s2, True) # ys1
    \<and> coalesced (xs2 @ (s2, True) # ys1)"
proof -
  have xs: "coalesced xs" and ys: "coalesced ys"
    using assms(1) by (auto simp: coalesced_append coalesced_Cons)
  note right = join_free_right [OF ys assms(2)]
  show ?thesis
  proof (cases "xs \<noteq> [] \<and> snd (last xs)")
    case False
    with assms(3) have "xs2 = xs" "s2 = s1" by (auto simp: join_left_def)
    moreover have "join_free (xs @ (s, True) # ys) = xs @ join_free ((s, True) # ys)"
      using xs False by (intro join_free_prefix) auto
    moreover have "coalesced (xs @ (s1, True) # ys1)"
      using xs right False by (auto simp: coalesced_append)
    ultimately show ?thesis using right by simp
  next
    case True
    then obtain ws r where ws: "xs = ws @ [(r, True)]"
      by (metis append_butlast_last_id prod.collapse)
    have ws_last: "coalesced ws" "ws = [] \<or> \<not> snd (last ws)"
      using xs by (auto simp: ws coalesced_append)
    have "join_free (xs @ (s, True) # ys) = ws @ join_free ((r, True) # (s, True) # ys)"
      using join_free_prefix [OF ws_last, of "(r, True) # (s, True) # ys"] by (simp add: ws)
    moreover have "join_right (r + s + 16) ys = (r + (s1 + 16), ys1)"
      using assms(2) by (auto simp: join_right_def split: list.splits prod.splits bool.splits)
    note r = join_free_right [OF ys this]
    have "coalesced (ws @ (r + (s1 + 16), True) # ys1)"
      using r ws_last by (auto simp: coalesced_append)
    moreover have "xs2 = ws" "s2 = r + (s1 + 16)"
      using assms(3) by (auto simp: join_left_def ws)
    ultimately show ?thesis using r by simp
  qed
qed


lemma join_right_facts:
  assumes "join_right s ys = (s', ys')"
  shows "16 + s' + span ys' = 16 + s + span ys" and "used ys' = used ys"
    and "aligned ys \<Longrightarrow> 4 dvd s \<Longrightarrow> aligned ys' \<and> 4 dvd s'"
    and "live (a + s') ys' = live (a + s) ys"
    and "set (hdrs (a + s') ys') \<subseteq> set (hdrs (a + s) ys)"
  using assms by (auto simp: join_right_def ac_simps split: list.splits prod.splits bool.splits)

lemma join_left_facts:
  assumes "join_left xs s = (xs', s')"
  shows "span xs' + 16 + s' = span xs + 16 + s" and "used xs' = used xs"
    and "aligned xs \<Longrightarrow> 4 dvd s \<Longrightarrow> aligned xs' \<and> 4 dvd s'"
    and "live a xs' = live a xs"
proof -
  show "span xs' + 16 + s' = span xs + 16 + s" and "used xs' = used xs"
    and "aligned xs \<Longrightarrow> 4 dvd s \<Longrightarrow> aligned xs' \<and> 4 dvd s'"
    and "live a xs' = live a xs"
    using assms
    by (cases xs rule: rev_cases; auto simp: join_left_def split: if_splits)+
qed


section \<open>Live payloads\<close>

lemma live_split:
  assumes "(p, t) \<in> set (live a bs)"
  obtains xs ys where "bs = xs @ (t, False) # ys" "p = a + span xs + 16"
  using assms
proof (induction bs arbitrary: a thesis)
  case (Cons b bs)
  show ?case
  proof (cases "(p, t) \<in> set (live (a + 16 + fst b) bs)")
    case True
    obtain xs ys where "bs = xs @ (t, False) # ys" "p = a + 16 + fst b + span xs + 16"
      using Cons.IH [OF _ True] by blast
    then show ?thesis using Cons.prems(1) [of "b # xs" ys] by simp
  next
    case False
    then have "b = (t, False)" "p = a + 16" using Cons.prems(2) by (cases b; auto split: if_splits)+
    then show ?thesis using Cons.prems(1) [of "[]" bs] by simp
  qed
qed simp

lemma live_unique: "(p, t) \<in> set (live a bs) \<Longrightarrow> (p, u) \<in> set (live a bs) \<Longrightarrow> t = u"
  using live_apart [of p t a bs p u] by auto

lemma live_before: "(q, t) \<in> set (live a xs) \<Longrightarrow> q + t \<le> a + span xs"
  using live_bounds by blast

lemma filter_live_other:
  assumes "p < a + 16 \<or> a + span bs < p"
  shows "filter (\<lambda>(q, u). q \<noteq> p) (live a bs) = live a bs"
proof (rule filter_True, rule ballI)
  fix x assume "x \<in> set (live a bs)"
  then show "(\<lambda>(q, u). q \<noteq> p) x"
    using assms live_bounds [of "fst x" "snd x" a bs] by (cases x) auto
qed

lemma filter_live_block:
  "filter (\<lambda>(q, u). q \<noteq> a + span xs + 16) (live a (xs @ (s, False) # ys)) =
     live a xs @ live (a + span xs + 16 + s) ys"
  using filter_live_other [of "a + span xs + 16" a xs]
    filter_live_other [of "a + span xs + 16" "a + span xs + 16 + s" ys]
  by simp

text \<open>Allocation adds one payload of at least the requested size; freeing removes one.\<close>

lemma live_alloc:
  assumes "alloc_spec n a bs = Some (p, bs')"
  shows "filter (\<lambda>(q, u). q \<noteq> p) (live a bs') = live a bs
    \<and> (\<exists>t \<ge> n. (p, t) \<in> set (live a bs') \<and> t \<le> n + 48 \<and> used bs' = used bs + t)"
proof (cases rule: first_fit_cases [of n bs])
  case 1
  then show ?thesis using assms alloc_spec_None [of n a bs] by simp
next
  case (2 xs s ys)
  then have p: "p = a + span xs + 16" and bs': "bs' = xs @ carve n s @ ys"
    using assms by (simp_all add: alloc_spec_split)
  show ?thesis
  proof (cases "n + 48 < s")
    case True
    then show ?thesis
      using filter_live_block [of a xs n "(s - n - 16, True) # ys"] 2
      by (auto simp: p bs' carve_def ac_simps)
  next
    case False
    then show ?thesis
      using filter_live_block [of a xs s ys] 2 by (auto simp: p bs' carve_def)
  qed
qed

lemma live_free:
  assumes "(p, t) \<in> set (live a bs)" and "coalesced bs"
  shows "live a (free_spec p a bs) = filter (\<lambda>(q, u). q \<noteq> p) (live a bs)
    \<and> coalesced (free_spec p a bs) \<and> span (free_spec p a bs) = span bs
    \<and> used (free_spec p a bs) + t = used bs"
proof -
  obtain xs ys where bs: "bs = xs @ (t, False) # ys" and p: "p = a + span xs + 16"
    using live_split [OF assms(1)] .
  obtain s1 ys1 where jr: "join_right t ys = (s1, ys1)" by fastforce
  obtain xs2 s2 where jl: "join_left xs s1 = (xs2, s2)" by fastforce
  note join = join_free_local [OF assms(2) [unfolded bs] jr jl]
  have spec: "free_spec p a bs = xs2 @ (s2, True) # ys1"
    using join by (simp add: free_spec_def bs p mark_free_split)
  note r = join_right_facts [OF jr] and l = join_left_facts [OF jl]
  have at: "a + span xs2 + 16 + s2 = a + span xs + 16 + s1" using l(1) by simp
  have "live a (free_spec p a bs) = live a xs @ live (a + span xs + 16 + t) ys"
    using r(4) [of "a + span xs + 16"] l(4) [of a] by (simp add: spec at)
  then have "live a (free_spec p a bs) = filter (\<lambda>(q, u). q \<noteq> p) (live a bs)"
    using filter_live_block [of a xs t ys] by (simp only: bs p)
  moreover have "coalesced (free_spec p a bs)" using join by (simp only: spec)
  moreover have "span (free_spec p a bs) = span bs" "used (free_spec p a bs) + t = used bs"
    unfolding spec using r(1,2) l(1,2) by (simp_all add: bs)
  ultimately show ?thesis by blast
qed

text \<open>
  The canonical form: the live payloads and the extent determine the whole list, because
  between two live blocks there is at most one free one.
\<close>

lemma live_bound_hd: "(q, t) \<in> set (live a bs) \<Longrightarrow> bs = (s, True) # cs \<Longrightarrow> a + 16 + s + 16 \<le> q"
  using live_bounds by fastforce

lemma canonical:
  "coalesced bs \<Longrightarrow> coalesced cs \<Longrightarrow> span bs = span cs \<Longrightarrow> live a bs = live a cs \<Longrightarrow> bs = cs"
proof (induction bs arbitrary: a cs)
  case Nil
  then show ?case by (cases cs) auto
next
  case (Cons b bs)
  obtain s f where b: "b = (s, f)" by fastforce
  obtain c cs' where cs: "cs = c # cs'" using Cons.prems(3) by (cases cs) auto
  obtain t g where c: "c = (t, g)" by fastforce
  have co: "coalesced bs" "coalesced cs'"
    using Cons.prems(1,2) by (auto simp: cs coalesced_Cons)
  have "f = g \<and> s = t"
  proof (cases f; cases g)
    assume "\<not> f" "\<not> g"
    then show ?thesis using Cons.prems(4) by (simp add: b c cs)
  next
    assume "\<not> f" g
    then have "(a + 16, s) \<in> set (live a cs)" by (simp add: b flip: Cons.prems(4))
    then show ?thesis using live_bound_hd [of "a + 16" s a cs t cs'] \<open>g\<close> by (simp add: c cs)
  next
    assume f "\<not> g"
    then have "(a + 16, t) \<in> set (live a (b # bs))" using Cons.prems(4) by (simp add: c cs)
    then show ?thesis using live_bound_hd [of "a + 16" t a "b # bs" s bs] \<open>f\<close> by (simp add: b)
  next
    assume fg: f g
    have nf: "bs = [] \<or> \<not> snd (hd bs)" "cs' = [] \<or> \<not> snd (hd cs')"
      using Cons.prems(1,2) fg by (auto simp: b c cs coalesced_Cons)
    have "live (a + 16 + s) bs = live (a + 16 + t) cs'" using Cons.prems(4) fg by (simp add: b c cs)
    then show ?thesis
      using nf Cons.prems(3) fg by (cases bs; cases cs'; auto simp: b c cs)
  qed
  then show ?case
    using Cons.IH [OF co, of "a + 16 + s"] Cons.prems(3,4) by (simp add: b c cs)
qed

lemma alloc_free_id:
  assumes "coalesced bs" and "alloc_spec n a bs = Some (p, bs')"
  shows "free_spec p a bs' = bs"
proof -
  obtain t where t: "(p, t) \<in> set (live a bs')" using live_alloc [OF assms(2)] by blast
  have "coalesced bs' \<and> span bs' = span bs"
  proof (cases rule: first_fit_cases [of n bs])
    case 1
    then show ?thesis using assms(2) alloc_spec_None [of n a bs] by simp
  next
    case (2 xs s ys)
    then show ?thesis
      using assms by (auto simp: alloc_spec_split carve_def coalesced_append coalesced_Cons)
  qed
  then show ?thesis
    using live_free [OF t] live_alloc [OF assms(2)] assms(1) canonical by metis
qed

end
