(* ===== verification/Heap_Refinement.thy ===== *)
theory Heap_Refinement imports Heap_Allocator Heap_Blocks begin

text \<open>
  The linked headers in memory represent a block list: the representation relation, the
  refinement of \<open>kmalloc\<close> and \<open>kfree\<close> to the block-list operations, and which bytes
  of memory they can change.
\<close>

section \<open>Representation\<close>

abbreviation BASE :: nat where "BASE \<equiv> 4194304"
abbreviation EXTENT :: nat where "EXTENT \<equiv> 4194304"

definition hdr_is :: "memory \<Rightarrow> nat \<Rightarrow> blk \<Rightarrow> nat \<Rightarrow> u32 \<Rightarrow> bool" where
  "hdr_is m a b p nx \<longleftrightarrow> mb_size (hdr m (of_nat a)) = of_nat (fst b)
     \<and> (mb_is_free (hdr m (of_nat a)) \<noteq> 0) = snd b
     \<and> mb_prev (hdr m (of_nat a)) = of_nat p \<and> mb_next (hdr m (of_nat a)) = nx"

text \<open>The pointer to a block list at \<open>a\<close>, which is \<open>e\<close> when the list is empty.\<close>

definition ptr_to :: "nat \<Rightarrow> blk list \<Rightarrow> u32 \<Rightarrow> u32" where
  "ptr_to a bs e = (if bs = [] then e else of_nat a)"

primrec seg :: "memory \<Rightarrow> nat \<Rightarrow> nat \<Rightarrow> blk list \<Rightarrow> u32 \<Rightarrow> bool" where
  "seg m p a [] e = True"
| "seg m p a (b # bs) e =
     (hdr_is m a b p (ptr_to (a + 16 + fst b) bs e) \<and> seg m a (a + 16 + fst b) bs e)"

primrec last_hdr :: "nat \<Rightarrow> nat \<Rightarrow> blk list \<Rightarrow> nat" where
  "last_hdr p a [] = p"
| "last_hdr p a (b # bs) = last_hdr a (a + 16 + fst b) bs"

definition heap_rep :: "heap \<Rightarrow> blk list \<Rightarrow> bool" where
  "heap_rep h bs \<longleftrightarrow> memory_initialized h \<and> heap_start h = HEAP_START
     \<and> bs \<noteq> [] \<and> span bs = EXTENT \<and> aligned bs \<and> coalesced bs
     \<and> seg (mem h) 0 BASE bs 0 \<and> total_allocated h = of_nat (used bs)"

lemma ptr_to_simps [simp]:
  "ptr_to a [] e = e" "ptr_to a (b # bs) e = of_nat a"
  "ptr_to a (xs @ b # ys) e = of_nat a"
  by (simp_all add: ptr_to_def)

lemma seg_append:
  "seg m p a (xs @ ys) e \<longleftrightarrow>
     seg m p a xs (ptr_to (a + span xs) ys e) \<and> seg m (last_hdr p a xs) (a + span xs) ys e"
proof (induction xs arbitrary: p a)
  case (Cons x xs)
  have "ptr_to (a + 16 + fst x) (xs @ ys) e =
      ptr_to (a + 16 + fst x) xs (ptr_to (a + 16 + fst x + span xs) ys e)"
    by (auto simp: ptr_to_def)
  then show ?case
    using Cons.IH [of a "a + 16 + fst x"] by (auto simp: ac_simps)
qed simp

lemma seg_cong:
  "(\<And>x. x \<in> set (hdrs a bs) \<Longrightarrow> hdr m' (of_nat x) = hdr m (of_nat x)) \<Longrightarrow>
     seg m p a bs e \<Longrightarrow> seg m' p a bs e"
  by (induction bs arbitrary: p a) (auto simp: hdr_is_def)

lemma seg_new_prev:
  assumes "seg m p a bs e"
    and "\<And>x. x \<in> set (hdrs a bs) \<Longrightarrow> hdr m' (of_nat x) =
           (if x = a then (hdr m (of_nat x))\<lparr>mb_prev := of_nat q\<rparr> else hdr m (of_nat x))"
  shows "seg m' q a bs e"
proof (cases bs)
  case (Cons b bs')
  have "seg m' a (a + 16 + fst b) bs' e"
  proof (rule seg_cong)
    show "seg m a (a + 16 + fst b) bs' e" using assms(1) Cons by simp
    show "hdr m' (of_nat x) = hdr m (of_nat x)" if "x \<in> set (hdrs (a + 16 + fst b) bs')" for x
      using assms(2) [of x] hdrs_bounds [OF that] that Cons by auto
  qed
  then show ?thesis using assms Cons by (simp add: hdr_is_def)
qed simp

lemma last_hdr_append [simp]:
  "last_hdr p a (xs @ ys) = last_hdr (last_hdr p a xs) (a + span xs) ys"
  by (induction xs arbitrary: p a) (auto simp: add.assoc)

lemma last_hdr_mem: "xs \<noteq> [] \<Longrightarrow> last_hdr p a xs \<in> set (hdrs a xs)"
proof (induction xs arbitrary: p a)
  case (Cons x xs)
  then show ?case using Cons.IH [of a "a + 16 + fst x"] by (cases xs) auto
qed simp

section \<open>Which bytes change\<close>

definition hdr_bytes :: "nat set \<Rightarrow> u32 set" where
  "hdr_bytes H = (\<Union>x \<in> H. region x 16)"

definition only_on :: "u32 set \<Rightarrow> memory \<Rightarrow> memory \<Rightarrow> bool" where
  "only_on A m m' \<longleftrightarrow> (\<forall>x. x \<notin> A \<longrightarrow> m' x = m x)"

lemma only_on_refl [frame]: "only_on A m m"
  by (simp add: only_on_def)

lemma only_on_trans: "only_on A m m1 \<Longrightarrow> only_on A m1 m2 \<Longrightarrow> only_on A m m2"
  by (simp add: only_on_def)

lemma only_on_set [frame]:
  assumes "b \<in> H" and "b + 16 \<le> 2 ^ 32" and "only_on (hdr_bytes H) m0 m"
  shows "only_on (hdr_bytes H) m0 (set_size m (of_nat b) v)"
    and "only_on (hdr_bytes H) m0 (set_free m (of_nat b) w)"
    and "only_on (hdr_bytes H) m0 (set_next m (of_nat b) v)"
    and "only_on (hdr_bytes H) m0 (set_prev m (of_nat b) v)"
proof -
  have "x \<notin> region b 16" if "x \<notin> hdr_bytes H" for x
    using that assms(1) by (auto simp: hdr_bytes_def)
  with assms show "only_on (hdr_bytes H) m0 (set_size m (of_nat b) v)"
    and "only_on (hdr_bytes H) m0 (set_free m (of_nat b) w)"
    and "only_on (hdr_bytes H) m0 (set_next m (of_nat b) v)"
    and "only_on (hdr_bytes H) m0 (set_prev m (of_nat b) v)"
    by (auto simp: only_on_def set_frame [OF assms(2)] simp del: region_iff)
qed

lemma live_not_hdr_bytes:
  assumes "(q, t) \<in> set (live a bs)" and "H \<subseteq> set (hdrs a bs)" and "x \<in> region q t"
  shows "x \<notin> hdr_bytes H"
  using assms live_hdrs_apart [OF assms(1)] by (fastforce simp: hdr_bytes_def)

section \<open>The search loop\<close>

lemma of_nat_le_u32: "k < 2 ^ 32 \<Longrightarrow> (w :: u32) \<le> of_nat k \<longleftrightarrow> unat w \<le> k"
  by (simp add: word_le_nat_alt unat_of_nat_small)

lemma of_nat_zero_u32: "k < 2 ^ 32 \<Longrightarrow> (of_nat k :: u32) = 0 \<longleftrightarrow> k = 0"
  using of_nat_eq_word_iff [where 'a = 32, of k 0] by simp

lemma find_seg:
  assumes "seg m p a bs 0" and "0 < a" and "a + span bs \<le> 2 ^ 31"
  shows "kmalloc_find m sz (ptr_to a bs 0) =
    Some (case alloc_spec (unat sz) a bs of None \<Rightarrow> 0 | Some (q, _) \<Rightarrow> of_nat (q - 16))"
  using assms
proof (induction bs arbitrary: p a)
  case Nil
  then show ?case by (simp add: kmalloc_find.simps)
next
  case (Cons b bs)
  have a: "(of_nat a :: u32) \<noteq> 0"
    using Cons.prems by (subst of_nat_zero_u32) auto
  have hd: "hdr_is m a b p (ptr_to (a + 16 + fst b) bs 0)"
    using Cons.prems(1) by simp
  have fits: "ld_free m (of_nat a) \<noteq> 0 \<and> sz \<le> ld_size m (of_nat a) \<longleftrightarrow> snd b \<and> unat sz \<le> fst b"
    using hd Cons.prems(3) by (auto simp: hdr_is_def ld_hdr of_nat_le_u32)
  have nxt: "ld_next m (of_nat a) = ptr_to (a + 16 + fst b) bs 0"
    using hd by (simp add: hdr_is_def ld_hdr)
  have IH: "kmalloc_find m sz (ptr_to (a + 16 + fst b) bs 0) = Some (case
      alloc_spec (unat sz) (a + 16 + fst b) bs of None \<Rightarrow> 0 | Some (q, _) \<Rightarrow> of_nat (q - 16))"
    by (rule Cons.IH) (use Cons.prems in auto)
  show ?case
    using IH a fits nxt
    by (subst kmalloc_find.simps) (auto split: option.splits)
qed


section \<open>Splitting\<close>

lemma hdrs_sep:
  assumes "a + span bs \<le> 2 ^ 32" and "x \<in> set (hdrs a bs)" and "y \<in> set (hdrs a bs)"
  shows "sep x y"
  using assms hdrs_bounds [OF assms(2)] hdrs_bounds [OF assms(3)] hdrs_apart [OF assms(2,3)]
  by (auto simp: sep_def)

lemma split_block_hdr:
  fixes b n s nb :: nat
  assumes sep: "sep x b" "sep x nb" "sep b nb" "sep nb b" "sep b b" "sep nb nb"
    and link: "nv \<noteq> 0 \<Longrightarrow> nv = of_nat nx \<and> sep x nx \<and> sep b nx \<and> sep nb nx \<and> sep nx nb
      \<and> sep nx nx \<and> nb \<noteq> nx"
    and ne: "b \<noteq> nb" "b \<noteq> nx"
    and nb: "(of_nat b :: u32) + 16 + of_nat n = of_nat nb"
    and hd: "mb_next (hdr m (of_nat b)) = nv" "mb_size (hdr m (of_nat b)) = sz"
  shows "hdr (split_block (of_nat b) (of_nat n) m) (of_nat x) =
    (if x = b then (hdr m (of_nat b))\<lparr>mb_size := of_nat n, mb_next := of_nat nb\<rparr>
     else if x = nb then \<lparr>mb_size = sz - of_nat n - 16, mb_is_free = 1, mb_next = nv, mb_prev = of_nat b\<rparr>
     else if nv \<noteq> 0 \<and> x = nx then (hdr m (of_nat x))\<lparr>mb_prev := of_nat nb\<rparr>
     else hdr m (of_nat x))"
proof (cases "nv = 0")
  case True
  then show ?thesis
    using sep ne hd unfolding split_block_def Let_def nb
    by (simp add: ld_hdr hdr_set)
next
  case False
  with link have nv: "nv = of_nat nx" "sep x nx" "sep b nx" "sep nb nx" "sep nx nb" "sep nx nx" "nb \<noteq> nx"
    by blast+
  with False have "(of_nat nx :: u32) \<noteq> 0" by simp
  with nv sep ne hd show ?thesis
    unfolding split_block_def Let_def nb
    by (simp add: ld_hdr hdr_set)
qed

lemma split_block_only_on:
  assumes "{b, nb} \<subseteq> H" and "b + 16 \<le> 2 ^ 32" and "nb + 16 \<le> 2 ^ 32"
    and "(of_nat b :: u32) + 16 + of_nat n = of_nat nb"
    and "mb_next (hdr m (of_nat b)) \<noteq> 0 \<Longrightarrow>
      mb_next (hdr m (of_nat b)) = of_nat nx \<and> nx \<in> H \<and> nx + 16 \<le> 2 ^ 32"
    and "sep b nb" "b \<noteq> nb"
  shows "only_on (hdr_bytes H) m (split_block (of_nat b) (of_nat n) m)"
  using assms
  by (auto simp: split_block_def Let_def ld_hdr hdr_set intro!: only_on_set only_on_refl)

text \<open>All headers after a split, and which bytes it writes.\<close>

lemma split_headers:
  fixes m :: memory
  assumes seg: "seg m 0 BASE (xs @ (s, True) # ys) 0"
    and span: "BASE + span (xs @ (s, True) # ys) \<le> 2 ^ 31"
    and big: "n + 48 < s"
  defines "b \<equiv> BASE + span xs"
  defines "m' \<equiv> set_free (split_block (of_nat b) (of_nat n) m) (of_nat b) 0"
  defines "nb \<equiv> b + 16 + n" and "nx \<equiv> b + 16 + s"
  defines "H \<equiv> set (hdrs BASE (xs @ (n, False) # (s - n - 16, True) # ys))"
  shows "x \<in> H \<Longrightarrow> hdr m' (of_nat x) =
      (if x = b then (hdr m (of_nat b))\<lparr>mb_size := of_nat n, mb_is_free := 0, mb_next := of_nat nb\<rparr>
       else if x = nb then \<lparr>mb_size = of_nat s - of_nat n - 16, mb_is_free = 1,
         mb_next = ptr_to nx ys 0, mb_prev = of_nat b\<rparr>
       else if ys \<noteq> [] \<and> x = nx then (hdr m (of_nat x))\<lparr>mb_prev := of_nat nb\<rparr>
       else hdr m (of_nat x))"
    and "only_on (hdr_bytes H) m m'" and "b \<in> H" and "nb \<in> H"
proof -
  let ?bs = "xs @ (n, False) # (s - n - 16, True) # ys"
  have sb: "BASE + span ?bs \<le> 2 ^ 31" using span big by simp
  show inH: "b \<in> H" "nb \<in> H" by (simp_all add: H_def b_def nb_def)
  have nxH: "ys \<noteq> [] \<Longrightarrow> nx \<in> H" using big by (cases ys) (simp_all add: H_def b_def nx_def)
  have sep: "sep x y" if "x \<in> H" "y \<in> H" for x y
    using that sb unfolding H_def by (intro hdrs_sep [of BASE ?bs]) auto
  have hd: "mb_next (hdr m (of_nat b)) = ptr_to nx ys 0" "mb_size (hdr m (of_nat b)) = of_nat s"
    using seg by (simp_all add: seg_append hdr_is_def b_def nx_def ac_simps)
  have room: "b + 16 \<le> 2 ^ 32" "nb + 16 \<le> 2 ^ 32" "nx + 16 \<le> 2 ^ 32" and ne: "b \<noteq> nb" "b \<noteq> nx" "nb \<noteq> nx"
    using span big by (simp_all add: b_def nb_def nx_def)
  have nbw: "(of_nat b :: u32) + 16 + of_nat n = of_nat nb" by (simp add: nb_def)
  have ys: "ptr_to nx ys 0 \<noteq> (0 :: u32) \<longleftrightarrow> ys \<noteq> []"
    using span of_nat_zero_u32 [of nx] by (auto simp: ptr_to_def b_def nx_def)
  show "hdr m' (of_nat x) =
      (if x = b then (hdr m (of_nat b))\<lparr>mb_size := of_nat n, mb_is_free := 0, mb_next := of_nat nb\<rparr>
       else if x = nb then \<lparr>mb_size = of_nat s - of_nat n - 16, mb_is_free = 1,
         mb_next = ptr_to nx ys 0, mb_prev = of_nat b\<rparr>
       else if ys \<noteq> [] \<and> x = nx then (hdr m (of_nat x))\<lparr>mb_prev := of_nat nb\<rparr>
       else hdr m (of_nat x))" if x: "x \<in> H"
  proof -
    have "hdr (split_block (of_nat b) (of_nat n) m) (of_nat x) =
      (if x = b then (hdr m (of_nat b))\<lparr>mb_size := of_nat n, mb_next := of_nat nb\<rparr>
       else if x = nb then \<lparr>mb_size = of_nat s - of_nat n - 16, mb_is_free = 1,
         mb_next = ptr_to nx ys 0, mb_prev = of_nat b\<rparr>
       else if ptr_to nx ys 0 \<noteq> 0 \<and> x = nx then (hdr m (of_nat x))\<lparr>mb_prev := of_nat nb\<rparr>
       else hdr m (of_nat x))"
      by (rule split_block_hdr)
        (use x inH nxH sep ys hd ne nbw in \<open>auto simp: ptr_to_def\<close>)
    then show ?thesis
      using sep [OF x inH(1)] sep [OF inH(1) inH(1)] ys by (auto simp: m'_def hdr_set)
  qed
  have "only_on (hdr_bytes H) m (split_block (of_nat b) (of_nat n) m)"
    by (rule split_block_only_on [where nb = nb and nx = nx])
      (use inH nxH sep [OF inH] hd(1) nbw room ne in \<open>auto simp: ptr_to_def split: if_splits\<close>)
  then show "only_on (hdr_bytes H) m m'"
    using inH sep [OF inH(1) inH(1)] by (auto simp: m'_def sep_def intro: only_on_set)
qed

lemma split_seg:
  fixes m :: memory
  assumes seg: "seg m 0 BASE (xs @ (s, True) # ys) 0"
    and span: "BASE + span (xs @ (s, True) # ys) \<le> 2 ^ 31"
    and big: "n + 48 < s"
  defines "b \<equiv> BASE + span xs"
  defines "m' \<equiv> set_free (split_block (of_nat b) (of_nat n) m) (of_nat b) 0"
  defines "bs' \<equiv> xs @ (n, False) # (s - n - 16, True) # ys"
  shows "seg m' 0 BASE bs' 0" and "only_on (hdr_bytes (set (hdrs BASE bs'))) m m'"
    and "ld_size m' (of_nat b) = of_nat n"
proof -
  let ?nb = "b + 16 + n" and ?nx = "b + 16 + s"
  have nx: "?nb + 16 + (s - n - 16) = ?nx" using big by simp
  have hd: "hdr_is m b (s, True) (last_hdr 0 BASE xs) (ptr_to ?nx ys 0)"
    and seg_xs: "seg m 0 BASE xs (of_nat b)" and seg_ys: "seg m b ?nx ys 0"
    using seg by (simp_all add: seg_append b_def ac_simps)
  note H = split_headers [OF seg span big, folded b_def, folded m'_def bs'_def]
  have size: "(of_nat s :: u32) - of_nat n - 16 = of_nat (s - n - 16)"
    using big by (simp add: of_nat_diff)
  have "seg m' 0 BASE xs (of_nat b)"
  proof (rule seg_cong [OF _ seg_xs])
    fix x assume x: "x \<in> set (hdrs BASE xs)"
    then have "x + 16 \<le> b" using hdrs_bounds by (auto simp: b_def)
    moreover have "x \<in> set (hdrs BASE bs')" using x by (simp add: bs'_def)
    ultimately show "hdr m' (of_nat x) = hdr m (of_nat x)" using H(1) by auto
  qed
  moreover have "hdr_is m' b (n, False) (last_hdr 0 BASE xs) (of_nat ?nb)"
    using H(1) [OF H(3)] hd by (simp add: hdr_is_def)
  moreover have "hdr_is m' ?nb (s - n - 16, True) b (ptr_to ?nx ys 0)"
    using H(1) [OF H(4)] size by (simp add: hdr_is_def)
  moreover have "seg m' ?nb ?nx ys 0"
  proof (rule seg_new_prev [OF seg_ys])
    fix x assume x: "x \<in> set (hdrs ?nx ys)"
    then have "?nx \<le> x" "ys \<noteq> []" using hdrs_bounds by auto
    moreover have "x \<in> set (hdrs BASE bs')" using x nx by (simp add: bs'_def b_def ac_simps)
    ultimately show "hdr m' (of_nat x) =
        (if x = ?nx then (hdr m (of_nat x))\<lparr>mb_prev := of_nat ?nb\<rparr> else hdr m (of_nat x))"
      using H(1) big by auto
  qed
  ultimately show "seg m' 0 BASE bs' 0"
    using nx by (simp add: bs'_def seg_append b_def ac_simps)
  show "ld_size m' (of_nat b) = of_nat n"
    using H(1) [OF H(3)] by (simp add: ld_hdr)
  show "only_on (hdr_bytes (set (hdrs BASE bs'))) m m'" by (rule H(2))
qed

section \<open>Changing a free flag\<close>

lemma retag_seg:
  assumes "seg m p a (xs @ (s, f) # ys) e" and "a + span (xs @ (s, f) # ys) \<le> 2 ^ 31"
    and "(w \<noteq> 0) = g"
  shows "seg (set_free m (of_nat (a + span xs)) w) p a (xs @ (s, g) # ys) e"
proof -
  let ?H = "set (hdrs a (xs @ (s, f) # ys))"
  define b where "b = a + span xs"
  have bH: "b \<in> ?H" by (simp add: b_def)
  have H: "hdr (set_free m (of_nat b) w) (of_nat x) =
      (if x = b then (hdr m (of_nat x))\<lparr>mb_is_free := w\<rparr> else hdr m (of_nat x))"
    if "x \<in> ?H" for x
    using hdrs_sep [OF _ that bH] hdrs_sep [OF _ bH bH] assms(2) by (auto simp: hdr_set_free)
  have "seg (set_free m (of_nat b) w) p a xs (of_nat b)"
  proof (rule seg_cong)
    show "seg m p a xs (of_nat b)" using assms(1) by (simp add: seg_append b_def)
    fix x assume "x \<in> set (hdrs a xs)"
    then show "hdr (set_free m (of_nat b) w) (of_nat x) = hdr m (of_nat x)"
      using H [of x] hdrs_bounds [of x a xs] by (auto simp: b_def)
  qed
  moreover have "seg (set_free m (of_nat b) w) b (b + 16 + s) ys e"
  proof (rule seg_cong)
    show "seg m b (b + 16 + s) ys e" using assms(1) by (simp add: seg_append b_def)
    fix x assume "x \<in> set (hdrs (b + 16 + s) ys)"
    then show "hdr (set_free m (of_nat b) w) (of_nat x) = hdr m (of_nat x)"
      using H [of x] hdrs_bounds [of x "b + 16 + s" ys] by (auto simp: b_def)
  qed
  moreover have "hdr_is (set_free m (of_nat b) w) b (s, g) (last_hdr p a xs) (ptr_to (b + 16 + s) ys e)"
    using assms(1,3) H [OF bH] by (simp add: seg_append hdr_is_def b_def)
  ultimately show ?thesis by (simp add: seg_append b_def)
qed

section \<open>The abstraction function\<close>

text \<open>
  Following the links for at most 262144 steps: a heap of 4 MB has no more blocks, as each
  takes at least the 16 bytes of its header.
\<close>

primrec walk :: "nat \<Rightarrow> memory \<Rightarrow> u32 \<Rightarrow> blk list" where
  "walk 0 m a = []"
| "walk (Suc k) m a = (if a = 0 then []
     else (unat (ld_size m a), ld_free m a \<noteq> 0) # walk k m (ld_next m a))"

definition heap_blocks :: "heap \<Rightarrow> blk list" where
  "heap_blocks h = walk 262144 (mem h) (heap_start h)"

definition heap_inv :: "heap \<Rightarrow> bool" where
  "heap_inv h \<longleftrightarrow> heap_rep h (heap_blocks h)"

lemma walk_seg:
  assumes "seg m p a bs 0" and "0 < a" and "a + span bs \<le> 2 ^ 31" and "length bs \<le> k"
  shows "walk k m (ptr_to a bs 0) = bs"
  using assms
proof (induction bs arbitrary: p a k)
  case Nil
  then show ?case by (cases k) auto
next
  case (Cons b bs)
  obtain j where k: "k = Suc j" using Cons.prems(4) by (cases k) auto
  have "(of_nat a :: u32) \<noteq> 0"
    using Cons.prems by (subst of_nat_zero_u32) auto
  moreover have "walk j m (ptr_to (a + 16 + fst b) bs 0) = bs"
    by (rule Cons.IH) (use Cons.prems k in auto)
  moreover have "unat (of_nat (fst b) :: u32) = fst b"
    using Cons.prems(3) by (intro unat_of_nat_small) simp
  ultimately show ?case
    using Cons.prems(1) by (simp add: k ld_hdr hdr_is_def)
qed

lemma heap_rep_blocks: "heap_rep h bs \<Longrightarrow> heap_blocks h = bs"
  using walk_seg [of "mem h" 0 BASE bs 262144] length_le_span [of bs]
  by (auto simp: heap_rep_def heap_blocks_def ptr_to_def)

lemma heap_rep_inv: "heap_rep h bs \<Longrightarrow> heap_inv h"
  by (simp add: heap_inv_def heap_rep_blocks)

section \<open>memory_init\<close>

definition init_blocks :: "blk list" where
  "init_blocks = [(EXTENT - 16, True)]"

lemma memory_init_rep: "heap_rep (memory_init h) init_blocks"
proof -
  have s: "sep 4194304 4194304" by (simp add: sep_def)
  show ?thesis
    by (simp add: heap_rep_def memory_init_def Let_def init_blocks_def hdr_is_def
        hdr_set [OF s, simplified])
qed

section \<open>kmalloc\<close>

lemma align4_unat: "unat (align4 sz) = (unat sz + 3) mod 2 ^ 32 div 4 * 4"
proof -
  have three: "(3 :: u32) = mask 2" by (simp add: mask_eq_exp_minus_1)
  have "(w AND NOT 3 :: u32) = push_bit 2 (drop_bit 2 w)" for w
  proof (rule bit_word_eqI)
    fix n :: nat
    have "2 \<le> n \<Longrightarrow> Suc (Suc (n - 2)) = n" by simp
    then show "bit (w AND NOT 3) n = bit (push_bit 2 (drop_bit 2 w)) n" if "n < LENGTH(32)"
      using that unfolding three by (auto simp: bit_simps not_less)
  qed
  then have "align4 sz = (sz + 3) div 4 * 4"
    by (simp add: align4_def push_bit_eq_mult drop_bit_eq_div)
  moreover have "unat ((sz + 3) div 4) = (unat sz + 3) mod 2 ^ 32 div 4"
    by (simp add: unat_div unat_word_ariths)
  moreover have "(unat sz + 3) mod 2 ^ 32 div 4 * 4 < 2 ^ 32"
    by (meson div_times_less_eq_dividend le_less_trans mod_less_divisor zero_less_numeral zero_less_power)
  ultimately show ?thesis by (simp add: unat_word_ariths)
qed


lemma align4_dvd: "4 dvd unat (align4 sz)"
  by (simp add: align4_unat)

lemma align4_ge: "unat sz \<le> 2 ^ 32 - 4 \<Longrightarrow> unat sz \<le> unat (align4 sz) \<and> unat (align4 sz) < unat sz + 4"
  by (simp add: align4_unat) linarith

text \<open>Above that bound the rounding wraps around and the aligned size is zero.\<close>

lemma align4_wraps: "2 ^ 32 - 4 < unat sz \<Longrightarrow> align4 sz = 0"
proof -
  assume "2 ^ 32 - 4 < unat sz"
  moreover have "unat sz < 2 ^ 32" using unsigned_less [where 'a = nat, of sz] by simp
  ultimately have "(unat sz + 3) mod 2 ^ 32 = unat sz + 3 - 2 ^ 32"
    by (simp add: mod_if)
  then have "(unat sz + 3) mod 2 ^ 32 < 4" using \<open>unat sz < 2 ^ 32\<close> by simp
  then have "unat (align4 sz) = 0" by (simp add: align4_unat)
  then show ?thesis by (simp add: unat_eq_0)
qed

lemma heap_rep_update:
  assumes "heap_rep h bs" and "seg m' 0 BASE bs' 0" and "span bs' = EXTENT"
    and "aligned bs'" and "coalesced bs'" and "bs' \<noteq> []" and "tot = of_nat (used bs')"
  shows "heap_rep (h\<lparr>mem := m', total_allocated := tot\<rparr>) bs'"
  using assms by (simp add: heap_rep_def)

lemma coalesced_carve:
  assumes "coalesced (xs @ (s, True) # ys)" and "n \<le> s"
  shows "coalesced (xs @ carve n s @ ys)"
  using assms by (auto simp: carve_def coalesced_append coalesced_Cons)

lemma kmalloc_take:
  assumes rep: "heap_rep h (xs @ (s, True) # ys)" and fit: "unat sz \<le> s" and dvd: "4 dvd unat sz"
  defines "b \<equiv> BASE + span xs" and "bs' \<equiv> xs @ carve (unat sz) s @ ys"
  defines "m \<equiv> set_free (if sz + 16 + 32 < ld_size (mem h) (of_nat b)
      then split_block (of_nat b) sz (mem h) else mem h) (of_nat b) 0"
  shows "heap_rep (h\<lparr>mem := m, total_allocated := total_allocated h + ld_size m (of_nat b)\<rparr>) bs'"
    and "only_on (hdr_bytes (set (hdrs BASE bs'))) (mem h) m"
proof -
  let ?bs = "xs @ (s, True) # ys"
  have seg: "seg (mem h) 0 BASE ?bs 0" and sp: "span ?bs = EXTENT"
    and al: "aligned ?bs" and co: "coalesced ?bs" and tot: "total_allocated h = of_nat (used ?bs)"
    using rep by (auto simp: heap_rep_def)
  have s: "s \<le> 4194304" using sp by simp
  have room: "BASE + span ?bs \<le> 2 ^ 31" using sp by simp
  have size: "ld_size (mem h) (of_nat b) = of_nat s"
    using seg by (simp add: seg_append hdr_is_def ld_hdr b_def)
  have cond: "sz + 16 + 32 < ld_size (mem h) (of_nat b) \<longleftrightarrow> unat sz + 48 < s"
    using fit s by (simp add: size word_less_nat_alt unat_word_ariths unat_of_nat_small) linarith
  have b': "b \<in> set (hdrs BASE bs')" by (simp add: bs'_def b_def carve_def)
  have "seg m 0 BASE bs' 0 \<and> only_on (hdr_bytes (set (hdrs BASE bs'))) (mem h) m
      \<and> ld_size m (of_nat b) = of_nat (used (carve (unat sz) s))"
  proof (cases "unat sz + 48 < s")
    case True
    then show ?thesis
      using split_seg [OF seg room True] cond by (simp add: m_def bs'_def carve_def b_def)
  next
    case False
    have sb: "sep b b" using room by (simp add: sep_def b_def)
    have "only_on (hdr_bytes (set (hdrs BASE bs'))) (mem h) (set_free (mem h) (of_nat b) 0)"
      using b' room by (intro only_on_set only_on_refl) (simp_all add: b_def)
    moreover have "seg (set_free (mem h) (of_nat b) 0) 0 BASE (xs @ (s, False) # ys) 0"
      unfolding b_def by (rule retag_seg [OF seg room]) simp
    moreover have "m = set_free (mem h) (of_nat b) 0" using False cond by (simp add: m_def)
    ultimately show ?thesis
      using False size sb by (simp add: bs'_def carve_def ld_hdr hdr_set_free)
  qed
  then show "only_on (hdr_bytes (set (hdrs BASE bs'))) (mem h) m"
    and "heap_rep (h\<lparr>mem := m, total_allocated := total_allocated h + ld_size m (of_nat b)\<rparr>) bs'"
    using carve_facts [OF fit] sp al co dvd tot coalesced_carve [OF co fit]
    by (auto simp: bs'_def intro!: heap_rep_update [OF rep])
qed

theorem kmalloc_rep:
  assumes rep: "heap_rep h bs" and "req \<noteq> 0"
  shows "case alloc_spec (unat (align4 req)) BASE bs of
      None \<Rightarrow> kmalloc req h = Some (0, h)
    | Some (q, bs') \<Rightarrow> \<exists>h'. kmalloc req h = Some (of_nat q, h') \<and> heap_rep h' bs'
        \<and> only_on (hdr_bytes (set (hdrs BASE bs'))) (mem h) (mem h')"
proof -
  let ?n = "unat (align4 req)"
  have init: "memory_initialized h" and start: "heap_start h = ptr_to BASE bs 0"
    and sp: "span bs = EXTENT" and seg: "seg (mem h) 0 BASE bs 0"
    using rep by (auto simp: heap_rep_def ptr_to_def)
  have find: "kmalloc_find (mem h) (align4 req) (heap_start h) =
      Some (case alloc_spec ?n BASE bs of None \<Rightarrow> 0 | Some (q, _) \<Rightarrow> of_nat (q - 16))"
    unfolding start by (rule find_seg [OF seg]) (simp_all add: sp)
  show ?thesis
  proof (cases rule: first_fit_cases [of ?n bs])
    case 1
    then have "alloc_spec ?n BASE bs = None" by (simp add: alloc_spec_None)
    then show ?thesis using find init assms(2) by (simp add: kmalloc_def)
  next
    case (2 xs s ys)
    let ?b = "BASE + span xs"
    have spec: "alloc_spec ?n BASE bs = Some (?b + 16, xs @ carve ?n s @ ys)"
      using 2 by (simp add: alloc_spec_split)
    have "(of_nat ?b :: u32) \<noteq> 0"
      using sp 2 by (subst of_nat_zero_u32) auto
    then have "kmalloc req h = Some (of_nat ?b + 16, h\<lparr>mem := set_free
        (if align4 req + 16 + 32 < ld_size (mem h) (of_nat ?b)
         then split_block (of_nat ?b) (align4 req) (mem h) else mem h) (of_nat ?b) 0,
        total_allocated := total_allocated h + ld_size (set_free
        (if align4 req + 16 + 32 < ld_size (mem h) (of_nat ?b)
         then split_block (of_nat ?b) (align4 req) (mem h) else mem h) (of_nat ?b) 0) (of_nat ?b)\<rparr>)"
      using find init assms(2) spec by (simp add: kmalloc_def Let_def)
    then show ?thesis
      using kmalloc_take [of h xs s ys "align4 req"] rep 2 align4_dvd [of req] spec
      by simp
  qed
qed


section \<open>Joining a block with its successor\<close>

lemma merge_next_hdr:
  assumes sep: "sep x b" "sep b c" "sep c b" "sep b b" "b \<noteq> c"
    and link: "nv \<noteq> 0 \<Longrightarrow> nv = of_nat d \<and> sep x d \<and> sep b d \<and> sep d b \<and> sep c d \<and> sep d d
      \<and> d \<noteq> b \<and> d \<noteq> c"
    and hd: "mb_next (hdr m (of_nat b)) = of_nat c" "mb_next (hdr m (of_nat c)) = nv"
  shows "hdr (merge_next (of_nat b) m) (of_nat x) =
    (if x = b then (hdr m (of_nat b))\<lparr>mb_size := mb_size (hdr m (of_nat b)) + (mb_size (hdr m (of_nat c)) + 16),
        mb_next := nv\<rparr>
     else if nv \<noteq> 0 \<and> x = d then (hdr m (of_nat x))\<lparr>mb_prev := of_nat b\<rparr>
     else hdr m (of_nat x))"
proof (cases "nv = 0")
  case True
  then show ?thesis
    using sep hd unfolding merge_next_def Let_def by (simp add: ld_hdr hdr_set)
next
  case False
  with link have nv: "nv = of_nat d" "sep x d" "sep b d" "sep d b" "sep c d" "sep d d" "d \<noteq> b" "d \<noteq> c"
    by blast+
  with False have "(of_nat d :: u32) \<noteq> 0" by simp
  with nv sep hd show ?thesis
    unfolding merge_next_def Let_def by (simp add: ld_hdr hdr_set)
qed

lemma merge_next_only_on:
  assumes "b \<in> H" and "b + 16 \<le> 2 ^ 32" and "sep b c" "sep c b" "sep b b" "b \<noteq> c"
    and "mb_next (hdr m (of_nat b)) = of_nat c"
    and "mb_next (hdr m (of_nat c)) \<noteq> 0 \<Longrightarrow>
      mb_next (hdr m (of_nat c)) = of_nat d \<and> d \<in> H \<and> d + 16 \<le> 2 ^ 32"
  shows "only_on (hdr_bytes H) m (merge_next (of_nat b) m)"
  using assms
  by (auto simp: merge_next_def Let_def ld_hdr hdr_set intro!: only_on_set only_on_refl)

lemma merge_seg:
  fixes m :: memory
  assumes seg: "seg m p a (xs @ (s, f) # (t, g) # zs) 0"
    and room: "a + span (xs @ (s, f) # (t, g) # zs) \<le> 2 ^ 31"
  defines "b \<equiv> a + span xs" and "bs \<equiv> xs @ (s, f) # (t, g) # zs"
  shows "seg (merge_next (of_nat b) m) p a (xs @ (s + (t + 16), f) # zs) 0"
    and "only_on (hdr_bytes (set (hdrs a bs))) m (merge_next (of_nat b) m)"
    and "\<forall>x \<in> set (hdrs a bs). ld_free (merge_next (of_nat b) m) (of_nat x) = ld_free m (of_nat x)"
proof -
  define c where "c = b + 16 + s"
  define d where "d = c + 16 + t"
  let ?m = "merge_next (of_nat b) m"
  have inH: "b \<in> set (hdrs a bs)" "c \<in> set (hdrs a bs)" "zs \<noteq> [] \<Longrightarrow> d \<in> set (hdrs a bs)"
    by (cases zs; simp add: bs_def b_def c_def d_def ac_simps)+
  have sep: "sep x y" if "x \<in> set (hdrs a bs)" "y \<in> set (hdrs a bs)" for x y
    using that room by (intro hdrs_sep [of a bs]) (auto simp: bs_def)
  have ne: "b \<noteq> c" "d \<noteq> b" "d \<noteq> c" by (simp_all add: c_def d_def)
  have hb: "hdr_is m b (s, f) (last_hdr p a xs) (of_nat c)"
    and hc: "hdr_is m c (t, g) b (ptr_to d zs 0)"
    and seg_xs: "seg m p a xs (of_nat b)" and seg_zs: "seg m c d zs 0"
    using seg by (simp_all add: seg_append b_def c_def d_def)
  have dnz: "ptr_to d zs 0 \<noteq> (0 :: u32) \<longleftrightarrow> zs \<noteq> []"
    using room of_nat_zero_u32 [of d] by (auto simp: ptr_to_def b_def c_def d_def)
  have H: "hdr ?m (of_nat x) =
      (if x = b then (hdr m (of_nat b))\<lparr>mb_size := of_nat s + (of_nat t + 16), mb_next := ptr_to d zs 0\<rparr>
       else if zs \<noteq> [] \<and> x = d then (hdr m (of_nat x))\<lparr>mb_prev := of_nat b\<rparr>
       else hdr m (of_nat x))" if x: "x \<in> set (hdrs a bs)" for x
  proof -
    have "hdr ?m (of_nat x) =
      (if x = b then (hdr m (of_nat b))\<lparr>mb_size := mb_size (hdr m (of_nat b)) + (mb_size (hdr m (of_nat c)) + 16),
         mb_next := ptr_to d zs 0\<rparr>
       else if ptr_to d zs 0 \<noteq> 0 \<and> x = d then (hdr m (of_nat x))\<lparr>mb_prev := of_nat b\<rparr>
       else hdr m (of_nat x))"
      by (rule merge_next_hdr [where c = c])
        (use x inH sep hb hc dnz ne in \<open>auto simp: hdr_is_def ptr_to_def\<close>)
    then show ?thesis using hb hc dnz by (simp add: hdr_is_def)
  qed
  show "\<forall>x \<in> set (hdrs a bs). ld_free ?m (of_nat x) = ld_free m (of_nat x)"
    using H by (simp add: ld_hdr)
  have "seg ?m p a xs (of_nat b)"
  proof (rule seg_cong [OF _ seg_xs])
    fix x assume x: "x \<in> set (hdrs a xs)"
    then have "x + 16 \<le> b" using hdrs_bounds by (auto simp: b_def)
    moreover have "x \<in> set (hdrs a bs)" using x by (simp add: bs_def)
    ultimately show "hdr ?m (of_nat x) = hdr m (of_nat x)" using H by (auto simp: c_def d_def)
  qed
  moreover have "hdr_is ?m b (s + (t + 16), f) (last_hdr p a xs) (ptr_to d zs 0)"
    using H [OF inH(1)] hb by (simp add: hdr_is_def)
  moreover have "seg ?m b d zs 0"
  proof (rule seg_new_prev [OF seg_zs])
    fix x assume x: "x \<in> set (hdrs d zs)"
    then have "d \<le> x" "zs \<noteq> []" using hdrs_bounds by auto
    moreover have "x \<in> set (hdrs a bs)" using x by (simp add: bs_def b_def c_def d_def ac_simps)
    ultimately show "hdr ?m (of_nat x) =
        (if x = d then (hdr m (of_nat x))\<lparr>mb_prev := of_nat b\<rparr> else hdr m (of_nat x))"
      using H [of x] by (auto simp: c_def d_def)
  qed
  ultimately show "seg ?m p a (xs @ (s + (t + 16), f) # zs) 0"
    by (simp add: seg_append b_def c_def d_def ac_simps)
  show "only_on (hdr_bytes (set (hdrs a bs))) m ?m"
    by (rule merge_next_only_on [where c = c and d = d])
      (use inH sep hb hc dnz ne in \<open>auto simp: hdr_is_def ptr_to_def sep_def\<close>)
qed

text \<open>Joining with the predecessor is the predecessor's joining with its successor.\<close>

lemma merge_prev_next:
  assumes "ld_prev m (of_nat c) = of_nat b" and "ld_next m (of_nat b) = of_nat c"
    and "sep b c" "sep c b" "sep b b" "sep c c" "b \<noteq> c"
    and "ld_next m (of_nat c) \<noteq> 0 \<Longrightarrow>
      ld_next m (of_nat c) = of_nat d \<and> sep b d \<and> sep c d \<and> d \<noteq> b \<and> d \<noteq> c"
  shows "merge_prev (of_nat c) m = merge_next (of_nat b) m"
  using assms
  by (cases "ld_next m (of_nat c) = 0")
    (simp_all add: merge_prev_def merge_next_def Let_def ld_hdr hdr_set)


section \<open>kfree\<close>

lemma hdr_bytes_mono: "H \<subseteq> K \<Longrightarrow> hdr_bytes H \<subseteq> hdr_bytes K"
  by (auto simp: hdr_bytes_def)

lemma only_on_mono: "only_on A m m' \<Longrightarrow> A \<subseteq> B \<Longrightarrow> only_on B m m'"
  by (auto simp: only_on_def)

lemma free_right:
  fixes m :: memory
  assumes seg: "seg m 0 BASE (xs @ (s, True) # ys) 0"
    and room: "BASE + span (xs @ (s, True) # ys) \<le> 2 ^ 31"
    and j: "join_right s ys = (s1, ys1)"
  defines "b \<equiv> BASE + span xs"
  defines "m' \<equiv> (if ld_next m (of_nat b) \<noteq> 0 \<and> ld_free m (ld_next m (of_nat b)) \<noteq> 0
    then merge_next (of_nat b) m else m)"
  shows "seg m' 0 BASE (xs @ (s1, True) # ys1) 0
    \<and> only_on (hdr_bytes (set (hdrs BASE (xs @ (s, True) # ys)))) m m'
    \<and> (\<forall>x \<in> set (hdrs BASE (xs @ (s, True) # ys)). ld_free m' (of_nat x) = ld_free m (of_nat x))"
proof (cases ys)
  case Nil
  have "ld_next m (of_nat b) = 0"
    using seg by (simp add: Nil seg_append hdr_is_def ld_hdr b_def)
  then show ?thesis using seg j by (simp add: m'_def Nil join_right_def only_on_refl)
next
  case (Cons y zs)
  obtain t g where y: "y = (t, g)" by fastforce
  let ?c = "b + 16 + s"
  have n: "ld_next m (of_nat b) = of_nat ?c" and g: "(ld_free m (of_nat ?c) \<noteq> 0) = g"
    using seg by (simp_all add: Cons y seg_append hdr_is_def ld_hdr b_def ac_simps)
  have nz: "(of_nat ?c :: u32) \<noteq> 0"
    using room by (subst of_nat_zero_u32) (auto simp: b_def)
  show ?thesis
  proof (cases g)
    case True
    then have "m' = merge_next (of_nat b) m" using n g nz by (simp only: m'_def) simp
    moreover have "s1 = s + (t + 16)" "ys1 = zs" using j True by (simp_all add: Cons y join_right_def)
    ultimately show ?thesis
      using merge_seg [of m 0 BASE xs s True t g zs] seg room by (simp add: Cons y b_def)
  next
    case False
    then have "m' = m" using n g by (simp only: m'_def) simp
    moreover have "s1 = s" "ys1 = ys" using j False by (simp_all add: Cons y join_right_def)
    ultimately show ?thesis using seg by (simp add: only_on_refl)
  qed
qed

lemma free_left:
  fixes m :: memory
  assumes seg: "seg m 0 BASE (xs @ (s, True) # ys) 0"
    and room: "BASE + span (xs @ (s, True) # ys) \<le> 2 ^ 31"
    and j: "join_left xs s = (xs2, s2)"
  defines "c \<equiv> BASE + span xs"
  defines "m' \<equiv> (if ld_prev m (of_nat c) \<noteq> 0 \<and> ld_free m (ld_prev m (of_nat c)) \<noteq> 0
    then merge_prev (of_nat c) m else m)"
  shows "seg m' 0 BASE (xs2 @ (s2, True) # ys) 0
    \<and> only_on (hdr_bytes (set (hdrs BASE (xs @ (s, True) # ys)))) m m'
    \<and> (\<forall>x \<in> set (hdrs BASE (xs @ (s, True) # ys)). ld_free m' (of_nat x) = ld_free m (of_nat x))"
proof (cases xs rule: rev_cases)
  case Nil
  have "ld_prev m (of_nat c) = 0"
    using seg by (simp add: Nil hdr_is_def ld_hdr c_def)
  then show ?thesis using seg j by (simp add: m'_def Nil join_left_def only_on_refl)
next
  case (snoc ws y)
  obtain r g where y: "y = (r, g)" by fastforce
  define b where "b = BASE + span ws"
  have c: "c = b + 16 + r" by (simp add: b_def c_def snoc y)
  let ?bs = "ws @ (r, g) # (s, True) # ys"
  have seg': "seg m 0 BASE ?bs 0" and room': "BASE + span ?bs \<le> 2 ^ 31"
    using seg room by (simp_all add: snoc y)
  have facts: "ld_prev m (of_nat c) = of_nat b" "(ld_free m (of_nat b) \<noteq> 0) = g"
      "ld_next m (of_nat b) = of_nat c" "ld_next m (of_nat c) = ptr_to (c + 16 + s) ys 0"
    using seg' by (simp_all add: seg_append hdr_is_def ld_hdr b_def c ac_simps)
  have nz: "(of_nat b :: u32) \<noteq> 0"
    using room' by (subst of_nat_zero_u32) (auto simp: b_def)
  show ?thesis
  proof (cases g)
    case True
    have inH: "b \<in> set (hdrs BASE ?bs)" "c \<in> set (hdrs BASE ?bs)"
        "ys \<noteq> [] \<Longrightarrow> c + 16 + s \<in> set (hdrs BASE ?bs)"
      by (cases ys; simp add: b_def c ac_simps)+
    have sep: "sep x y" if "x \<in> set (hdrs BASE ?bs)" "y \<in> set (hdrs BASE ?bs)" for x y
      using that room' by (intro hdrs_sep [of BASE ?bs]) auto
    have "merge_prev (of_nat c) m = merge_next (of_nat b) m"
      by (rule merge_prev_next [where d = "c + 16 + s"])
        (use facts sep [OF inH(1) inH(1)] sep [OF inH(1,2)] sep [OF inH(2) inH(1)] sep [OF inH(2,2)]
          sep [OF inH(1) inH(3)] sep [OF inH(2) inH(3)] in \<open>auto simp: c ptr_to_def split: if_splits\<close>)
    then have "m' = merge_next (of_nat b) m" using True facts nz by (simp only: m'_def) simp
    moreover have "xs2 = ws" "s2 = r + (s + 16)" using j True by (simp_all add: snoc y join_left_def)
    ultimately show ?thesis
      using merge_seg [OF seg' room'] True by (simp add: snoc y b_def)
  next
    case False
    then have "m' = m" using facts by (simp only: m'_def) simp
    moreover have "s2 = s" "xs2 = xs" using j False by (simp_all add: snoc y join_left_def)
    ultimately show ?thesis using seg by (simp add: only_on_refl)
  qed
qed

text \<open>The three stages of freeing on the memory: the flag, the successor, the predecessor.\<close>

definition freed_mem :: "u32 \<Rightarrow> memory \<Rightarrow> memory" where
  "freed_mem b m =
     (let m1 = set_free m b 1;
          m2 = (if ld_next m1 b \<noteq> 0 \<and> ld_free m1 (ld_next m1 b) \<noteq> 0 then merge_next b m1 else m1)
      in if ld_prev m2 b \<noteq> 0 \<and> ld_free m2 (ld_prev m2 b) \<noteq> 0 then merge_prev b m2 else m2)"

lemma freed_mem_seg:
  assumes seg: "seg m 0 BASE (xs @ (s, False) # ys) 0"
    and room: "BASE + span (xs @ (s, False) # ys) \<le> 2 ^ 31"
    and jr: "join_right s ys = (s1, ys1)" and jl: "join_left xs s1 = (xs2, s2)"
  defines "b \<equiv> BASE + span xs" and "bs \<equiv> xs @ (s, False) # ys"
  shows "seg (freed_mem (of_nat b) m) 0 BASE (xs2 @ (s2, True) # ys1) 0
    \<and> only_on (hdr_bytes (set (hdrs BASE bs))) m (freed_mem (of_nat b) m)
    \<and> ld_free (freed_mem (of_nat b) m) (of_nat b) = 1"
proof -
  let ?H = "hdr_bytes (set (hdrs BASE bs))"
  define m1 where "m1 = set_free m (of_nat b) 1"
  define m2 where "m2 = (if ld_next m1 (of_nat b) \<noteq> 0 \<and> ld_free m1 (ld_next m1 (of_nat b)) \<noteq> 0
      then merge_next (of_nat b) m1 else m1)"
  define m3 where "m3 = (if ld_prev m2 (of_nat b) \<noteq> 0 \<and> ld_free m2 (ld_prev m2 (of_nat b)) \<noteq> 0
      then merge_prev (of_nat b) m2 else m2)"
  have m3: "freed_mem (of_nat b) m = m3" by (simp add: freed_mem_def m1_def m2_def m3_def Let_def)
  have sep: "sep b b" using room by (simp add: sep_def b_def)
  have roomT: "BASE + span (xs @ (s, True) # ys) \<le> 2 ^ 31" using room by simp
  have seg1: "seg m1 0 BASE (xs @ (s, True) # ys) 0"
    unfolding m1_def b_def by (rule retag_seg [OF seg room]) simp
  have on1: "only_on ?H m m1"
    unfolding m1_def using room by (intro only_on_set only_on_refl) (simp_all add: bs_def b_def)
  have 2: "seg m2 0 BASE (xs @ (s1, True) # ys1) 0 \<and> only_on ?H m1 m2
      \<and> ld_free m2 (of_nat b) = ld_free m1 (of_nat b)"
    using free_right [OF seg1 roomT jr, folded b_def, folded m2_def] by (simp add: bs_def b_def)
  have room2: "BASE + span (xs @ (s1, True) # ys1) \<le> 2 ^ 31"
    using join_right_facts(1) [OF jr] room by simp
  have sub: "hdr_bytes (set (hdrs BASE (xs @ (s1, True) # ys1))) \<subseteq> ?H"
    using join_right_facts(5) [OF jr, of "BASE + span xs + 16"]
    by (intro hdr_bytes_mono) (auto simp: bs_def)
  have "b \<in> set (hdrs BASE (xs @ (s1, True) # ys1))" by (simp add: b_def)
  then have 3: "seg m3 0 BASE (xs2 @ (s2, True) # ys1) 0 \<and> only_on ?H m2 m3
      \<and> ld_free m3 (of_nat b) = ld_free m2 (of_nat b)"
    using free_left [OF conjunct1 [OF 2] room2 jl, folded b_def, folded m3_def] only_on_mono [OF _ sub]
    by blast
  have "ld_free m1 (of_nat b) = 1" using sep by (simp add: m1_def ld_hdr hdr_set_free)
  then have "ld_free m3 (of_nat b) = 1" using 2 3 by simp
  moreover have "only_on ?H m m3" using on1 2 3 by (blast intro: only_on_trans)
  ultimately show ?thesis using 3 unfolding m3 by simp
qed

theorem kfree_rep:
  assumes rep: "heap_rep h (xs @ (s, False) # ys)"
  defines "b \<equiv> BASE + span xs" and "bs \<equiv> xs @ (s, False) # ys"
  shows "heap_rep (kfree (of_nat (b + 16)) h) (free_spec (b + 16) BASE bs)
    \<and> only_on (hdr_bytes (set (hdrs BASE bs))) (mem h) (mem (kfree (of_nat (b + 16)) h))
    \<and> ld_free (mem (kfree (of_nat (b + 16)) h)) (of_nat b) = 1"
proof -
  obtain s1 ys1 where jr: "join_right s ys = (s1, ys1)" by fastforce
  obtain xs2 s2 where jl: "join_left xs s1 = (xs2, s2)" by fastforce
  have seg: "seg (mem h) 0 BASE (xs @ (s, False) # ys) 0" and sp: "span (xs @ (s, False) # ys) = EXTENT"
    and init: "memory_initialized h" and tot: "total_allocated h = of_nat (used bs)"
    and al: "aligned bs" and co: "coalesced bs"
    using rep by (auto simp: heap_rep_def bs_def)
  have room: "BASE + span (xs @ (s, False) # ys) \<le> 2 ^ 31" using sp by simp
  have hb: "ld_free (mem h) (of_nat b) = 0" "ld_size (mem h) (of_nat b) = of_nat s"
    using seg by (simp_all add: seg_append hdr_is_def ld_hdr b_def)
  have "sep b b" using sp by (simp add: sep_def b_def)
  then have size: "ld_size (set_free (mem h) (of_nat b) 1) (of_nat b) = of_nat s"
    using hb by (simp add: ld_hdr hdr_set_free)
  have "(of_nat (b + 16) :: u32) \<noteq> 0"
    using room by (subst of_nat_zero_u32) (auto simp: b_def)
  then have kfree: "kfree (of_nat (b + 16)) h =
      h\<lparr>mem := freed_mem (of_nat b) (mem h), total_allocated := total_allocated h - of_nat s\<rparr>"
    using init hb size by (simp add: kfree_def Let_def freed_mem_def)
  note m = freed_mem_seg [OF seg room jr jl, folded b_def, folded bs_def]
  have join: "join_free (xs @ (s, True) # ys) = xs2 @ (s2, True) # ys1
      \<and> coalesced (xs2 @ (s2, True) # ys1)"
    by (rule join_free_local [OF co [unfolded bs_def] jr jl])
  then have spec: "free_spec (b + 16) BASE bs = xs2 @ (s2, True) # ys1"
    by (simp add: free_spec_def bs_def b_def mark_free_split)
  have "heap_rep (kfree (of_nat (b + 16)) h) (xs2 @ (s2, True) # ys1)"
    unfolding kfree
  proof (rule heap_rep_update [OF rep])
    show "span (xs2 @ (s2, True) # ys1) = EXTENT"
      using join_right_facts(1) [OF jr] join_left_facts(1) [OF jl] sp by simp
    show "aligned (xs2 @ (s2, True) # ys1)"
      using join_right_facts(3) [OF jr] join_left_facts(3) [OF jl] al by (simp add: bs_def)
    show "total_allocated h - of_nat s = of_nat (used (xs2 @ (s2, True) # ys1))"
      using join_right_facts(2) [OF jr] join_left_facts(2) [OF jl] tot by (simp add: bs_def)
  qed (use m join in auto)
  moreover have "mem (kfree (of_nat (b + 16)) h) = freed_mem (of_nat b) (mem h)"
    unfolding kfree by simp
  ultimately show ?thesis using m by (simp only: spec)
qed

end
