(* ===== verification/Heap_Properties.thy ===== *)
theory Heap_Properties imports Heap_Refinement begin

text \<open>
  The contract of the heap as an interface, its interpretation on the model of
  src/mm/memory.c, and the properties of \<open>kmalloc\<close>, \<open>kfree\<close>, \<open>krealloc\<close> and the
  counters.
\<close>

unbundle bit_operations_syntax

section \<open>The allocator interface\<close>

text \<open>
  \<open>regions h\<close> are the payloads handed out and not yet released, with their sizes;
  \<open>byte\<close> is the memory. The laws are what a client may rely on.
\<close>

locale allocator =
  fixes ok :: "'h \<Rightarrow> bool"
    and allocate :: "u32 \<Rightarrow> 'h \<Rightarrow> (u32 \<times> 'h) option"
    and release :: "u32 \<Rightarrow> 'h \<Rightarrow> 'h"
    and regions :: "'h \<Rightarrow> (nat \<times> nat) set"
    and byte :: "'h \<Rightarrow> u32 \<Rightarrow> u8"
  assumes regions_apart: "ok h \<Longrightarrow> (q, t) \<in> regions h \<Longrightarrow> (r, u) \<in> regions h \<Longrightarrow>
      (q, t) = (r, u) \<or> q + t + 16 \<le> r \<or> r + u + 16 \<le> q"
    and regions_room: "ok h \<Longrightarrow> (q, t) \<in> regions h \<Longrightarrow> 0 < q \<and> q + t \<le> 2 ^ 31"
    and allocate_returns: "ok h \<Longrightarrow> \<exists>p h'. allocate n h = Some (p, h')"
    and allocate_null: "ok h \<Longrightarrow> allocate n h = Some (0, h') \<Longrightarrow> h' = h"
    and allocate_some: "ok h \<Longrightarrow> allocate n h = Some (p, h') \<Longrightarrow> p \<noteq> 0 \<Longrightarrow>
      ok h' \<and> (\<exists>t. (unat n + 3) mod 2 ^ 32 div 4 * 4 \<le> t \<and> regions h' = insert (unat p, t) (regions h)
        \<and> (unat p, t) \<notin> regions h)"
    and allocate_keeps: "ok h \<Longrightarrow> allocate n h = Some (p, h') \<Longrightarrow> (q, t) \<in> regions h \<Longrightarrow>
      x \<in> region q t \<Longrightarrow> byte h' x = byte h x"
    and release_live: "ok h \<Longrightarrow> (unat p, t) \<in> regions h \<Longrightarrow>
      ok (release p h) \<and> regions (release p h) = regions h - {(unat p, t)}"
    and release_keeps: "ok h \<Longrightarrow> (unat p, t) \<in> regions h \<Longrightarrow> (q, u) \<in> regions h \<Longrightarrow>
      x \<in> region q u \<Longrightarrow> byte (release p h) x = byte h x"
begin

lemma allocate_new:
  assumes "ok h" and "allocate n h = Some (p, h')" and "p \<noteq> 0" and "unat n \<le> 2 ^ 32 - 4"
  shows "ok h' \<and> (\<exists>t. unat n \<le> t \<and> regions h' = insert (unat p, t) (regions h)
    \<and> (unat p, t) \<notin> regions h)"
proof -
  have "unat n \<le> (unat n + 3) mod 2 ^ 32 div 4 * 4" using assms(4) by simp
  then show ?thesis using allocate_some [OF assms(1-3)] le_trans by blast
qed

lemma two_allocations:
  assumes "ok h" and "allocate n h = Some (p, h1)" and "p \<noteq> 0" and "unat n \<le> 2 ^ 32 - 4"
    and "allocate k h1 = Some (q, h2)" and "q \<noteq> 0" and "unat k \<le> 2 ^ 32 - 4"
  shows "region (unat p) (unat n) \<inter> region (unat q) (unat k) = {}"
proof -
  obtain t where t: "ok h1" "unat n \<le> t" "(unat p, t) \<in> regions h1"
    using allocate_new [OF assms(1-4)] by blast
  obtain u where u: "ok h2" "unat k \<le> u" "regions h2 = insert (unat q, u) (regions h1)"
      "(unat q, u) \<notin> regions h1"
    using allocate_new [OF t(1) assms(5-7)] by blast
  then have "unat p + t + 16 \<le> unat q \<or> unat q + u + 16 \<le> unat p"
    using regions_apart [of h2 "unat p" t "unat q" u] t by auto
  then show ?thesis using t(2) u(2) by auto
qed

lemma allocate_release:
  assumes "ok h" and "allocate n h = Some (p, h1)" and "p \<noteq> 0" and "unat n \<le> 2 ^ 32 - 4"
  shows "ok (release p h1) \<and> regions (release p h1) = regions h"
proof -
  obtain t where "ok h1" "regions h1 = insert (unat p, t) (regions h)" "(unat p, t) \<notin> regions h"
    using allocate_new [OF assms] by blast
  then show ?thesis using release_live [of h1 p t] by auto
qed

text \<open>Two blocks taken and returned in the order they were taken, as \<open>memtest\<close> does.\<close>

lemma return_two:
  assumes "ok h" and "allocate n h = Some (p, h1)" and "p \<noteq> 0" and "unat n \<le> 2 ^ 32 - 4"
    and "allocate k h1 = Some (q, h2)" and "q \<noteq> 0" and "unat k \<le> 2 ^ 32 - 4"
  shows "ok (release q (release p h2)) \<and> regions (release q (release p h2)) = regions h"
proof -
  obtain t where t: "ok h1" "regions h1 = insert (unat p, t) (regions h)" "(unat p, t) \<notin> regions h"
    using allocate_new [OF assms(1-4)] by blast
  obtain u where u: "ok h2" "regions h2 = insert (unat q, u) (regions h1)" "(unat q, u) \<notin> regions h1"
    using allocate_new [OF t(1) assms(5-7)] by blast
  then have p: "ok (release p h2)" "regions (release p h2) = insert (unat q, u) (regions h)"
    using release_live [of h2 p t] t by auto
  then show ?thesis using release_live [of "release p h2" q u] u t by auto
qed

end

text \<open>A client that also writes into the payloads it owns.\<close>

locale heap_client = allocator +
  fixes store :: "u32 \<Rightarrow> u8 \<Rightarrow> 'a \<Rightarrow> 'a"
  assumes store_live: "ok h \<Longrightarrow> (q, t) \<in> regions h \<Longrightarrow> x \<in> region q t \<Longrightarrow>
      ok (store x v h) \<and> regions (store x v h) = regions h \<and> byte (store x v h) = (byte h)(x := v)"
begin

lemma stored_survives_allocate:
  assumes "ok h" and "(q, t) \<in> regions h" and "x \<in> region q t"
    and "allocate n (store x v h) = Some (p, h')"
  shows "byte h' x = v"
proof -
  have s: "ok (store x v h)" "regions (store x v h) = regions h" "byte (store x v h) = (byte h)(x := v)"
    using store_live [OF assms(1-3)] by blast+
  then have "(q, t) \<in> regions (store x v h)" using assms(2) by simp
  then show ?thesis using allocate_keeps [OF s(1) assms(4) _ assms(3)] s(3) by simp
qed

lemma stored_survives_release:
  assumes "ok h" and "(q, t) \<in> regions h" and "x \<in> region q t" and "(unat p, u) \<in> regions h"
  shows "byte (release p (store x v h)) x = v"
proof -
  have s: "ok (store x v h)" "regions (store x v h) = regions h" "byte (store x v h) = (byte h)(x := v)"
    using store_live [OF assms(1-3)] by blast+
  then have "(q, t) \<in> regions (store x v h)" "(unat p, u) \<in> regions (store x v h)"
    using assms(2,4) by simp_all
  then show ?thesis using release_keeps [OF s(1) _ _ assms(3)] s(3) by simp
qed

end

section \<open>The heap satisfies the interface\<close>

definition heap_live :: "heap \<Rightarrow> (nat \<times> nat) set" where
  "heap_live h = set (live BASE (heap_blocks h))"

lemma filter_fst_insert:
  assumes "filter (\<lambda>(q, u). q \<noteq> p) xs = ys" and "(p, t) \<in> set xs"
    and "\<And>u. (p, u) \<in> set xs \<Longrightarrow> t = u"
  shows "set xs = insert (p, t) (set ys) \<and> (p, t) \<notin> set ys"
proof -
  have ys: "set ys = {x \<in> set xs. case x of (q, u) \<Rightarrow> q \<noteq> p}"
    unfolding assms(1) [symmetric] by (rule set_filter)
  show ?thesis
  proof
    show "(p, t) \<notin> set ys" unfolding ys by simp
    show "set xs = insert (p, t) (set ys)"
    proof (rule set_eqI)
      fix x :: "'a \<times> 'b"
      obtain q u where x: "x = (q, u)" by (rule prod.exhaust)
      show "x \<in> set xs \<longleftrightarrow> x \<in> insert (p, t) (set ys)"
        unfolding x ys using assms(2) assms(3) [of u] by (cases "q = p") auto
    qed
  qed
qed

text \<open>A store of a client into memory.\<close>

definition heap_store :: "u32 \<Rightarrow> u8 \<Rightarrow> heap \<Rightarrow> heap" where
  "heap_store x v h = h\<lparr>mem := (mem h)(x := v)\<rparr>"

lemma heap_live_rep: "heap_rep h bs \<Longrightarrow> heap_live h = set (live BASE bs)"
  by (simp add: heap_live_def heap_rep_blocks)

lemma heap_rep_payload:
  assumes "heap_rep h bs" and "\<forall>x \<in> hdr_bytes (set (hdrs BASE bs)). m' x = mem h x"
  shows "heap_rep (h\<lparr>mem := m'\<rparr>) bs"
proof -
  have "seg m' 0 BASE bs 0"
  proof (rule seg_cong)
    show "seg (mem h) 0 BASE bs 0" using assms(1) by (simp add: heap_rep_def)
    fix a assume a: "a \<in> set (hdrs BASE bs)"
    then have "a + 16 \<le> 2 ^ 32"
      using assms(1) hdrs_bounds [OF a] by (simp add: heap_rep_def)
    then show "hdr m' (of_nat a) = hdr (mem h) (of_nat a)"
      by (rule hdr_cong) (use assms(2) a in \<open>auto simp: hdr_bytes_def\<close>)
  qed
  with assms(1) show ?thesis by (simp add: heap_rep_def)
qed

lemma kfree_live:
  assumes rep: "heap_rep h bs" and l: "(p, t) \<in> set (live BASE bs)"
  shows "heap_rep (kfree (of_nat p) h) (free_spec p BASE bs)
    \<and> only_on (hdr_bytes (set (hdrs BASE bs))) (mem h) (mem (kfree (of_nat p) h))"
proof -
  obtain xs ys where bs: "bs = xs @ (t, False) # ys" and p: "p = BASE + span xs + 16"
    using live_split [OF l] .
  show ?thesis using kfree_rep [OF rep [unfolded bs]] unfolding bs p by blast
qed

lemma kmalloc_live:
  assumes rep: "heap_rep h bs" and "kmalloc n h = Some (p, h')" and "p \<noteq> 0"
  obtains bs' where "alloc_spec (unat (align4 n)) BASE bs = Some (unat p, bs')"
    and "heap_rep h' bs'" and "only_on (hdr_bytes (set (hdrs BASE bs'))) (mem h) (mem h')"
proof (cases "n = 0")
  case True
  then show thesis using assms by (auto simp: kmalloc_def heap_rep_def)
next
  case False
  note r = kmalloc_rep [OF rep False]
  show thesis
  proof (cases "alloc_spec (unat (align4 n)) BASE bs")
    case None
    then show thesis using r assms(2,3) by simp
  next
    case (Some z)
    obtain q bs' where z: "z = (q, bs')" by fastforce
    then have rep': "kmalloc n h = Some (of_nat q, h')" "heap_rep h' bs'"
        "only_on (hdr_bytes (set (hdrs BASE bs'))) (mem h) (mem h')"
      using r Some assms(2) by auto
    obtain t where "(q, t) \<in> set (live BASE bs')" using live_alloc Some z by blast
    then have "q \<le> 2 ^ 31" using live_bounds rep'(2) by (fastforce simp: heap_rep_def)
    then have "unat p = q" using rep'(1) assms(2) by (simp add: unat_of_nat_small)
    then show thesis using that Some z rep' by blast
  qed
qed

lemma heap_inv_parts:
  assumes "heap_inv h"
  shows "heap_rep h (heap_blocks h)" and "heap_live h = set (live BASE (heap_blocks h))"
    and "span (heap_blocks h) = EXTENT"
  using assms heap_live_rep by (auto simp: heap_inv_def heap_rep_def)

lemma live_byte_kept:
  assumes "heap_rep h bs" and "(q, t) \<in> set (live BASE bs)" and "x \<in> region q t"
    and "only_on (hdr_bytes (set (hdrs BASE bs))) m m'"
  shows "m' x = m x"
proof -
  have "x \<notin> hdr_bytes (set (hdrs BASE bs))" using assms(2,3) by (intro live_not_hdr_bytes) auto
  then show ?thesis using assms(4) by (simp add: only_on_def)
qed

lemma kmalloc_total:
  assumes "heap_inv h"
  shows "\<exists>p h'. kmalloc n h = Some (p, h')"
proof (cases "n = 0")
  case True
  then show ?thesis by (simp add: kmalloc_def)
next
  case False
  then show ?thesis
    using kmalloc_rep [OF heap_inv_parts(1) [OF assms] False] by (auto split: option.splits prod.splits)
qed

lemma kmalloc_null:
  assumes "heap_inv h" and k: "kmalloc n h = Some (0, h')"
  shows "h' = h"
proof (cases "n = 0")
  case True
  then show ?thesis using k heap_inv_parts(1) [OF assms(1)] by (simp add: kmalloc_def heap_rep_def)
next
  case False
  note r = kmalloc_rep [OF heap_inv_parts(1) [OF assms(1)] False]
  show ?thesis
  proof (cases "alloc_spec (unat (align4 n)) BASE (heap_blocks h)")
    case None
    then show ?thesis using r k by simp
  next
    case (Some z)
    obtain q bs' where z: "z = (q, bs')" by fastforce
    obtain t where "(q, t) \<in> set (live BASE bs')" using live_alloc Some z by blast
    moreover have "heap_rep h' bs'" "(of_nat q :: u32) = 0" using r Some z k by auto
    ultimately show ?thesis
      using live_bounds [of q t BASE bs'] of_nat_zero_u32 [of q] by (auto simp: heap_rep_def)
  qed
qed

lemma kmalloc_new:
  assumes inv: "heap_inv h" and k: "kmalloc n h = Some (p, h')" "p \<noteq> 0"
  shows "heap_inv h' \<and> (\<exists>t. (unat n + 3) mod 2 ^ 32 div 4 * 4 \<le> t \<and> heap_live h' = insert (unat p, t) (heap_live h)
      \<and> (unat p, t) \<notin> heap_live h)"
proof -
  let ?bs = "heap_blocks h"
  obtain bs' where bs': "alloc_spec (unat (align4 n)) BASE ?bs = Some (unat p, bs')" "heap_rep h' bs'"
    using kmalloc_live [OF heap_inv_parts(1) [OF inv] k] .
  obtain t where t: "filter (\<lambda>(q, u). q \<noteq> unat p) (live BASE bs') = live BASE ?bs"
      "unat (align4 n) \<le> t" "(unat p, t) \<in> set (live BASE bs')"
    using live_alloc [OF bs'(1)] by blast
  have "set (live BASE bs') = insert (unat p, t) (set (live BASE ?bs))
      \<and> (unat p, t) \<notin> set (live BASE ?bs)"
    by (rule filter_fst_insert [OF t(1,3)]) (rule live_unique [OF t(3)])
  then show ?thesis
    using t(2) heap_rep_inv [OF bs'(2)] heap_live_rep [OF bs'(2)] heap_inv_parts(2) [OF inv]
    unfolding align4_unat by (auto intro!: exI [of _ t])
qed

lemma kmalloc_keeps:
  assumes inv: "heap_inv h" and k: "kmalloc n h = Some (p, h')" and l: "(q, t) \<in> heap_live h"
    and x: "x \<in> region q t"
  shows "mem h' x = mem h x"
proof (cases "p = 0")
  case True
  then show ?thesis using kmalloc_null [OF inv, of n h'] k by simp
next
  case False
  obtain bs' where bs': "alloc_spec (unat (align4 n)) BASE (heap_blocks h) = Some (unat p, bs')"
      "heap_rep h' bs'" "only_on (hdr_bytes (set (hdrs BASE bs'))) (mem h) (mem h')"
    using kmalloc_live [OF heap_inv_parts(1) [OF inv] k False] .
  have "(q, t) \<in> set (live BASE bs')"
    using l live_alloc [OF bs'(1)] unfolding heap_inv_parts(2) [OF inv] by (metis filter_is_subset subsetD)
  then show ?thesis by (rule live_byte_kept [OF bs'(2) _ x bs'(3)])
qed

lemma kfree_releases:
  assumes inv: "heap_inv h" and l: "(unat p, t) \<in> heap_live h"
  shows "heap_inv (kfree p h) \<and> heap_live (kfree p h) = heap_live h - {(unat p, t)}"
    and "(q, u) \<in> heap_live h \<Longrightarrow> x \<in> region q u \<Longrightarrow> mem (kfree p h) x = mem h x"
proof -
  note h = heap_inv_parts [OF inv] and l' = l [unfolded heap_inv_parts(2) [OF inv]]
  note f = kfree_live [OF h(1) l', simplified]
  have "set (live BASE (free_spec (unat p) BASE (heap_blocks h)))
      = set (live BASE (heap_blocks h)) - {(unat p, t)}"
    using live_free [OF l'] h(1) live_unique [OF l'] by (auto simp: heap_rep_def)
  then show "heap_inv (kfree p h) \<and> heap_live (kfree p h) = heap_live h - {(unat p, t)}"
    using f heap_rep_inv heap_live_rep h(2) by auto
  show "(q, u) \<in> heap_live h \<Longrightarrow> x \<in> region q u \<Longrightarrow> mem (kfree p h) x = mem h x"
    using live_byte_kept [OF h(1) _ _ conjunct2 [OF f]] unfolding h(2) .
qed

lemma heap_store_live:
  assumes inv: "heap_inv h" and l: "(q, t) \<in> heap_live h" and x: "x \<in> region q t"
  shows "heap_inv (heap_store x v h) \<and> heap_live (heap_store x v h) = heap_live h
      \<and> mem (heap_store x v h) = (mem h)(x := v)"
proof -
  note h = heap_inv_parts [OF inv]
  have "x \<notin> hdr_bytes (set (hdrs BASE (heap_blocks h)))"
    using l x unfolding h(2) by (intro live_not_hdr_bytes) auto
  then have "heap_rep (heap_store x v h) (heap_blocks h)"
    unfolding heap_store_def by (intro heap_rep_payload [OF h(1)]) auto
  then show ?thesis using heap_rep_inv heap_live_rep h(2) by (auto simp: heap_store_def)
qed

interpretation kheap: heap_client heap_inv kmalloc kfree heap_live mem heap_store
proof unfold_locales
  fix h assume inv: "heap_inv h"
  note h = heap_inv_parts [OF inv]
  fix q t r u
  show "(q, t) \<in> heap_live h \<Longrightarrow> (r, u) \<in> heap_live h \<Longrightarrow>
      (q, t) = (r, u) \<or> q + t + 16 \<le> r \<or> r + u + 16 \<le> q"
    unfolding h(2) by (rule live_apart)
  show "(q, t) \<in> heap_live h \<Longrightarrow> 0 < q \<and> q + t \<le> 2 ^ 31"
    unfolding h(2) using h(3) live_bounds [of q t BASE "heap_blocks h"] by auto
qed (fact kmalloc_total kmalloc_null kmalloc_new kmalloc_keeps kfree_releases heap_store_live)+

end
