(* ===== verification/Heap_Theorems.thy ===== *)
theory Heap_Theorems imports Heap_Properties begin

text \<open>
  The properties of src/mm/memory.c: \<open>kmalloc\<close> and \<open>kfree\<close> implement the block-list
  allocator, allocations are fresh and apart, \<open>krealloc\<close> keeps the data, the counters are
  exact, and every heap a client can reach is well formed.
\<close>

section \<open>Helpers\<close>

definition boot_heap :: heap where
  "boot_heap = memory_init (heap_unset (\<lambda>_. 0))"

lemma boot_heap_rep: "heap_rep boot_heap init_blocks"
  unfolding boot_heap_def by (rule memory_init_rep)

lemma boot_heap_inv: "heap_inv boot_heap"
  by (rule heap_rep_inv [OF boot_heap_rep])

lemma boot_heap_blocks: "heap_blocks boot_heap = init_blocks"
  by (rule heap_rep_blocks [OF boot_heap_rep])

lemma boot_heap_live: "heap_live boot_heap = {}"
  by (simp add: heap_live_def boot_heap_blocks init_blocks_def)

lemma heap_inv_rep: "heap_inv h \<Longrightarrow> heap_rep h (heap_blocks h)"
  by (simp add: heap_inv_def)

lemma heap_coalesced: "heap_inv h \<Longrightarrow> coalesced (heap_blocks h)"
  by (simp add: heap_inv_def heap_rep_def)

lemma heap_span: "heap_inv h \<Longrightarrow> span (heap_blocks h) = EXTENT"
  by (simp add: heap_inv_def heap_rep_def)

lemma live_sorted: "sorted_wrt (<) (map fst (live a bs))"
proof (induction bs arbitrary: a)
  case (Cons b bs)
  have "a + 16 < q" if "(q, t) \<in> set (live (a + 16 + fst b) bs)" for q t
    using live_bounds [OF that] by simp
  then show ?case using Cons.IH [of "a + 16 + fst b"] by (auto simp: sorted_wrt_append)
qed simp

lemma live_list_determined:
  assumes "set (live a bs) = set (live a cs)"
  shows "live a bs = live a cs"
proof -
  have "map fst (live a bs) = map fst (live a cs)"
  proof (rule sorted_distinct_set_unique)
    show "set (map fst (live a bs)) = set (map fst (live a cs))" using assms by simp
  qed (use live_sorted in \<open>auto simp: strict_sorted_iff\<close>)
  moreover have "inj_on fst (set (live a bs) \<union> set (live a cs))"
    unfolding assms by (auto intro!: inj_onI dest: live_unique)
  ultimately show ?thesis by (rule map_inj_on)
qed

lemma heap_live_bounds:
  assumes "heap_inv h" and "(q, t) \<in> heap_live h"
  shows "BASE + 16 \<le> q \<and> q + t \<le> BASE + EXTENT \<and> 4 dvd q"
proof -
  have l: "(q, t) \<in> set (live BASE (heap_blocks h))" using assms(2) by (simp add: heap_live_def)
  obtain xs ys where bs: "heap_blocks h = xs @ (t, False) # ys" and q: "q = BASE + span xs + 16"
    using live_split [OF l] .
  have "aligned xs" using assms(1) bs by (auto simp: heap_inv_def heap_rep_def)
  then have "4 dvd span xs" by (induction xs) auto
  then have "4 dvd q" unfolding q by (intro dvd_add) auto
  then show ?thesis using live_bounds [OF l] heap_span [OF assms(1)] by simp
qed

lemma heap_live_hdr:
  assumes "heap_inv h" and "(unat p, t) \<in> heap_live h"
  shows "unat (ld_size (mem h) (p - MB_SIZEOF)) = t \<and> ld_free (mem h) (p - MB_SIZEOF) = 0 \<and> p \<noteq> 0"
proof -
  have l: "(unat p, t) \<in> set (live BASE (heap_blocks h))" using assms(2) by (simp add: heap_live_def)
  obtain xs ys where bs: "heap_blocks h = xs @ (t, False) # ys" and q: "unat p = BASE + span xs + 16"
    using live_split [OF l] .
  have "seg (mem h) 0 BASE (xs @ (t, False) # ys) 0"
    using assms(1) by (simp add: heap_inv_def heap_rep_def bs)
  then have "hdr_is (mem h) (BASE + span xs) (t, False) (last_hdr 0 BASE xs)
      (ptr_to (BASE + span xs + 16 + t) ys 0)"
    by (simp add: seg_append)
  moreover have "p - MB_SIZEOF = of_nat (BASE + span xs)"
  proof -
    have "p = of_nat (BASE + span xs + 16)" by (simp only: q [symmetric] of_nat_unat ucast_id)
    then show ?thesis by simp
  qed
  moreover have "unat (of_nat t :: u32) = t"
    using heap_live_bounds [OF assms] by (intro unat_of_nat_small) simp
  moreover have "p \<noteq> 0" using q by auto
  ultimately show ?thesis by (simp add: hdr_is_def hdr_def)
qed

lemma heap_inv_payload:
  assumes "heap_inv h" and "(q, u) \<in> heap_live h" and "\<And>x. x \<notin> region q u \<Longrightarrow> m' x = mem h x"
  shows "heap_inv (h\<lparr>mem := m'\<rparr>)" and "heap_live (h\<lparr>mem := m'\<rparr>) = heap_live h"
proof -
  have rep: "heap_rep (h\<lparr>mem := m'\<rparr>) (heap_blocks h)"
  proof (rule heap_rep_payload [OF heap_inv_rep [OF assms(1)]], rule ballI)
    fix x assume x: "x \<in> hdr_bytes (set (hdrs BASE (heap_blocks h)))"
    have "x \<notin> region q u"
      using live_not_hdr_bytes [of q u BASE "heap_blocks h" _ x] assms(2) x
      unfolding heap_live_def by blast
    then show "m' x = mem h x" by (rule assms(3))
  qed
  show "heap_inv (h\<lparr>mem := m'\<rparr>)" by (rule heap_rep_inv [OF rep])
  show "heap_live (h\<lparr>mem := m'\<rparr>) = heap_live h"
    using heap_live_rep [OF rep] by (simp add: heap_live_def)
qed

section \<open>kmalloc and kfree implement the block list allocator\<close>

text \<open>The heap that \<open>kmalloc\<close> works on: it initialises one that nobody has initialised.\<close>

definition ready_heap :: "heap \<Rightarrow> heap" where
  "ready_heap h = (if memory_initialized h then h else memory_init h)"

lemma kmalloc_ready: "kmalloc n h = kmalloc n (ready_heap h)"
  by (simp add: ready_heap_def kmalloc_def memory_init_def Let_def)

lemma ready_heap_inv:
  assumes "memory_initialized h \<longrightarrow> heap_inv h"
  shows "heap_inv (ready_heap h)"
  using assms heap_rep_inv [OF memory_init_rep] by (simp add: ready_heap_def)

lemma kmalloc_zero: "kmalloc 0 h = Some (0, ready_heap h)"
  by (simp add: kmalloc_def ready_heap_def)

lemma kmalloc_room:
  assumes "heap_inv h" and "kmalloc n h = Some (p, h')" and "n \<noteq> 0"
  shows "p \<noteq> 0 \<longleftrightarrow> (\<exists>b \<in> set (heap_blocks h). snd b \<and> unat (align4 n) \<le> fst b)"
proof -
  have fit: "no_fit (unat (align4 n)) (heap_blocks h)
      \<longleftrightarrow> \<not> (\<exists>b \<in> set (heap_blocks h). snd b \<and> unat (align4 n) \<le> fst b)"
    by (auto simp: no_fit_def list_all_iff not_le)
  note r = kmalloc_rep [OF heap_inv_rep [OF assms(1)] assms(3)]
  show ?thesis
  proof (cases "p = 0")
    case False
    obtain bs where "alloc_spec (unat (align4 n)) BASE (heap_blocks h) = Some (unat p, bs)"
      using kmalloc_live [OF heap_inv_rep [OF assms(1)] assms(2) False] .
    then show ?thesis using False alloc_spec_None [of "unat (align4 n)" BASE "heap_blocks h"] fit by auto
  next
    case True
    have "alloc_spec (unat (align4 n)) BASE (heap_blocks h) = None"
    proof (rule ccontr)
      assume "alloc_spec (unat (align4 n)) BASE (heap_blocks h) \<noteq> None"
      then obtain q bs' where z: "alloc_spec (unat (align4 n)) BASE (heap_blocks h) = Some (q, bs')" by auto
      then obtain t where "(q, t) \<in> set (live BASE bs')" using live_alloc by blast
      moreover have "heap_rep h' bs'" "(of_nat q :: u32) = 0" using r z assms(2) True by auto
      ultimately show False
        using live_bounds [of q t BASE bs'] of_nat_zero_u32 [of q] by (auto simp: heap_rep_def)
    qed
    then show ?thesis using True alloc_spec_None [of "unat (align4 n)" BASE "heap_blocks h"] fit by auto
  qed
qed

text \<open>C1: \<open>kmalloc\<close> always returns. On a heap that is not initialised it starts with the single
  free block of \<open>memory_init\<close>. A request of 0 bytes is answered with NULL; any other is rounded
  up to a multiple of 4 modulo the word size and served first fit on the block list read off the
  linked headers: without a large enough free block the answer is NULL and nothing changes,
  otherwise the first one is taken, split as in the block-list allocator if it has more than 48
  bytes to spare, and no byte outside the headers is written.\<close>

theorem kmalloc_refines:
  assumes "memory_initialized h \<longrightarrow> heap_inv h"
  defines "h0 \<equiv> if memory_initialized h then h else memory_init h"
  shows "(\<not> memory_initialized h \<longrightarrow> heap_inv h0 \<and> heap_blocks h0 = [(4194288, True)])
    \<and> (if n = 0 then kmalloc n h = Some (0, h0)
       else case alloc_spec ((unat n + 3) mod 2 ^ 32 div 4 * 4) BASE (heap_blocks h0) of
           None \<Rightarrow> kmalloc n h = Some (0, h0)
         | Some (p, bs) \<Rightarrow> \<exists>h'. kmalloc n h = Some (of_nat p, h') \<and> heap_inv h' \<and> heap_blocks h' = bs
             \<and> only_on (hdr_bytes (set (hdrs BASE bs))) (mem h0) (mem h'))"
proof -
  have h0: "h0 = ready_heap h" by (simp add: h0_def ready_heap_def)
  have fresh: "heap_blocks (memory_init h) = [(4194288, True)]"
    using heap_rep_blocks [OF memory_init_rep] by (simp add: init_blocks_def)
  have "case alloc_spec (unat (align4 n)) BASE (heap_blocks h0) of
      None \<Rightarrow> kmalloc n h = Some (0, h0)
    | Some (p, bs) \<Rightarrow> \<exists>h'. kmalloc n h = Some (of_nat p, h') \<and> heap_inv h' \<and> heap_blocks h' = bs
        \<and> only_on (hdr_bytes (set (hdrs BASE bs))) (mem h0) (mem h')" if "n \<noteq> 0"
    using kmalloc_rep [OF heap_inv_rep [OF ready_heap_inv [OF assms(1)]] that] kmalloc_ready [of n h]
    unfolding h0 by (auto split: option.splits prod.splits dest: heap_rep_inv heap_rep_blocks)
  moreover have "\<not> memory_initialized h \<longrightarrow> heap_inv h0 \<and> heap_blocks h0 = [(4194288, True)]"
    using ready_heap_inv [OF assms(1)] fresh unfolding h0 by (auto simp: ready_heap_def)
  ultimately show ?thesis using kmalloc_zero [of h] unfolding h0 align4_unat by (simp split del: option.split)
qed

theorem kmalloc_refines_witness:
  "\<exists>h'. kmalloc 5 boot_heap = Some (0x400010, h') \<and> heap_inv h'
     \<and> heap_blocks h' = [(8, False), (4194264, True)]"
proof -
  have "memory_initialized boot_heap" by (simp add: boot_heap_def memory_init_def Let_def)
  then show ?thesis
    using kmalloc_refines [of boot_heap 5] boot_heap_inv
    by (auto simp: boot_heap_blocks init_blocks_def carve_def)
qed

lemma kfree_block_list:
  assumes "heap_inv h" and "(unat p, t) \<in> heap_live h"
  shows "heap_inv (kfree p h)
    \<and> heap_blocks (kfree p h) = free_spec (unat p) BASE (heap_blocks h)
    \<and> unat (total_allocated (kfree p h)) + t = unat (total_allocated h)
    \<and> only_on (hdr_bytes (set (hdrs BASE (heap_blocks h)))) (mem h) (mem (kfree p h))"
proof -
  have l: "(unat p, t) \<in> set (live BASE (heap_blocks h))" using assms(2) by (simp add: heap_live_def)
  note f = kfree_live [OF heap_inv_rep [OF assms(1)] l, simplified]
  have tot: "unat (total_allocated g) = used (heap_blocks g)" if "heap_inv g" for g
    using heap_inv_rep [OF that] used_le_span [of "heap_blocks g"] heap_span [OF that]
    by (simp add: heap_rep_def unat_of_nat_small)
  have inv: "heap_inv (kfree p h)" using f heap_rep_inv by blast
  moreover have bl: "heap_blocks (kfree p h) = free_spec (unat p) BASE (heap_blocks h)"
    using f heap_rep_blocks by blast
  moreover have "used (free_spec (unat p) BASE (heap_blocks h)) + t = used (heap_blocks h)"
    using live_free [OF l heap_coalesced [OF assms(1)]] by simp
  ultimately show ?thesis using f tot [OF inv] tot [OF assms(1)] by simp
qed

lemma kfree_free_block:
  assumes "heap_inv h" and "heap_blocks h = xs @ (t, True) # ys" and "unat p = BASE + span xs + 16"
  shows "kfree p h = h"
proof -
  have "seg (mem h) 0 BASE (xs @ (t, True) # ys) 0"
    using assms(1,2) by (simp add: heap_inv_def heap_rep_def)
  then have "ld_free (mem h) (of_nat (BASE + span xs)) \<noteq> 0"
    by (simp add: seg_append hdr_is_def hdr_def)
  moreover have "p - MB_SIZEOF = of_nat (BASE + span xs)"
  proof -
    have "p = of_nat (BASE + span xs + 16)" by (simp only: assms(3) [symmetric] of_nat_unat ucast_id)
    then show ?thesis by simp
  qed
  ultimately show ?thesis by (simp add: kfree_def)
qed

text \<open>C2: \<open>kfree\<close> of NULL, or of anything before the heap is initialised, changes nothing.
  \<open>kfree\<close> of a pointer that is in use marks its block free and merges it with free
  neighbours exactly as the block-list operation does, takes its size off the counter, and
  writes no byte outside the headers. \<open>kfree\<close> of a pointer whose block is free already changes
  nothing.\<close>

theorem kfree_refines:
  assumes "memory_initialized h \<longrightarrow> heap_inv h"
  shows "(p = 0 \<or> \<not> memory_initialized h \<longrightarrow> kfree p h = h)
    \<and> (memory_initialized h \<longrightarrow>
        (\<forall>t. (unat p, t) \<in> heap_live h \<longrightarrow>
          heap_inv (kfree p h)
          \<and> heap_blocks (kfree p h) = free_spec (unat p) BASE (heap_blocks h)
          \<and> unat (total_allocated (kfree p h)) + t = unat (total_allocated h)
          \<and> only_on (hdr_bytes (set (hdrs BASE (heap_blocks h)))) (mem h) (mem (kfree p h)))
      \<and> (\<forall>xs t ys. heap_blocks h = xs @ (t, True) # ys \<and> unat p = BASE + span xs + 16 \<longrightarrow> kfree p h = h))"
proof (intro conjI impI allI)
  show "kfree p h = h" if "p = 0 \<or> \<not> memory_initialized h"
    using that by (auto simp: kfree_def)
  fix t assume "memory_initialized h" and p: "(unat p, t) \<in> heap_live h"
  then have "heap_inv h" using assms by blast
  note free = kfree_block_list [OF this p]
  show "heap_inv (kfree p h)" "heap_blocks (kfree p h) = free_spec (unat p) BASE (heap_blocks h)"
    "unat (total_allocated (kfree p h)) + t = unat (total_allocated h)"
    "only_on (hdr_bytes (set (hdrs BASE (heap_blocks h)))) (mem h) (mem (kfree p h))"
    using free by blast+
next
  fix xs t ys assume "memory_initialized h"
    and b: "heap_blocks h = xs @ (t, True) # ys \<and> unat p = BASE + span xs + 16"
  then have "heap_inv h" using assms by blast
  then show "kfree p h = h" using b kfree_free_block by blast
qed

text \<open>A heap with one block handed out, for the witnesses.\<close>

definition one_block :: "heap \<Rightarrow> bool" where
  "one_block h \<longleftrightarrow> kmalloc 8 boot_heap = Some (0x400010, h) \<and> heap_inv h
     \<and> heap_live h = {(0x400010, 8)}"

lemma kmalloc_8_boot:
  "\<exists>h. kmalloc 8 boot_heap = Some (0x400010, h) \<and> heap_rep h [(8, False), (4194264, True)]"
proof -
  have a: "unat (align4 8) = 8" by (simp add: align4_unat)
  show ?thesis
    using kmalloc_rep [OF boot_heap_rep, of 8] by (auto simp: a init_blocks_def carve_def)
qed

lemma kmalloc_12_next:
  assumes "heap_rep h [(8, False), (4194264, True)]"
  shows "\<exists>h'. kmalloc 12 h = Some (0x400028, h')"
proof -
  have a: "unat (align4 12) = 12" by (simp add: align4_unat)
  show ?thesis using kmalloc_rep [OF assms, of 12] by (auto simp: a carve_def)
qed

lemma one_block_rep: "\<exists>h. one_block h \<and> heap_rep h [(8, False), (4194264, True)]"
proof -
  obtain h where "kmalloc 8 boot_heap = Some (0x400010, h)"
      and r: "heap_rep h [(8, False), (4194264, True)]"
    using kmalloc_8_boot by blast
  then have "one_block h"
    using heap_rep_inv [OF r] by (simp add: one_block_def heap_live_rep [OF r])
  then show ?thesis using r by blast
qed

lemma one_block_exists: "\<exists>h. one_block h"
  using one_block_rep by blast

theorem kfree_refines_witness:
  "\<exists>h. one_block h \<and> unat (total_allocated (kfree 0x400010 h)) + 8 = unat (total_allocated h)"
proof -
  obtain h where h: "one_block h" using one_block_exists ..
  then show ?thesis using kfree_refines [of h "0x400010"] heap_inv_rep [of h] by (auto simp: one_block_def heap_rep_def)
qed

section \<open>What a client gets\<close>

text \<open>C3: a payload returned by \<open>kmalloc\<close> is fresh: it lies inside the heap, starts at a
  multiple of 4, is disjoint from every payload in use, and no byte of those payloads changes. Its
  size is at least the request rounded up to a multiple of 4, which is the requested size or more
  for every request of up to 2^32 - 4 bytes; for the three larger ones the rounding wraps to 0.\<close>

theorem kmalloc_fresh:
  assumes "heap_inv h" and "kmalloc n h = Some (p, h')" and "p \<noteq> 0"
  shows "heap_inv h' \<and> (\<exists>t. heap_live h' = insert (unat p, t) (heap_live h)
      \<and> (if unat n \<le> 2 ^ 32 - 4 then (unat n + 3) div 4 * 4 else 0) \<le> t
      \<and> (unat n \<le> 2 ^ 32 - 4 \<longrightarrow> unat n \<le> t)
      \<and> 4 dvd unat p \<and> 0x400010 \<le> unat p \<and> unat p + t \<le> 0x800000
      \<and> (\<forall>(q, u) \<in> heap_live h. region q u \<inter> region (unat p) t = {}
           \<and> (\<forall>x \<in> region q u. mem h' x = mem h x)))"
proof -
  obtain t where t: "heap_inv h'" "(unat n + 3) mod 2 ^ 32 div 4 * 4 \<le> t"
      "heap_live h' = insert (unat p, t) (heap_live h)" "(unat p, t) \<notin> heap_live h"
    using kheap.allocate_some [OF assms] by blast
  have "unat n < 2 ^ 32" using unsigned_less [where 'a = nat, of n] by simp
  then have fits: "(if unat n \<le> 2 ^ 32 - 4 then (unat n + 3) div 4 * 4 else 0) \<le> t
      \<and> (unat n \<le> 2 ^ 32 - 4 \<longrightarrow> unat n \<le> t)"
    using t(2) by auto
  have "region q u \<inter> region (unat p) t = {}" if "(q, u) \<in> heap_live h" for q u
  proof -
    have "q + u + 16 \<le> unat p \<or> unat p + t + 16 \<le> q"
      using kheap.regions_apart [OF t(1), of q u "unat p" t] t(3,4) that by auto
    then show ?thesis by auto
  qed
  moreover have "mem h' x = mem h x" if "(q, u) \<in> heap_live h" "x \<in> region q u" for q u x
    by (rule kheap.allocate_keeps [OF assms(1,2) that])
  moreover have "BASE + 16 \<le> unat p \<and> unat p + t \<le> BASE + EXTENT \<and> 4 dvd unat p"
    using heap_live_bounds [OF t(1), of "unat p" t] t(3) by simp
  ultimately show ?thesis using t(1,3) fits by (intro conjI exI [of _ t]) auto
qed

theorem kmalloc_fresh_witness:
  "\<exists>h h'. one_block h \<and> kmalloc 12 h = Some (0x400028, h') \<and> heap_inv h'
     \<and> region 0x400010 8 \<inter> region 0x400028 12 = {}"
proof -
  obtain h where h: "one_block h" and r: "heap_rep h [(8, False), (4194264, True)]"
    using one_block_rep by blast
  obtain h' where k: "kmalloc 12 h = Some (0x400028, h')" using kmalloc_12_next [OF r] ..
  obtain t where "heap_inv h'" "12 \<le> t" "region 0x400010 8 \<inter> region 0x400028 t = {}"
    using kmalloc_fresh [OF _ k] h by (auto simp: one_block_def)
  moreover have "region 0x400028 12 \<subseteq> region 0x400028 t" using \<open>12 \<le> t\<close> by auto
  ultimately show ?thesis using h k by blast
qed

lemma heap_blocks_unique:
  assumes "heap_inv h" and "heap_inv g" and "heap_live h = heap_live g"
  shows "heap_blocks h = heap_blocks g \<and> total_allocated h = total_allocated g"
proof -
  have "live BASE (heap_blocks h) = live BASE (heap_blocks g)"
    by (rule live_list_determined) (use assms(3) in \<open>simp add: heap_live_def\<close>)
  then have "heap_blocks h = heap_blocks g"
    using canonical heap_coalesced heap_span assms(1,2) by metis
  then show ?thesis
    using heap_inv_rep [OF assms(1)] heap_inv_rep [OF assms(2)] by (simp add: heap_rep_def)
qed

text \<open>Two blocks taken and returned in the order they were taken (what the shell's
  \<open>memtest\<close> does) leave the block list and the counter as they were.\<close>

theorem take_two_return_two:
  assumes "heap_inv h" and "kmalloc n h = Some (p, h1)" and "p \<noteq> 0" and "unat n \<le> 2 ^ 32 - 4"
    and "kmalloc k h1 = Some (q, h2)" and "q \<noteq> 0" and "unat k \<le> 2 ^ 32 - 4"
  shows "heap_inv (kfree q (kfree p h2))
    \<and> heap_blocks (kfree q (kfree p h2)) = heap_blocks h
    \<and> total_allocated (kfree q (kfree p h2)) = total_allocated h"
proof -
  have "heap_inv (kfree q (kfree p h2)) \<and> heap_live (kfree q (kfree p h2)) = heap_live h"
    by (rule kheap.return_two [OF assms])
  then show ?thesis using heap_blocks_unique [OF _ assms(1)] by blast
qed

theorem take_two_return_two_witness:
  "\<exists>h1 h2. kmalloc 8 boot_heap = Some (0x400010, h1) \<and> kmalloc 12 h1 = Some (0x400028, h2)
     \<and> heap_blocks (kfree 0x400028 (kfree 0x400010 h2)) = [(4194288, True)]"
proof -
  obtain h1 where h1: "kmalloc 8 boot_heap = Some (0x400010, h1)" and r: "heap_rep h1 [(8, False), (4194264, True)]"
    using kmalloc_8_boot by blast
  obtain h2 where h2: "kmalloc 12 h1 = Some (0x400028, h2)"
    using kmalloc_12_next [OF r] by blast
  have "heap_blocks (kfree 0x400028 (kfree 0x400010 h2)) = heap_blocks boot_heap"
    using take_two_return_two [OF boot_heap_inv h1 _ _ h2] by simp
  then show ?thesis using h1 h2 by (simp add: boot_heap_blocks init_blocks_def)
qed

text \<open>Copying from one payload in use to another.\<close>

lemma memcpy_payload:
  assumes "heap_inv h" and "(unat q, u) \<in> heap_live h" and "(unat p, t) \<in> heap_live h"
    and "(unat q, u) \<noteq> (unat p, t)" and "unat c \<le> t" and "unat c \<le> u"
  defines "m \<equiv> memcpy q p c (mem h)"
  shows "heap_inv (h\<lparr>mem := m\<rparr>) \<and> heap_live (h\<lparr>mem := m\<rparr>) = heap_live h
    \<and> (\<forall>x. x \<notin> region (unat q) u \<longrightarrow> m x = mem h x)
    \<and> (\<forall>i < unat c. m (q + of_nat i) = mem h (p + of_nat i))"
proof -
  have room: "unat q + u \<le> 2 ^ 31" "unat p + t \<le> 2 ^ 31"
    using kheap.regions_room [OF assms(1)] assms(2,3) by blast+
  have addr: "unat (q + of_nat i) = unat q + i" "unat (p + of_nat i) = unat p + i"
    if "i < unat c" for i using room that assms(5,6) by (simp_all add: wsimps)
  have ne: "\<forall>i < unat c. \<forall>j < i. q + of_nat j \<noteq> p + of_nat i"
  proof (intro allI impI notI)
    fix i j assume ij: "i < unat c" "j < i" "q + of_nat j = p + of_nat i"
    then have "unat q + j = unat p + i" using addr(1) [of j] addr(2) [of i] by simp
    then show False
      using kheap.regions_apart [OF assms(1-3)] assms(4-6) ij by auto
  qed
  have out: "m x = mem h x" if "x \<notin> region (unat q) u" for x
    unfolding m_def
    by (rule memcpy_frame [OF ne]) (use that addr(1) assms(6) in auto)
  have "m (q + of_nat i) = mem h (p + of_nat i)" if "i < unat c" for i
    unfolding m_def by (rule memcpy_at [OF ne that])
  then show ?thesis using heap_inv_payload [OF assms(1,2) out] out by simp
qed

text \<open>Moving a payload: the new one is allocated, filled from the old one, and that released.\<close>

lemma move_payload:
  assumes inv: "heap_inv h" and p: "(unat p, t) \<in> heap_live h"
    and k: "kmalloc n h = Some (q, h1)" "q \<noteq> 0" and n: "unat n \<le> 2 ^ 32 - 4" "t < unat n"
    and c: "unat c = t"
  defines "h3 \<equiv> kfree p (h1\<lparr>mem := memcpy q p c (mem h1)\<rparr>)"
  shows "heap_inv h3 \<and> (\<exists>u \<ge> unat n. heap_live h3 = insert (unat q, u) (heap_live h - {(unat p, t)}))
    \<and> (\<forall>i < t. mem h3 (q + of_nat i) = mem h (p + of_nat i))
    \<and> (\<forall>(r, v) \<in> heap_live h. \<forall>x \<in> region r v. mem h3 x = mem h x)"
proof -
  obtain u where u: "heap_inv h1" "unat n \<le> u" "heap_live h1 = insert (unat q, u) (heap_live h)"
      "(unat q, u) \<notin> heap_live h"
    using kheap.allocate_new [OF inv k n(1)] by blast
  have ql: "(unat q, u) \<in> heap_live h1" and pl: "(unat p, t) \<in> heap_live h1"
    using u(3) p by auto
  have room: "unat p + t \<le> 2 ^ 31" "unat q + u \<le> 2 ^ 31"
    using kheap.regions_room [OF inv p] kheap.regions_room [OF u(1) ql] by simp_all
  define m2 where "m2 = memcpy q p c (mem h1)"
  define h2 where "h2 = h1\<lparr>mem := m2\<rparr>"
  have h3: "h3 = kfree p h2" by (simp add: h3_def h2_def m2_def)
  have copy: "heap_inv h2" "heap_live h2 = heap_live h1"
      "\<And>x. x \<notin> region (unat q) u \<Longrightarrow> m2 x = mem h1 x"
      "\<And>i. i < t \<Longrightarrow> m2 (q + of_nat i) = mem h1 (p + of_nat i)"
    using memcpy_payload [OF u(1) ql pl, of c] u(2,4) p c n(2) by (auto simp: h2_def m2_def)
  have free: "heap_inv h3 \<and> heap_live h3 = heap_live h1 - {(unat p, t)}"
    using kheap.release_live [OF copy(1), of p t] pl copy(2) by (simp add: h3)
  have keep: "mem h3 x = m2 x" if "(r, v) \<in> heap_live h1" "x \<in> region r v" for r v x
    using kheap.release_keeps [OF copy(1), of p t r v x] that pl copy(2) by (simp add: h3 h2_def)
  have data: "mem h3 (q + of_nat i) = mem h (p + of_nat i)" if "i < t" for i
  proof -
    have "mem h3 (q + of_nat i) = m2 (q + of_nat i)"
      by (rule keep [OF ql]) (use that n(2) u(2) room in \<open>simp add: wsimps\<close>)
    moreover have "mem h1 (p + of_nat i) = mem h (p + of_nat i)"
      by (rule kheap.allocate_keeps [OF inv k(1) p]) (use that room in \<open>simp add: wsimps\<close>)
    ultimately show ?thesis using copy(4) [OF that] by simp
  qed
  have others: "mem h3 x = mem h x" if "(r, v) \<in> heap_live h" "x \<in> region r v" for r v x
  proof -
    have "(r, v) \<in> heap_live h1" using that(1) u(3) by simp
    then have "mem h3 x = m2 x" "r + v \<le> unat q \<or> unat q + u \<le> r"
      using keep that(2) kheap.regions_apart [OF u(1) _ ql, of r v] u(4) that(1) by auto
    then show ?thesis using that(2) copy(3) [of x] kheap.allocate_keeps [OF inv k(1) that] by auto
  qed
  have "heap_live h3 = insert (unat q, u) (heap_live h - {(unat p, t)})" using free u(3,4) p by auto
  then show ?thesis using free u(2) data others by blast
qed

lemma krealloc_live:
  assumes "heap_inv h" and "(unat p, t) \<in> heap_live h" and "n \<noteq> 0" and "unat n \<le> 2 ^ 32 - 4"
  shows "\<exists>q h'. krealloc p n h = Some (q, h') \<and> heap_inv h'
    \<and> (if q = 0 then h' = h
       else \<exists>u \<ge> unat n. heap_live h' = insert (unat q, u) (heap_live h - {(unat p, t)})
         \<and> bytes_at (mem h') q (min t (unat n)) = bytes_at (mem h) p (min t (unat n))
         \<and> (\<forall>(r, v) \<in> heap_live h - {(unat p, t)}. \<forall>x \<in> region r v. mem h' x = mem h x))"
proof (cases "unat n \<le> t")
  case True
  note hdr = heap_live_hdr [OF assms(1,2)]
  have "krealloc p n h = Some (p, h)"
    using hdr True assms(3) by (simp add: krealloc_def word_le_nat_alt)
  then show ?thesis using hdr True assms(1,2) by auto
next
  case False
  note hdr = heap_live_hdr [OF assms(1,2)]
  obtain q h1 where k: "kmalloc n h = Some (q, h1)"
    using kheap.allocate_returns [OF assms(1)] by blast
  show ?thesis
  proof (cases "q = 0")
    case True
    then have "h1 = h" using kheap.allocate_null [OF assms(1)] k by blast
    then have "krealloc p n h = Some (0, h)"
      using hdr False assms(3) k True by (simp add: krealloc_def word_le_nat_alt)
    then show ?thesis using assms(1) by auto
  next
    case q: False
    define c where "c = ld_size (mem h1) (p - MB_SIZEOF)"
    have new: "heap_inv h1" "(unat p, t) \<in> heap_live h1"
      using kheap.allocate_new [OF assms(1) k q assms(4)] assms(2) by auto
    then have c: "unat c = t" using heap_live_hdr [OF new] by (simp add: c_def)
    let ?h = "kfree p (h1\<lparr>mem := memcpy q p c (mem h1)\<rparr>)"
    have run: "krealloc p n h = Some (q, ?h)"
      using hdr False assms(3) k q c
      by (simp add: krealloc_def word_le_nat_alt word_less_nat_alt flip: c_def)
    obtain u where m: "heap_inv ?h" "unat n \<le> u" "heap_live ?h = insert (unat q, u) (heap_live h - {(unat p, t)})"
        "\<forall>i < t. mem ?h (q + of_nat i) = mem h (p + of_nat i)"
        "\<forall>(r, v) \<in> heap_live h. \<forall>x \<in> region r v. mem ?h x = mem h x"
      using move_payload [OF assms(1,2) k q assms(4) _ c] False by auto
    then have "bytes_at (mem ?h) q (min t (unat n)) = bytes_at (mem h) p (min t (unat n))"
      by (simp add: bytes_at_def)
    then show ?thesis using run m q by (intro exI [of _ q] exI [of _ ?h]) auto
  qed
qed

lemma krealloc_zero:
  assumes "heap_inv h" and "(unat p, t) \<in> heap_live h"
  shows "krealloc p 0 h = Some (0, kfree p h)" and "heap_inv (kfree p h)"
    and "heap_live (kfree p h) = heap_live h - {(unat p, t)}"
  using heap_live_hdr [OF assms] kheap.release_live [OF assms] by (simp_all add: krealloc_def)

lemma krealloc_inv:
  assumes "heap_inv h" and "(unat p, t) \<in> heap_live h" and "unat n \<le> 2 ^ 32 - 4"
    and "krealloc p n h = Some (q, h')"
  shows "heap_inv h'"
proof (cases "n = 0")
  case True
  then show ?thesis using krealloc_zero [OF assms(1,2)] assms(4) by simp
next
  case False
  then show ?thesis using krealloc_live [OF assms(1,2) _ assms(3)] assms(4) by auto
qed

text \<open>C13: \<open>krealloc\<close> on every branch, for sizes up to 2^32 - 4: on NULL it is \<open>kmalloc\<close>; size 0
  frees the payload and returns NULL; a size that the payload has room for returns it as it is;
  otherwise the result replaces the old payload, has room for the new size and starts with the
  old payload's bytes, or, if there is no room, it is NULL and the heap is unchanged, so that the
  old payload stays valid. Every other payload keeps its bytes.\<close>

theorem krealloc_keeps_data:
  assumes "heap_inv h" and "(unat p, t) \<in> heap_live h" and "unat n \<le> 2 ^ 32 - 4"
  shows "krealloc 0 n h = kmalloc n h
    \<and> (\<exists>q h'. krealloc p n h = Some (q, h') \<and> heap_inv h'
        \<and> (if n = 0 then q = 0 \<and> heap_live h' = heap_live h - {(unat p, t)}
           else if unat n \<le> t then q = p \<and> h' = h
           else if q = 0 then h' = h \<and> kmalloc n h = Some (0, h)
           else \<exists>u \<ge> unat n. heap_live h' = insert (unat q, u) (heap_live h - {(unat p, t)})
             \<and> bytes_at (mem h') q t = bytes_at (mem h) p t)
        \<and> (\<forall>(r, v) \<in> heap_live h - {(unat p, t)}. \<forall>x \<in> region r v. mem h' x = mem h x))"
proof (cases "n = 0")
  case True
  note free = krealloc_zero [OF assms(1,2)]
  have "mem (kfree p h) x = mem h x" if "(r, v) \<in> heap_live h" "x \<in> region r v" for r v x
    by (rule kheap.release_keeps [OF assms(1,2) that])
  then show ?thesis using True free by (auto simp: krealloc_def)
next
  case False
  note size = heap_live_hdr [OF assms(1,2)]
  obtain q h' where k: "krealloc p n h = Some (q, h')" "heap_inv h'"
      "if q = 0 then h' = h
       else \<exists>u \<ge> unat n. heap_live h' = insert (unat q, u) (heap_live h - {(unat p, t)})
         \<and> bytes_at (mem h') q (min t (unat n)) = bytes_at (mem h) p (min t (unat n))
         \<and> (\<forall>(r, v) \<in> heap_live h - {(unat p, t)}. \<forall>x \<in> region r v. mem h' x = mem h x)"
    using krealloc_live [OF assms(1,2) False assms(3)] by blast
  have kept: "unat n \<le> t \<Longrightarrow> q = p \<and> h' = h"
    using k(1) size False by (simp add: krealloc_def word_le_nat_alt)
  have null: "\<not> unat n \<le> t \<Longrightarrow> q = 0 \<Longrightarrow> kmalloc n h = Some (0, h)"
    using k(1) size False kheap.allocate_null [OF assms(1), of n]
    by (auto simp: krealloc_def word_le_nat_alt Let_def split: option.splits prod.splits if_splits)
  have rest: "\<forall>(r, v) \<in> heap_live h - {(unat p, t)}. \<forall>x \<in> region r v. mem h' x = mem h x"
  proof (cases "q = 0")
    case False
    then show ?thesis using k(3) by (simp only: if_False) blast
  qed (use k(3) in auto)
  have "q \<noteq> 0 \<Longrightarrow> \<not> unat n \<le> t \<Longrightarrow> \<exists>u \<ge> unat n. heap_live h' = insert (unat q, u) (heap_live h - {(unat p, t)})
      \<and> bytes_at (mem h') q t = bytes_at (mem h) p t"
    using k(3) by (auto simp: min_def)
  moreover have "krealloc 0 n h = kmalloc n h" by (simp add: krealloc_def)
  ultimately show ?thesis using k(1-3) kept null False rest by (cases "q = 0") simp_all
qed

theorem krealloc_keeps_data_witness:
  "\<exists>h q h'. one_block h \<and> krealloc 0x400010 12 h = Some (q, h') \<and> heap_inv h'
     \<and> (q = 0 \<or> bytes_at (mem h') q 8 = bytes_at (mem h) 0x400010 8)"
proof -
  obtain h where h: "one_block h" using one_block_exists ..
  then show ?thesis
    using krealloc_keeps_data [of h "0x400010" 8 12] h
    by (auto simp: one_block_def split: if_splits)
qed

section \<open>Counters\<close>

lemma heap_used_live:
  assumes "heap_inv h"
  shows "unat (total_allocated h) = sum snd (heap_live h)" and "sum snd (heap_live h) \<le> 4194304"
proof -
  let ?bs = "heap_blocks h"
  have le: "used ?bs \<le> 4194304" using used_le_span [of ?bs] heap_span [OF assms] by simp
  have tot: "unat (total_allocated h) = used ?bs"
    using heap_inv_rep [OF assms] le by (simp add: heap_rep_def unat_of_nat_small)
  have "distinct (map fst (live BASE ?bs))"
    using live_sorted [of BASE ?bs] by (simp add: strict_sorted_iff)
  then have "sum snd (heap_live h) = sum_list (map snd (live BASE ?bs))"
    unfolding heap_live_def by (intro sum_list_distinct_conv_sum_set [symmetric])
      (simp add: distinct_map)
  then have "sum snd (heap_live h) = used ?bs" by (simp add: sum_live)
  then show "unat (total_allocated h) = sum snd (heap_live h)" "sum snd (heap_live h) \<le> 4194304"
    using tot le by simp_all
qed

section \<open>Misuse\<close>

text \<open>rounding a request above \<open>2\<^sup>32 - 4\<close> up to a multiple of 4 wraps to zero: as long as
  any block is free, \<open>kmalloc\<close> answers such a request with a pointer to at most 48 bytes
  instead of NULL.\<close>

theorem kmalloc_size_wraps:
  assumes "heap_inv h" and "2 ^ 32 - 4 < unat n" and "(s, True) \<in> set (heap_blocks h)"
  shows "\<exists>p t h'. kmalloc n h = Some (p, h') \<and> p \<noteq> 0 \<and> heap_inv h'
    \<and> (unat p, t) \<in> heap_live h' \<and> t \<le> 48"
proof -
  have al: "unat (align4 n) = 0" using align4_wraps [OF assms(2)] by simp
  have "n \<noteq> 0" using assms(2) by auto
  have "\<not> no_fit 0 (heap_blocks h)" using assms(3) by (force simp: no_fit_def list_all_iff)
  then obtain q bs where spec: "alloc_spec 0 BASE (heap_blocks h) = Some (q, bs)"
    using alloc_spec_None [of 0 BASE "heap_blocks h"] by auto
  then obtain h' where h': "kmalloc n h = Some (of_nat q, h')" "heap_rep h' bs"
    using kmalloc_rep [OF heap_inv_rep [OF assms(1)] \<open>n \<noteq> 0\<close>] by (auto simp: al)
  obtain t where t: "(q, t) \<in> set (live BASE bs)" "t \<le> 48" using live_alloc [OF spec] by auto
  have q: "0 < q" "q < 2 ^ 32"
    using live_bounds [OF t(1)] h'(2) by (auto simp: heap_rep_def)
  then have "unat (of_nat q :: u32) = q" "(of_nat q :: u32) \<noteq> 0"
    by (simp_all add: unat_of_nat_small of_nat_zero_u32)
  then show ?thesis
    using h' t heap_rep_inv [OF h'(2)] heap_live_rep [OF h'(2)]
    by (intro exI [of _ "of_nat q"] exI [of _ t] exI [of _ h']) simp
qed

theorem kmalloc_size_wraps_witness:
  "\<exists>p t h'. kmalloc 0xFFFFFFFF boot_heap = Some (p, h') \<and> p \<noteq> 0
     \<and> (unat p, t) \<in> heap_live h' \<and> t \<le> 48"
  using kmalloc_size_wraps [OF boot_heap_inv, of "0xFFFFFFFF" 4194288]
  by (auto simp: boot_heap_blocks init_blocks_def)

text \<open>Freeing a block a second time, right after the first, does nothing: its header
  still says free, even when the block was merged into a neighbour.\<close>

theorem kfree_twice:
  assumes "heap_inv h" and "(unat p, t) \<in> heap_live h"
  shows "kfree p (kfree p h) = kfree p h \<and> total_allocated (kfree p (kfree p h)) + of_nat t = total_allocated h"
proof -
  obtain xs ys where bs: "heap_blocks h = xs @ (t, False) # ys" and p: "unat p = BASE + span xs + 16"
    using live_split assms(2) unfolding heap_live_def by metis
  have pw: "p = of_nat (BASE + span xs + 16)" by (simp only: p [symmetric] of_nat_unat ucast_id)
  have "ld_free (mem (kfree (of_nat (BASE + span xs + 16)) h)) (of_nat (BASE + span xs)) = 1"
    using kfree_rep [of h xs t ys] heap_inv_rep [OF assms(1)] by (simp only: bs)
  then have "ld_free (mem (kfree p h)) (p - MB_SIZEOF) = 1" by (simp only: pw) simp
  then have "kfree p (kfree p h) = kfree p h"
    unfolding kfree_def [of p "kfree p h"] by (simp add: Let_def)
  moreover have "unat (total_allocated (kfree p h)) + t = unat (total_allocated h)"
    using kfree_block_list [OF assms] by blast
  then have "of_nat (unat (total_allocated (kfree p h)) + t) = total_allocated h" by simp
  ultimately show ?thesis by simp
qed

theorem kfree_twice_witness:
  "\<exists>h. one_block h \<and> kfree 0x400010 (kfree 0x400010 h) = kfree 0x400010 h"
proof -
  obtain h where h: "one_block h" using one_block_exists ..
  then show ?thesis using kfree_twice [of h "0x400010" 8] by (auto simp: one_block_def)
qed

section \<open>Reachable heaps\<close>

text \<open>
  What the kernel and its clients do to the heap: initialise it, allocate, free and resize
  payloads in use, and write into them.
\<close>

inductive heap_step :: "heap \<Rightarrow> heap \<Rightarrow> bool" where
  step_init: "heap_step h (memory_init h)"
| step_kmalloc: "kmalloc n h = Some (p, h') \<Longrightarrow> heap_step h h'"
| step_kfree: "(unat p, t) \<in> heap_live h \<Longrightarrow> heap_step h (kfree p h)"
| step_krealloc: "(unat p, t) \<in> heap_live h \<Longrightarrow> unat n \<le> 2 ^ 32 - 4 \<Longrightarrow>
    krealloc p n h = Some (q, h') \<Longrightarrow> heap_step h h'"
| step_store: "(q, t) \<in> heap_live h \<Longrightarrow> x \<in> region q t \<Longrightarrow> heap_step h (heap_store x v h)"

inductive heap_reachable :: "heap \<Rightarrow> bool" where
  boot: "heap_reachable (memory_init (heap_unset m))"
| step: "heap_reachable h \<Longrightarrow> heap_step h h' \<Longrightarrow> heap_reachable h'"

lemma heap_step_inv:
  assumes "heap_step h h'" and "heap_inv h"
  shows "heap_inv h'"
  using assms(1)
proof (cases rule: heap_step.cases)
  case step_init
  then show ?thesis using heap_rep_inv [OF memory_init_rep] by simp
next
  case (step_kmalloc n p)
  then show ?thesis
    using kheap.allocate_null [OF assms(2)] kheap.allocate_some [OF assms(2)] assms(2)
    by (cases "p = 0") auto
next
  case (step_kfree p t)
  then show ?thesis using kheap.release_live [OF assms(2)] by simp
next
  case (step_krealloc p t n q)
  then show ?thesis using krealloc_inv [OF assms(2)] by auto
next
  case (step_store q t x v)
  then show ?thesis using kheap.store_live [OF assms(2)] by simp
qed

lemma reachable_heap_inv: "heap_reachable h \<Longrightarrow> heap_inv h"
proof (induction rule: heap_reachable.induct)
  case (boot m)
  then show ?case by (rule heap_rep_inv [OF memory_init_rep])
next
  case (step h h')
  then show ?case using heap_step_inv by blast
qed

lemma one_block_reachable: "one_block h \<Longrightarrow> heap_reachable h \<and> heap_reachable (kfree 0x400010 h)"
proof -
  assume h: "one_block h"
  have "heap_reachable h"
    using heap_reachable.step [OF heap_reachable.boot step_kmalloc [of 8]] h
    by (auto simp: one_block_def boot_heap_def)
  moreover from this have "heap_reachable (kfree 0x400010 h)"
    by (rule heap_reachable.step) (use h step_kfree [of "0x400010" 8 h] in \<open>simp add: one_block_def\<close>)
  ultimately show ?thesis by blast
qed



lemma kmalloc_by_blocks:
  assumes "heap_inv h" and "heap_inv g" and "heap_blocks h = heap_blocks g"
  shows "map_option fst (kmalloc n h) = map_option fst (kmalloc n g)"
proof (cases "n = 0")
  case False
  show ?thesis
    using kmalloc_rep [OF heap_inv_rep [OF assms(1)] False] kmalloc_rep [OF heap_inv_rep [OF assms(2)] False]
    by (auto simp: assms(3) split: option.splits)
qed (simp add: kmalloc_zero)





end
