(* ===== verification/File_Theorems.thy ===== *)
theory File_Theorems imports File_Properties Heap_Theorems begin

text \<open>
  The properties of src/lib/filesystem.c: memory safety and the invariant under every
  operation, the round trip of saving and loading, independence of files, the effect and the
  error codes of the operations, the start-up contents, and the defects the model shows.
\<close>

section \<open>Every operation is safe\<close>

lemma fs_target_cases:
  assumes "fs_inv st" and "h < 8"
  obtains "fs_target (Some h) True st = Inr None"
  | f i p where "handle_for st f h i p"
proof -
  have len: "length (file_handles st) = 8" and ok: "handle_ok (file_handles st ! h)"
    using assms by (auto simp: fs_inv_def list_all_length)
  show thesis
  proof (cases "is_open (file_handles st ! h)")
    case False
    then show thesis using len assms(2) by (intro that(1)) (simp add: fs_target_def handle_at_def)
  next
    case True
    let ?fh = "file_handles st ! h"
    show thesis
    proof (cases "fs st")
      case None
      then show thesis using True len assms(2) by (intro that(1)) (simp add: fs_target_def handle_at_def)
    next
      case (Some f)
      have i: "0 \<le> file_index ?fh" "nat (file_index ?fh) < 32" "unat (position ?fh) \<le> 1024"
        using ok True by (auto simp: handle_ok_def)
      have t: "table_ok f" using assms(1) Some by (simp add: fs_inv_def)
      show thesis
      proof (cases "fe_in_use (files f ! nat (file_index ?fh))")
        case False
        then show thesis using True len assms(2) Some t i
          by (intro that(1)) (simp add: fs_target_def handle_at_def entry_at_def table_ok_def)
      next
        case used: True
        have "handle_for st f h (nat (file_index ?fh)) (unat (position ?fh))"
          using True len assms(2) Some t i used by (simp add: handle_for_def in_use_def)
        then show thesis by (rule that(2))
      qed
    qed
  qed
qed

lemma fs_inv_handle:
  assumes "fs_inv st" and "handle_ok fh"
  shows "fs_inv (put_handle h fh st)"
proof -
  have "handle_ok x" if "x \<in> set ((file_handles st)[h := fh])" for x
    using that set_update_subset_insert [of "file_handles st" h fh] assms
    by (auto simp: fs_inv_def list_all_iff)
  then show ?thesis using assms(1) by (simp add: fs_inv_def put_handle_def list_all_iff)
qed

lemma fs_inv_table: "fs_inv st \<Longrightarrow> table_ok f \<Longrightarrow> fs_inv (st\<lparr>fs := Some f\<rparr>)"
  by (simp add: fs_inv_def)

lemma fs_inv_create:
  assumes "fs_inv st" and "fs_valid name"
  shows "\<exists>r st'. fs_create_file (Some name) type t st = Inr (r, st') \<and> fs_inv st'"
proof (cases "fs st")
  case None
  then show ?thesis using assms(1) by (simp add: fs_create_file_def)
next
  case (Some f)
  have ok: "table_ok f" using assms(1) Some by (simp add: fs_inv_def)
  show ?thesis
  proof (cases "fs_find name f")
    case found: (Some i)
    then show ?thesis using assms(1) Some by (simp add: fs_create_file_def fs_file_exists_def)
  next
    case new: None
    show ?thesis
    proof (cases "find (\<lambda>i. \<not> fe_in_use (files f ! i)) [0..<32]")
      case full: None
      then show ?thesis using assms(1) Some new by (simp add: fs_create_file_def fs_file_exists_def)
    next
      case free: (Some i)
      have "lookup f name = None" using new by (simp add: lookup_def)
      from create_effect [OF Some ok assms(2) this free, of type t]
      show ?thesis using fs_inv_table [OF assms(1)] by blast
    qed
  qed
qed

lemma fs_inv_delete:
  assumes "fs_inv st" and "c_string name"
  shows "fs_inv (snd (fs_delete_file (Some name) st))"
proof (cases "fs st")
  case None
  then show ?thesis using assms(1) by (simp add: fs_delete_file_def)
next
  case (Some f)
  have ok: "table_ok f" using assms(1) Some by (simp add: fs_inv_def)
  show ?thesis
  proof (cases "fs_find name f")
    case missing: None
    then show ?thesis using assms(1) Some by (simp add: fs_delete_file_def)
  next
    case found: (Some i)
    then have "lookup f name = Some (file_bytes f i)" using assms(2) by (simp add: lookup_def)
    from delete_effect [OF Some ok this]
    show ?thesis using fs_inv_table [OF assms(1)] by auto
  qed
qed

lemma fs_inv_open:
  assumes "fs_inv st" and "c_string name"
  shows "fs_inv (snd (fs_open_file (Some name) st))"
proof (cases "fs st")
  case None
  then show ?thesis using assms(1) by (simp add: fs_open_file_def)
next
  case (Some f)
  have ok: "table_ok f" using assms(1) Some by (simp add: fs_inv_def)
  have "i < 32" if "fs_find name f = Some i" for i
    using fs_find_iff [OF ok assms(2), of i] that by (simp add: in_use_def)
  then have "fs_inv (put_handle h \<lparr>file_index = int i, position = 0, is_open = True\<rparr> st)"
    if "fs_find name f = Some i" for h i
    using that by (intro fs_inv_handle [OF assms(1)]) (simp add: handle_ok_def)
  then show ?thesis
    using Some assms(1) by (simp add: fs_open_file_def put_handle_def split: option.split)
qed

lemma fs_inv_close:
  assumes "fs_inv st" and "h < 8"
  shows "\<exists>st'. fs_close_file (Some h) st = Inr st' \<and> fs_inv st'"
proof -
  have "length (file_handles st) = 8" using assms(1) by (simp add: fs_inv_def)
  moreover have "fs_inv (put_handle h \<lparr>file_index = -1, position = 0, is_open = False\<rparr> st)"
    by (rule fs_inv_handle [OF assms(1)]) (simp add: handle_ok_def)
  ultimately show ?thesis using assms by (simp add: fs_close_file_def handle_at_def)
qed

lemma handle_ok_moved:
  assumes "handle_for st f h i p" and "unat p' \<le> 1024"
  shows "handle_ok ((file_handles st ! h)\<lparr>position := p'\<rparr>)"
  using assms by (auto simp: handle_ok_def handle_for_def in_use_def)

lemma fs_inv_read:
  assumes "fs_inv st" and "h < 8" and "k \<le> length buf" and "k < 2 ^ 32"
  shows "\<exists>r b st'. fs_read_file (Some h) (Some buf) (of_nat k) st = Inr (r, b, st') \<and> fs_inv st'"
proof (cases rule: fs_target_cases [OF assms(1,2)])
  case 1
  then show ?thesis using assms(1) by (simp add: fs_read_file_def)
next
  case (2 f i p)
  obtain p' where r: "fs_read_file (Some h) (Some buf) (of_nat k) st = Inr (int (length (take k (drop p (file_bytes f i)))),
        Some (take k (drop p (file_bytes f i)) @ drop (length (take k (drop p (file_bytes f i)))) buf),
        put_handle h ((file_handles st ! h)\<lparr>position := p'\<rparr>) st)"
      "unat p' = p + length (take k (drop p (file_bytes f i)))"
    using read_effect [OF 2 assms(3,4)] by blast
  have "p \<le> 1024" using 2 by (simp add: handle_for_def)
  moreover have "length (file_bytes f i) \<le> 1024" using handle_for_entry [OF 2] by simp
  ultimately have "unat p' \<le> 1024" using r(2) by auto
  then show ?thesis using r(1) fs_inv_handle [OF assms(1) handle_ok_moved [OF 2]] by blast
qed

text \<open>A write fails exactly when the end of the written range does not fit a word.\<close>

lemma fs_inv_write:
  assumes "fs_inv st" and "h < 8" and "unat sz \<le> length buf"
  shows "case fs_write_file (Some h) (Some buf) sz st of
      Inl e \<Rightarrow> 2 ^ 32 \<le> unat (position (file_handles st ! h)) + unat sz
    | Inr (r, st') \<Rightarrow> fs_inv st'"
proof (cases rule: fs_target_cases [OF assms(1,2)])
  case 1
  then show ?thesis using assms(1) by (simp add: fs_write_file_def)
next
  case (2 f i p)
  have p: "p \<le> 1024" "unat (position (file_handles st ! h)) = p" using 2 by (simp_all add: handle_for_def)
  show ?thesis
  proof (cases "p + unat sz < 2 ^ 32")
    case True
    obtain p' f' where r: "fs_write_file (Some h) (Some buf) sz st = Inr (int (min (unat sz) (1024 - p)),
          (put_handle h ((file_handles st ! h)\<lparr>position := p'\<rparr>) st)\<lparr>fs := Some f'\<rparr>)"
        "unat p' = p + min (unat sz) (1024 - p)" "table_ok f'"
      using write_effect [OF 2 assms(3) True] by (auto simp del: min_less_iff_conj)
    have "unat p' \<le> 1024" using r(2) p by auto
    then show ?thesis
      using r(1,3) fs_inv_table [OF fs_inv_handle [OF assms(1) handle_ok_moved [OF 2]]] by simp
  next
    case False
    then show ?thesis using write_wraps [OF 2, of sz buf] p by simp
  qed
qed

lemma fs_inv_seek:
  assumes "fs_inv st" and "h < 8"
  shows "\<exists>r st'. fs_seek_file (Some h) pos st = Inr (r, st') \<and> fs_inv st'"
proof (cases rule: fs_target_cases [OF assms])
  case 1
  then show ?thesis using assms(1) by (simp add: fs_seek_file_def)
next
  case (2 f i p)
  have "unat pos \<le> 1024" if "\<not> fe_size (files f ! i) < pos"
    using handle_for_entry [OF 2] that by (simp add: word_less_nat_alt)
  then show ?thesis
    using handle_for_target [OF 2] assms(1) fs_inv_handle [OF assms(1) handle_ok_moved [OF 2]]
    by (simp add: fs_seek_file_def)
qed

text \<open>What has no open handle of the table and no buffer to work on is turned away.\<close>

lemma null_target:
  assumes "fs_inv st" and "\<forall>h. handle = Some h \<longrightarrow> h < 8"
    and "fs_target handle (buffer \<noteq> None) st \<noteq> Inr None"
  shows "\<exists>h buf. handle = Some h \<and> buffer = Some buf \<and> h < 8"
proof -
  have "length (file_handles st) = 8" using assms(1) by (simp add: fs_inv_def)
  then show ?thesis
    using assms(2,3) by (cases handle; cases buffer) (auto simp: fs_target_def handle_at_def)
qed

text \<open>C15: No operation of the file system leaves its arrays, and each keeps the invariant of the
  table and the handles, for any name that fits its 16 bytes with the terminator, any handle of
  the table, any buffer as long as the size passed with it, any position, any size, and NULL for
  each pointer; except that \<open>fs_write_file\<close> runs past the data area, and does so always, if its
  handle is open and position and size add up to 2^32 or more, which passes its test.\<close>

theorem fs_operations_safe:
  assumes "fs_inv st" and "\<forall>name. nm = Some name \<longrightarrow> fs_valid name" and "\<forall>h. handle = Some h \<longrightarrow> h < 8"
    and "\<forall>buf. buffer = Some buf \<longrightarrow> unat sz \<le> length buf"
  shows "(\<exists>r st'. fs_create_file nm type t st = Inr (r, st') \<and> fs_inv st')
    \<and> fs_inv (snd (fs_delete_file nm st))
    \<and> fs_inv (snd (fs_open_file nm st))
    \<and> (\<exists>st'. fs_close_file handle st = Inr st' \<and> fs_inv st')
    \<and> (\<exists>r b st'. fs_read_file handle buffer sz st = Inr (r, b, st') \<and> fs_inv st')
    \<and> (case fs_write_file handle buffer sz st of
         Inl e \<Rightarrow> \<exists>h. handle = Some h \<and> 2 ^ 32 \<le> unat (position (file_handles st ! h)) + unat sz
       | Inr (r, st') \<Rightarrow> fs_inv st')
    \<and> (\<forall>h buf f i p. handle = Some h \<and> buffer = Some buf \<and> handle_for st f h i p \<and> 2 ^ 32 \<le> p + unat sz
         \<longrightarrow> fs_write_file handle buffer sz st = Inl Out_Of_Bounds)
    \<and> (\<exists>r st'. fs_seek_file handle pos st = Inr (r, st') \<and> fs_inv st')"
proof (intro conjI)
  show "\<exists>r st'. fs_create_file nm type t st = Inr (r, st') \<and> fs_inv st'"
    using fs_inv_create [OF assms(1)] assms(1,2)
    by (cases nm) (auto simp: fs_create_file_def split: option.split)
  show "fs_inv (snd (fs_delete_file nm st))" "fs_inv (snd (fs_open_file nm st))"
    using fs_inv_delete [OF assms(1)] fs_inv_open [OF assms(1)] assms(1,2)
    by (cases nm; auto simp: fs_delete_file_def fs_open_file_def fs_valid_def split: option.split)+
  show "\<exists>st'. fs_close_file handle st = Inr st' \<and> fs_inv st'" "\<exists>r st'. fs_seek_file handle pos st = Inr (r, st') \<and> fs_inv st'"
    using fs_inv_close [OF assms(1)] fs_inv_seek [OF assms(1)] assms(1,3)
    by (cases handle; simp add: fs_close_file_def fs_seek_file_def fs_target_def)+
  show "\<exists>r b st'. fs_read_file handle buffer sz st = Inr (r, b, st') \<and> fs_inv st'"
  proof (cases "fs_target handle (buffer \<noteq> None) st = Inr None")
    case True
    then show ?thesis using assms(1) by (simp add: fs_read_file_def)
  next
    case False
    then obtain h buf where hb: "handle = Some h" "buffer = Some buf" "h < 8"
      using null_target [OF assms(1,3)] by blast
    then show ?thesis
      using fs_inv_read [OF assms(1), of h "unat sz" buf] assms(4) unsigned_less [where 'a = nat, of sz] by simp
  qed
  show "case fs_write_file handle buffer sz st of
         Inl e \<Rightarrow> \<exists>h. handle = Some h \<and> 2 ^ 32 \<le> unat (position (file_handles st ! h)) + unat sz
       | Inr (r, st') \<Rightarrow> fs_inv st'"
  proof (cases "fs_target handle (buffer \<noteq> None) st = Inr None")
    case True
    then show ?thesis using assms(1) by (simp add: fs_write_file_def)
  next
    case False
    then obtain h buf where hb: "handle = Some h" "buffer = Some buf" "h < 8"
      using null_target [OF assms(1,3)] by blast
    then show ?thesis using fs_inv_write [OF assms(1), of h sz buf] assms(4) by (auto split: sum.splits)
  qed
  show "\<forall>h buf f i p. handle = Some h \<and> buffer = Some buf \<and> handle_for st f h i p \<and> 2 ^ 32 \<le> p + unat sz
      \<longrightarrow> fs_write_file handle buffer sz st = Inl Out_Of_Bounds"
    using write_wraps by blast
qed

text \<open>The state right after the structure was cleared, before the demo files.\<close>

definition fresh_fs :: fs_state where
  "fresh_fs = \<lparr>fs = Some (zero_filesystem\<lparr>total_files := 32, used_files := 0, total_size := 32768, used_size := 0\<rparr>),
     file_handles = map (\<lambda>_. \<lparr>file_index = -1, position = 0, is_open = False\<rparr>) [0..<8]\<rparr>"

lemma fresh_not_in_use: "\<not> in_use (zero_filesystem\<lparr>total_files := a, used_files := b, total_size := c, used_size := d\<rparr>) i"
  by (simp add: in_use_def zero_filesystem_def zero_entry_def)

lemma fresh_table: "table_ok (zero_filesystem\<lparr>total_files := 32, used_files := 0, total_size := 32768, used_size := 0\<rparr>)"
  (is "table_ok ?f")
proof -
  have none: "Collect (in_use ?f) = {}" using fresh_not_in_use by blast
  have "length (files ?f) = 32" "length (data_area ?f) = 32768" "total_files ?f = 32"
      "total_size ?f = 32768" "used_files ?f = 0" "\<forall>i < 32. entry_ok i (files ?f ! i)"
    by (simp_all add: zero_filesystem_def entry_ok_def zero_entry_def)
  then show ?thesis by (simp only: table_ok_def none) simp
qed

lemma fresh_fs_facts:
  "fs_ok fresh_fs" "fs_cursor fresh_fs = (\<lambda>_. None)" "fs_content fresh_fs = (\<lambda>_. None)" "fs_free fresh_fs = 32"
proof -
  let ?f = "zero_filesystem\<lparr>total_files := 32, used_files := 0, total_size := 32768, used_size := 0\<rparr>"
  have closed: "\<not> is_open fh" if "fh \<in> set (file_handles fresh_fs)" for fh
    using that by (auto simp: fresh_fs_def)
  have len: "length (file_handles fresh_fs) = 8" by (simp add: fresh_fs_def)
  show "fs_cursor fresh_fs = (\<lambda>_. None)" by (rule closed_cursor [OF closed len])
  show "fs_ok fresh_fs"
    by (rule fs_okI [where f = ?f]) (use closed len fresh_table in \<open>simp_all add: fresh_fs_def handle_ok_def\<close>)
  have "lookup ?f n \<noteq> Some b" for n b
    unfolding lookup_Some [OF fresh_table] using fresh_not_in_use by blast
  then have "lookup ?f n = None" for n by (cases "lookup ?f n") simp_all
  then have "lookup ?f = (\<lambda>_. None)" by (rule ext)
  then show "fs_content fresh_fs = (\<lambda>_. None)" by (simp add: fs_content_def fresh_fs_def)
  have "fs_free fresh_fs = 32 - card (Collect (in_use ?f))" by (simp add: fs_free_def fresh_fs_def)
  moreover have "Collect (in_use ?f) = {}" using fresh_not_in_use by blast
  ultimately show "fs_free fresh_fs = 32" by (simp only: card.empty)
qed

lemma fresh_inv: "fs_inv fresh_fs"
  using fresh_fs_facts(1) by (simp add: fs_ok_def)

theorem fs_operations_safe_witness:
  "\<exists>r b st'. fs_read_file (Some 3) (Some [1, 2, 3]) 3 fresh_fs = Inr (r, b, st') \<and> fs_inv st'"
proof -
  have "fs_valid (cstr ''a'')" by (simp add: fs_valid_def c_string_def cstr_def)
  then show ?thesis
    using fs_operations_safe [OF fresh_inv, of "Some (cstr ''a'')" "Some 3" "Some [1, 2, 3]" 3] by simp
qed

section \<open>Saving and loading\<close>

text \<open>C4: What is saved can be loaded: creating a file under a new name, writing up to 1024
  bytes to it and closing it makes it a file with exactly these bytes and changes no other
  file; opening it again and reading returns them.\<close>

theorem save_and_load:
  assumes "fs_ok st" and "fs_cursor st = (\<lambda>_. None)" and "0 < fs_free st"
    and "fs_valid n" and "fs_content st n = None" and "length d \<le> 1024"
  shows "\<exists>i s1 h s2 s3 s4. fs_create_file (Some n) type t st = Inr (i, s1) \<and> 0 \<le> i
    \<and> fs_open_file (Some n) s1 = (Some h, s2)
    \<and> fs_write_file (Some h) (Some d) (of_nat (length d)) s2 = Inr (int (length d), s3)
    \<and> fs_close_file (Some h) s3 = Inr s4
    \<and> fs_ok s4 \<and> fs_content s4 = (fs_content st)(n \<mapsto> d)
    \<and> (\<exists>k s5 s6. fs_open_file (Some n) s4 = (Some k, s5) \<and> read_bytes k 1024 s5 = Inr (d, s6))"
proof -
  obtain i s1 where 1: "fs_create_file (Some n) type t st = Inr (i, s1)" "0 \<le> i" "fs_ok s1"
      "fs_cursor s1 = (\<lambda>_. None)" "fs_content s1 = (fs_content st)(n \<mapsto> [])"
    using fstore.create_new [OF assms(1-5)] by blast
  obtain h s2 s3 s4 where 2: "fs_open_file (Some n) s1 = (Some h, s2)"
      "fs_write_file (Some h) (Some d) (of_nat (length d)) s2 = Inr (int (length d), s3)"
      "fs_close_file (Some h) s3 = Inr s4" "fs_ok s4" "fs_cursor s4 = (\<lambda>_. None)"
      "fs_content s4 = (fs_content s1)(n \<mapsto> d)"
    using fstore.fill [OF 1(3,4) _ assms(6), of n] 1(5) by auto
  have c: "fs_content s4 = (fs_content st)(n \<mapsto> d)" using 1(5) 2(6) by simp
  then obtain k s5 s6 where "fs_open_file (Some n) s4 = (Some k, s5)" "read_bytes k 1024 s5 = Inr (d, s6)"
    using fstore.load [OF 2(4,5), of n d 1024] assms(6) by auto
  then show ?thesis using 1(1,2) 2(1-4) c by blast
qed

theorem save_and_load_witness:
  "\<exists>i s1 h s2 s3. fs_create_file (Some (cstr ''a'')) 1 timer_start fresh_fs = Inr (i, s1)
     \<and> fs_open_file (Some (cstr ''a'')) s1 = (Some h, s2)
     \<and> fs_write_file (Some h) (Some [7, 8]) 2 s2 = Inr (2, s3)"
proof -
  have "fs_valid (cstr ''a'')" by (simp add: fs_valid_def c_string_def cstr_def)
  then show ?thesis
    using save_and_load [OF fresh_fs_facts(1,2), of "cstr ''a''" "[7, 8]" 1 timer_start] fresh_fs_facts(3,4)
    by auto
qed

text \<open>C19: A write stores as many bytes as the file's 1024-byte block has room for after the
  handle's position, returns that number and advances the position; if the position is not
  beyond the end, the content becomes the old one overwritten there; every other file keeps
  its content.\<close>

theorem write_truncates:
  assumes "handle_for st f h i p" and "k \<le> length buf" and "p + k < 2 ^ 32"
  shows "\<exists>st' f'. fs_write_file (Some h) (Some buf) (of_nat k) st = Inr (int (min k (1024 - p)), st')
    \<and> handle_for st' f' h i (p + min k (1024 - p))
    \<and> (p \<le> length (file_bytes f i) \<longrightarrow>
         file_bytes f' i = overwrite p (take (min k (1024 - p)) buf) (file_bytes f i))
    \<and> (\<forall>n. n \<noteq> fe_name (files f ! i) \<longrightarrow> fs_content st' n = fs_content st n)"
proof -
  let ?m = "min k (1024 - p)" and ?fh = "file_handles st ! h"
  have h: "fs st = Some f" "table_ok f" "length (file_handles st) = 8" "h < 8" "is_open ?fh"
      "file_index ?fh = int i" "in_use f i" "unat (position ?fh) = p" "p \<le> 1024"
    using assms(1) by (simp_all add: handle_for_def)
  obtain p' f' where w: "fs_write_file (Some h) (Some buf) (of_nat k) st =
        Inr (int ?m, (put_handle h (?fh\<lparr>position := p'\<rparr>) st)\<lparr>fs := Some f'\<rparr>)"
      "unat p' = p + ?m" "table_ok f'" "Collect (in_use f') = Collect (in_use f)"
      "\<forall>j. fe_name (files f' ! j) = fe_name (files f ! j)"
      "p \<le> length (file_bytes f i) \<longrightarrow>
         lookup f' = (lookup f)(fe_name (files f ! i) \<mapsto> overwrite p (take ?m buf) (file_bytes f i))"
      "\<forall>n. n \<noteq> fe_name (files f ! i) \<longrightarrow> lookup f' n = lookup f n"
    using write_effect [OF assms] by blast
  let ?st = "(put_handle h (?fh\<lparr>position := p'\<rparr>) st)\<lparr>fs := Some f'\<rparr>"
  have use: "in_use f' i" using w(4) h(7) by (simp add: set_eq_iff)
  have "p + ?m \<le> 1024" using h(9) by simp
  then have "handle_for ?st f' h i (p + ?m)"
    using h w(2,3) use by (simp add: handle_for_def put_handle_def)
  moreover have "file_bytes f' i = overwrite p (take ?m buf) (file_bytes f i)"
    if "p \<le> length (file_bytes f i)"
  proof -
    have "lookup f' (fe_name (files f ! i)) = Some (file_bytes f' i)"
      using lookup_Some [OF w(3)] use w(5) by metis
    then show ?thesis using w(6) that by simp
  qed
  moreover have "\<forall>n. n \<noteq> fe_name (files f ! i) \<longrightarrow> fs_content ?st n = fs_content st n"
    using w(7) h(1) by (simp add: fs_content_def)
  ultimately show ?thesis using w(1) by blast
qed

text \<open>A state with one empty file, open at handle 0.\<close>

lemma one_open_file:
  "\<exists>st f i. handle_for st f 0 i 0 \<and> fe_name (files f ! i) = cstr ''a'' \<and> file_bytes f i = []"
proof -
  have v: "fs_valid (cstr ''a'')" by (simp add: fs_valid_def c_string_def cstr_def)
  have "fs_content fresh_fs (cstr ''a'') = None" "0 < fs_free fresh_fs"
    using fresh_fs_facts(3,4) by simp_all
  then obtain i s1 where s1: "fs_ok s1" "fs_cursor s1 = (\<lambda>_. None)" "fs_content s1 (cstr ''a'') = Some []"
    using fstore.create_new [OF fresh_fs_facts(1,2) _ v, of 1 timer_start] by auto
  have handles: "\<forall>h < 8. \<not> is_open (file_handles s1 ! h)"
    using all_closed [OF s1(1,2)] s1(1) by (auto elim!: fs_okE)
  obtain f where f: "fs s1 = Some f" "table_ok f" "length (file_handles s1) = 8" using s1(1) by (rule fs_okE)
  obtain j where j: "fs_find (cstr ''a'') f = Some j" "in_use f j" "fe_name (files f ! j) = cstr ''a''"
      "[] = file_bytes f j"
    using lookup_find [OF f(2), of "cstr ''a''" "[]"] s1(3) f(1) by (auto simp: fs_content_def)
  let ?st = "put_handle 0 \<lparr>file_index = int j, position = 0, is_open = True\<rparr> s1"
  have "handle_for ?st f 0 j 0" using f j by (simp add: handle_for_def put_handle_def)
  then show ?thesis using j by metis
qed

theorem write_truncates_witness:
  "\<exists>st f i f' st'. handle_for st f 0 i 0
     \<and> fs_write_file (Some 0) (Some (replicate 2000 7)) 2000 st = Inr (1024, st')
     \<and> handle_for st' f' 0 i 1024"
proof -
  obtain st f i where h: "handle_for st f 0 i 0" using one_open_file by blast
  obtain st' f' where "fs_write_file (Some 0) (Some (replicate 2000 7)) 2000 st = Inr (1024, st')"
      "handle_for st' f' 0 i 1024"
    using write_truncates [OF h, of 2000 "replicate 2000 7"] by auto
  then show ?thesis using h by blast
qed

section \<open>Error codes and limits\<close>

lemma handle_ends:
  assumes "fs_ok st" and "fs_cursor st h = Some (m, p)" and "fs_content st m = Some b"
  shows "length b \<le> p \<Longrightarrow> fs_read_file (Some h) (Some buf) sz st = Inr (0, Some buf, st)"
    and "sz = 0 \<or> p = 1024 \<and> unat sz < 2 ^ 32 - 1024 \<Longrightarrow> fs_write_file (Some h) (Some buf) sz st = Inr (0, st)"
    and "length b < unat pos \<Longrightarrow> fs_seek_file (Some h) pos st = Inr (-1, st)"
proof -
  obtain f i where h: "handle_for st f h i p" "fe_name (files f ! i) = m"
    using cursor_handle [OF assms(1,2)] by blast
  have b: "b = file_bytes f i" using cursor_content [OF h(1)] assms(3) h(2) by simp
  note e = handle_for_entry [OF h(1)] and t = handle_for_target [OF h(1)]
  have p: "unat (position (file_handles st ! h)) = p" "p \<le> 1024" using h(1) by (simp_all add: handle_for_def)
  show "fs_read_file (Some h) (Some buf) sz st = Inr (0, Some buf, st)" if "length b \<le> p"
    using that t e p b by (simp add: fs_read_file_def word_le_nat_alt)
  show "fs_seek_file (Some h) pos st = Inr (-1, st)" if "length b < unat pos"
    using that t e b by (simp add: fs_seek_file_def word_less_nat_alt)
  show "fs_write_file (Some h) (Some buf) sz st = Inr (0, st)" if "sz = 0 \<or> p = 1024 \<and> unat sz < 2 ^ 32 - 1024"
  proof -
    have "unat (clamped (position (file_handles st ! h)) (of_nat (unat sz))) = min (unat sz) (1024 - p)"
      by (rule clamped_unat [OF p]) (use that p in auto)
    then have "clamped (position (file_handles st ! h)) (of_nat (unat sz)) = 0"
      using that by (auto simp: unat_eq_0)
    then show ?thesis using write_nothing(1) [OF h(1), of "unat sz"] by simp
  qed
qed

lemma fs_existing_file:
  assumes "fs_ok st" and "fs_content st n = Some b"
  shows "unat (fs_get_file_size (Some n) st) = length b \<and> fs_file_exists (Some n) st"
proof -
  obtain f where f: "fs st = Some f" "table_ok f" using assms(1) by (rule fs_okE)
  have "lookup f n = Some b" using assms(2) f(1) by (simp add: fs_content_def)
  then obtain i where i: "fs_find n f = Some i" "in_use f i" "b = file_bytes f i"
    using lookup_find [OF f(2), of n b] by metis
  then have "i < 32" "unat (fe_size (files f ! i)) \<le> 1024" "length (data_area f) = 32768"
    using f(2) by (auto simp: table_ok_def entry_ok_def in_use_def)
  then show ?thesis using f(1) i by (simp add: fs_get_file_size_def fs_file_exists_def file_bytes_def)
qed

text \<open>C20: The return codes. Creating answers -2 for a name that exists and -3 when all 32 slots
  are in use; deleting answers -2 for a missing name, opening NULL, and the queries false and 0.
  A null name is answered with -1, NULL, false and 0. Reading, writing and seeking answer -1 for a
  null handle, for a handle that is not open and, the first two, for a null buffer; with an open
  handle, reading at the end of the file and writing nothing or, unless position and size together
  wrap around, at the limit of 1024 bytes answer 0, seeking past the end -1. Without a file system every code is the one for a null pointer.
  In none of these cases does the state change. Of an existing file the queries tell the truth,
  and with no file open deleting it answers 0 and removes exactly it.\<close>

theorem fs_error_codes:
  assumes "fs_ok st" and "fs_valid n" and "h < 8" and "fs u = None" and "length (file_handles u) = 8"
  shows "(fs_content st n \<noteq> None \<longrightarrow> fs_create_file (Some n) type t st = Inr (-2, st))
    \<and> (fs_content st n = None \<longrightarrow> fs_free st = 0 \<longrightarrow> fs_create_file (Some n) type t st = Inr (-3, st))
    \<and> (fs_content st n = None \<longrightarrow> fs_delete_file (Some n) st = (-2, st)
         \<and> fs_open_file (Some n) st = (None, st) \<and> \<not> fs_file_exists (Some n) st
         \<and> fs_get_file_size (Some n) st = 0)
    \<and> (\<forall>v nm. v = st \<and> nm = None \<or> v = u \<longrightarrow> fs_create_file nm type t v = Inr (-1, v)
         \<and> fs_delete_file nm v = (-1, v) \<and> fs_open_file nm v = (None, v)
         \<and> \<not> fs_file_exists nm v \<and> fs_get_file_size nm v = 0)
    \<and> (\<forall>v buffer. v = u \<or> \<not> is_open (file_handles v ! h) \<and> length (file_handles v) = 8 \<longrightarrow>
         fs_read_file (Some h) buffer sz v = Inr (-1, buffer, v)
         \<and> fs_write_file (Some h) buffer sz v = Inr (-1, v) \<and> fs_seek_file (Some h) pos v = Inr (-1, v))
    \<and> (\<forall>v buffer. fs_read_file None buffer sz v = Inr (-1, buffer, v)
         \<and> fs_write_file None buffer sz v = Inr (-1, v) \<and> fs_seek_file None pos v = Inr (-1, v)
         \<and> fs_close_file None v = Inr v)
    \<and> fs_read_file (Some h) None sz st = Inr (-1, None, st) \<and> fs_write_file (Some h) None sz st = Inr (-1, st)
    \<and> (\<forall>m p b buf. fs_cursor st h = Some (m, p) \<and> fs_content st m = Some b \<longrightarrow>
         (length b \<le> p \<longrightarrow> fs_read_file (Some h) (Some buf) sz st = Inr (0, Some buf, st))
         \<and> (sz = 0 \<or> p = 1024 \<and> unat sz < 2 ^ 32 - 1024 \<longrightarrow> fs_write_file (Some h) (Some buf) sz st = Inr (0, st))
         \<and> (length b < unat pos \<longrightarrow> fs_seek_file (Some h) pos st = Inr (-1, st)))
    \<and> (\<forall>b. fs_content st n = Some b \<longrightarrow> fs_file_exists (Some n) st
         \<and> unat (fs_get_file_size (Some n) st) = length b
         \<and> (fs_cursor st = (\<lambda>_. None) \<longrightarrow>
              (\<exists>st'. fs_delete_file (Some n) st = (0, st') \<and> fs_content st' = (fs_content st)(n := None))))"
proof -
  obtain f where f: "fs st = Some f" "table_ok f" "length (file_handles st) = 8" using assms(1) by (rule fs_okE)
  have c: "c_string n" using assms(2) by (simp add: fs_valid_def)
  have cont: "fs_content st n = lookup f n" by (simp add: fs_content_def f(1))
  have miss: "fs_find n f = None \<longleftrightarrow> fs_content st n = None" using c by (simp add: cont lookup_def)
  have full: "find (\<lambda>i. \<not> fe_in_use (files f ! i)) [0..<32] = None" if "fs_free st = 0"
    using that card_in_use [of f] find_free [of f] f(1) by (simp add: fs_free_def)
  note name_ops = fs_create_file_def fs_delete_file_def fs_open_file_def fs_file_exists_def fs_get_file_size_def
  note handle_ops = fs_read_file_def fs_write_file_def fs_seek_file_def fs_close_file_def fs_target_def handle_at_def
  show ?thesis
  proof (intro conjI, goal_cases)
    case 1
    show ?case using fstore.create_old [OF assms(1,2)] by blast
  next
    case 2
    show ?case using f full by (simp add: name_ops flip: miss)
  next
    case 3
    show ?case using f by (simp add: name_ops flip: miss)
  next
    case 4
    show ?case using f assms(4) by (auto simp: name_ops split: option.split)
  next
    case 5
    show ?case using assms(3-5) by (auto simp: handle_ops)
  next
    case 9
    show ?case using handle_ends [OF assms(1)] by blast
  next
    case 10
    show ?case using fs_existing_file [OF assms(1)] fstore.delete_old [OF assms(1)] by blast
  qed (use f assms(3) in \<open>simp_all add: handle_ops\<close>)
qed

theorem fs_error_codes_witness:
  "fs_delete_file (Some (cstr ''x'')) fresh_fs = (-2, fresh_fs)
   \<and> fs_read_file (Some 3) (Some [0]) 1 fresh_fs = Inr (-1, Some [0], fresh_fs)"
proof -
  have "fs_valid (cstr ''x'')" by (simp add: fs_valid_def c_string_def cstr_def)
  moreover have "\<not> is_open (file_handles fresh_fs ! 3)" "length (file_handles fresh_fs) = 8"
    by (simp_all add: fresh_fs_def)
  ultimately show ?thesis
    using fs_error_codes [OF fresh_fs_facts(1), of "cstr ''x''" 3 "fresh_fs\<lparr>fs := None\<rparr>" 1 timer_start 1 0]
      fresh_fs_facts(3) by auto
qed

text \<open>Creating a file under a name of 16 or more characters that does not exist yet copies it
  past the end of the 16-byte name array.\<close>

theorem long_name_overflows:
  assumes "fs_ok st" and "16 \<le> length n" and "fs_find n (the (fs st)) = None" and "0 < fs_free st"
  shows "fs_create_file (Some n) type t st = Inl Out_Of_Bounds"
proof -
  obtain f where f: "fs st = Some f" "table_ok f" using assms(1) by (rule fs_okE)
  have "card (Collect (in_use f)) \<noteq> 32" using assms(4) f(1) by (auto simp: fs_free_def)
  then obtain i where "find (\<lambda>i. \<not> fe_in_use (files f ! i)) [0..<32] = Some i"
    using find_free [of f] by (meson not_None_eq)
  then show ?thesis
    using f(1) assms(2,3) by (simp add: fs_create_file_def fs_file_exists_def fs_strcpy_def)
qed

theorem long_name_overflows_witness:
  "fs_create_file (Some (cstr ''a_sixteen_chars_'')) 1 timer_start fresh_fs = Inl Out_Of_Bounds"
proof (rule long_name_overflows [OF fresh_fs_facts(1)])
  show "fs_find (cstr ''a_sixteen_chars_'') (the (fs fresh_fs)) = None"
    by (auto simp: fs_find_def find_None_iff fresh_fs_def zero_filesystem_def zero_entry_def)
qed (simp_all add: cstr_def fresh_fs_facts(4))

text \<open>Deleting a file does not give its bytes back: the entry is cleared before its size is
  subtracted, so the used size and the free space stay as they were.\<close>

theorem delete_keeps_used_size:
  assumes "fs_ok st" and "fs_content st n = Some b"
  shows "\<exists>st'. fs_delete_file (Some n) st = (0, st') \<and> fs_content st' n = None
    \<and> fs_get_free_space st' = fs_get_free_space st"
proof -
  obtain f where f: "fs st = Some f" "table_ok f" using assms(1) by (rule fs_okE)
  obtain f' where f': "fs_delete_file (Some n) st = (0, st\<lparr>fs := Some f'\<rparr>)" "table_ok f'"
      "lookup f' = (lookup f)(n := None)" "used_size f' = used_size f"
    using delete_effect [OF f, of n b] assms(2) f(1) by (auto simp: fs_content_def)
  then show ?thesis
    using f by (simp add: fs_content_def fs_get_free_space_def table_ok_def)
qed

theorem delete_keeps_used_size_witness:
  "\<exists>i st st'. fs_create_file (Some (cstr ''a'')) 1 timer_start fresh_fs = Inr (i, st)
     \<and> fs_delete_file (Some (cstr ''a'')) st = (0, st') \<and> fs_get_free_space st' = fs_get_free_space st"
proof -
  have v: "fs_valid (cstr ''a'')" by (simp add: fs_valid_def c_string_def cstr_def)
  have "fs_content fresh_fs (cstr ''a'') = None" "0 < fs_free fresh_fs"
    using fresh_fs_facts(3,4) by simp_all
  then obtain i s1 where s1: "fs_create_file (Some (cstr ''a'')) 1 timer_start fresh_fs = Inr (i, s1)"
      "fs_ok s1" "fs_content s1 (cstr ''a'') = Some []"
    using fstore.create_new [OF fresh_fs_facts(1,2) _ v, of 1 timer_start] by auto
  then show ?thesis using delete_keeps_used_size [OF s1(2,3)] by blast
qed

section \<open>Initialisation\<close>

lemma demo_names:
  "fs_valid (cstr ''readme.txt'')" "fs_valid (cstr ''welcome.txt'')" "fs_valid (cstr ''docs'')"
  "cstr ''readme.txt'' \<noteq> cstr ''welcome.txt''" "cstr ''readme.txt'' \<noteq> cstr ''docs''"
  "cstr ''welcome.txt'' \<noteq> cstr ''docs''"
  by (simp_all add: fs_valid_def c_string_def cstr_def)

lemma demo_texts: "length readme_text \<le> 1024" "length welcome_text \<le> 1024"
  by (simp_all add: readme_text_def welcome_text_def cstr_def)

lemma fs_fill_effect:
  assumes "fs_ok st" and "fs_cursor st = (\<lambda>_. None)" and "fs_content st n = Some []" and "length d \<le> 1024"
  shows "\<exists>st'. fs_fill n d st = Inr st' \<and> fs_ok st' \<and> fs_cursor st' = (\<lambda>_. None)
    \<and> fs_content st' = (fs_content st)(n \<mapsto> d) \<and> fs_free st' = fs_free st"
proof -
  obtain h s1 s2 s3 where "fs_open_file (Some n) st = (Some h, s1)"
      "fs_write_file (Some h) (Some d) (of_nat (length d)) s1 = Inr (int (length d), s2)"
      "fs_close_file (Some h) s2 = Inr s3" "fs_ok s3" "fs_cursor s3 = (\<lambda>_. None)"
      "fs_content s3 = (fs_content st)(n \<mapsto> d)" "fs_free s3 = fs_free st"
    using fstore.fill [OF assms] by blast
  then show ?thesis by (intro exI [of _ s3]) (simp add: fs_fill_def)
qed

definition demo_content :: "cchar list \<Rightarrow> u8 list option" where
  "demo_content = [cstr ''readme.txt'' \<mapsto> readme_text, cstr ''welcome.txt'' \<mapsto> welcome_text,
     cstr ''docs'' \<mapsto> []]"

lemma fs_demo_files_effect:
  assumes "fs_ok st" and "fs_cursor st = (\<lambda>_. None)" and "fs_content st = (\<lambda>_. None)" and "fs_free st = 32"
  shows "\<exists>st'. fs_demo_files t st = Inr st' \<and> fs_ok st' \<and> fs_cursor st' = (\<lambda>_. None)
    \<and> fs_content st' = demo_content \<and> fs_free st' = 29"
proof -
  let ?r = "cstr ''readme.txt''" and ?w = "cstr ''welcome.txt''" and ?d = "cstr ''docs''"
  obtain i1 s1 where 1: "fs_create_file (Some ?r) 1 t st = Inr (i1, s1)" "fs_ok s1" "fs_cursor s1 = (\<lambda>_. None)"
      "fs_content s1 = [?r \<mapsto> []]" "fs_free s1 = 31"
    using fstore.create_new [OF assms(1,2) _ demo_names(1), of 1 t] assms(3,4) by auto
  obtain i2 s2 where 2: "fs_create_file (Some ?w) 1 t s1 = Inr (i2, s2)" "fs_ok s2" "fs_cursor s2 = (\<lambda>_. None)"
      "fs_content s2 = [?r \<mapsto> [], ?w \<mapsto> []]" "fs_free s2 = 30"
    using fstore.create_new [OF 1(2,3) _ demo_names(2), of 1 t] 1(4,5) demo_names(4) by auto
  obtain i3 s3 where 3: "fs_create_file (Some ?d) 2 t s2 = Inr (i3, s3)" "fs_ok s3" "fs_cursor s3 = (\<lambda>_. None)"
      "fs_content s3 = [?r \<mapsto> [], ?w \<mapsto> [], ?d \<mapsto> []]" "fs_free s3 = 29"
    using fstore.create_new [OF 2(2,3) _ demo_names(3), of 2 t] 2(4,5) demo_names(5,6) by auto
  obtain s4 where 4: "fs_fill ?r readme_text s3 = Inr s4" "fs_ok s4" "fs_cursor s4 = (\<lambda>_. None)"
      "fs_content s4 = (fs_content s3)(?r \<mapsto> readme_text)" "fs_free s4 = 29"
    using fs_fill_effect [OF 3(2,3) _ demo_texts(1), of ?r] 3(4,5) demo_names(4,5) by auto
  obtain s5 where 5: "fs_fill ?w welcome_text s4 = Inr s5" "fs_ok s5" "fs_cursor s5 = (\<lambda>_. None)"
      "fs_content s5 = (fs_content s4)(?w \<mapsto> welcome_text)" "fs_free s5 = 29"
    using fs_fill_effect [OF 4(2,3) _ demo_texts(2), of ?w] 3(4) 4(4,5) demo_names(4,6) by auto
  have "fs_content s5 = demo_content"
    using 3(4) 4(4) 5(4) demo_names(4-6) by (auto simp: demo_content_def fun_eq_iff)
  moreover have "fs_demo_files t st = Inr s5"
    by (simp add: fs_demo_files_def 1(1) 2(1) 3(1) 4(1) 5(1))
  ultimately show ?thesis using 5 by blast
qed

lemma fs_init_reserved:
  assumes "kmalloc FS_SIZEOF h = Some (p, h')" and "p \<noteq> 0"
  shows "\<exists>st'. fs_init t st h s = Some (Inr (st', h', s)) \<and> fs_ok st' \<and> fs_cursor st' = (\<lambda>_. None)
    \<and> fs_content st' = demo_content \<and> fs_free st' = 29"
proof -
  have "st\<lparr>fs := Some (zero_filesystem\<lparr>total_files := of_nat 32, used_files := 0,
        total_size := of_nat 32 * MAX_FILE_SIZE, used_size := 0\<rparr>),
      file_handles := map (\<lambda>_. \<lparr>file_index = -1, position = 0, is_open = False\<rparr>) [0..<8]\<rparr> = fresh_fs"
    by (simp add: fresh_fs_def)
  moreover obtain st' where "fs_demo_files t fresh_fs = Inr st'" "fs_ok st'" "fs_cursor st' = (\<lambda>_. None)"
      "fs_content st' = demo_content" "fs_free st' = 29"
    using fs_demo_files_effect [OF fresh_fs_facts] by blast
  ultimately have "fs_init t st h s = Some (Inr (st', h', s))"
      "fs_ok st' \<and> fs_cursor st' = (\<lambda>_. None) \<and> fs_content st' = demo_content \<and> fs_free st' = 29"
    using assms by (simp_all only: fs_init_def Let_def) simp_all
  then show ?thesis by blast
qed

text \<open>C18: On a well-formed heap \<open>fs_init\<close> returns. If a free block has the 33936 bytes of the
  structure, it reserves a payload of at least that size, which was not in use before, and leaves
  exactly the three demo files with their texts, no open handle and 29 free slots, and prints
  nothing. Otherwise it prints the failure in red and leaves the heap and the handles as they are
  and the file system uninitialised.\<close>

theorem fs_init_contents:
  assumes "heap_inv h"
  shows "if \<exists>b \<in> set (heap_blocks h). snd b \<and> 33936 \<le> fst b
    then \<exists>st' h'. fs_init t st h s = Some (Inr (st', h', s)) \<and> heap_inv h'
      \<and> fs_ok st' \<and> fs_cursor st' = (\<lambda>_. None) \<and> fs_content st' = demo_content \<and> fs_free st' = 29
      \<and> (\<exists>p u. 33936 \<le> u \<and> (p, u) \<notin> heap_live h \<and> heap_live h' = insert (p, u) (heap_live h))
    else fs_init t st h s = Some (Inr (st\<lparr>fs := None\<rparr>, h,
      screen_println (cstr ''Failed to allocate memory for file system!'')
        (screen_set_color VGA_COLOR_LIGHT_RED VGA_COLOR_BLACK s)))"
proof -
  obtain p h' where k: "kmalloc FS_SIZEOF h = Some (p, h')"
    using kheap.allocate_returns [OF assms] by blast
  have room: "p \<noteq> 0 \<longleftrightarrow> (\<exists>b \<in> set (heap_blocks h). snd b \<and> 33936 \<le> fst b)"
    using kmalloc_room [OF assms k] by (simp add: align4_unat)
  show ?thesis
  proof (cases "p = 0")
    case True
    then have "h' = h" using kheap.allocate_null [OF assms] k by blast
    moreover have none: "\<not> (\<exists>b \<in> set (heap_blocks h). snd b \<and> 33936 \<le> fst b)" using room True by blast
    ultimately show ?thesis unfolding if_not_P [OF none] using True k by (simp add: fs_init_def Let_def)
  next
    case False
    obtain u where u: "heap_inv h'" "33936 \<le> u" "heap_live h' = insert (unat p, u) (heap_live h)"
        "(unat p, u) \<notin> heap_live h"
      using kheap.allocate_new [OF assms k False] by auto
    have found: "\<exists>b \<in> set (heap_blocks h). snd b \<and> 33936 \<le> fst b" using room False by blast
    obtain st' where "fs_init t st h s = Some (Inr (st', h', s))" "fs_ok st' \<and> fs_cursor st' = (\<lambda>_. None)
        \<and> fs_content st' = demo_content \<and> fs_free st' = 29"
      using fs_init_reserved [OF k False, of t st s] by blast
    then show ?thesis unfolding if_P [OF found] using u by blast
  qed
qed

theorem fs_init_contents_witness:
  "\<exists>st' h'. fs_init timer_start fs_start boot_heap (screen_start (\<lambda>_. 0) (\<lambda>_. sconst 0))
      = Some (Inr (st', h', screen_start (\<lambda>_. 0) (\<lambda>_. sconst 0))) \<and> fs_content st' = demo_content"
  using fs_init_contents [OF boot_heap_inv, of timer_start fs_start "screen_start (\<lambda>_. 0) (\<lambda>_. sconst 0)"]
  by (auto simp: boot_heap_blocks init_blocks_def)

end
