(* ===== verification/Shell_Properties.thy ===== *)
theory Shell_Properties imports Shell_Files File_Theorems begin

text \<open>
  The invariant of the kernel state and what each command does to it: reports, the memory
  test, sleeping, the file commands and the editor.
\<close>

section \<open>Reports leave the cursor in the window and the devices alone\<close>

lemma port_in_putchar [simp]: "port_in (screen_putchar c s) = port_in s"
  by (simp add: screen_putchar_stages Let_def put_glyph_frame wrap_scroll_frame)

lemma port_in_print [simp]:
  "port_in (screen_print cs s) = port_in s" "port_in (screen_println cs s) = port_in s"
  "port_in (screen_set_color fg bg s) = port_in s"
proof -
  show p: "port_in (screen_print cs s) = port_in s" for s
    by (induction cs arbitrary: s) simp_all
  show "port_in (screen_println cs s) = port_in s" by (simp add: screen_println_def p)
  show "port_in (screen_set_color fg bg s) = port_in s" by (simp add: screen_set_color_def)
qed

lemma screen_inv_number [inv_intros]: "screen_inv s \<Longrightarrow> screen_inv (print_number n s)"
  by (simp add: print_number_text inv_intros)

lemma screen_inv_hex [inv_intros]: "screen_inv s \<Longrightarrow> screen_inv (print_hex n s)"
  by (simp add: print_hex_def inv_intros)

lemma screen_inv_mm_number [inv_intros]: "screen_inv s \<Longrightarrow> screen_inv (mm_print_number n s)"
proof -
  have "mm_print_number n s = print_number n s" by (simp only: mm_print_number_def print_number_def)
  then show "screen_inv s \<Longrightarrow> ?thesis" by (simp add: inv_intros)
qed

lemma screen_inv_colored [inv_intros]: "screen_inv s \<Longrightarrow> screen_inv (colored fg l s)"
  by (simp add: colored_def inv_intros)

lemma screen_inv_quoted [inv_intros]: "screen_inv s \<Longrightarrow> screen_inv (quoted b n a s)"
  by (simp add: quoted_def inv_intros)

lemma screen_inv_println_all [inv_intros]: "screen_inv s \<Longrightarrow> screen_inv (println_all ls s)"
  unfolding println_all_def by (rule fold_invariant_list) (auto intro: inv_intros)

lemma screen_inv_outb [simp]: "screen_inv (outb p d s) = screen_inv s"
  by (simp add: outb_def screen_inv_def)

lemma screen_inv_prompt [inv_intros]: "screen_inv s \<Longrightarrow> screen_inv (shell_print_prompt s)"
  by (simp add: shell_print_prompt_def inv_intros Let_def)

lemma screen_inv_stats [inv_intros]: "screen_inv s \<Longrightarrow> screen_inv (memory_print_stats h s)"
  unfolding memory_print_stats_def Let_def by (simp add: inv_intros)

lemma screen_inv_fs_info [inv_intros]: "screen_inv s \<Longrightarrow> screen_inv (fs_print_info st s)"
  by (simp add: fs_print_info_def inv_intros Let_def split: option.split)

lemma screen_inv_list_entry [inv_intros]: "screen_inv s \<Longrightarrow> screen_inv (fs_list_entry e s)"
  by (simp add: fs_list_entry_def inv_intros Let_def)

lemma screen_inv_list_loop:
  "screen_inv s \<Longrightarrow> screen_inv (snd (fold (\<lambda>i (found, s). if P i
     then (True, fs_list_entry (e i) s) else (found, s)) is (found, s)))"
  by (induction "is" arbitrary: found s) (simp_all add: inv_intros)

lemma screen_inv_list_files [inv_intros]: "screen_inv s \<Longrightarrow> screen_inv (fs_list_files st s)"
proof (cases "fs st")
  case None
  then show "screen_inv s \<Longrightarrow> ?thesis" by (simp add: fs_list_files_def inv_intros)
next
  case (Some f)
  let ?s = "screen_set_color 15 0 (screen_println (cstr ''Directory Listing:'') (screen_set_color 11 0 s))"
  assume "screen_inv s"
  then have "screen_inv ?s" by (simp add: inv_intros)
  from screen_inv_list_loop [OF this, of "\<lambda>i. fe_in_use (files f ! i)" "(!) (files f)" "[0..<32]" False]
  show ?thesis unfolding fs_list_files_def Let_def Some
    by (auto split: prod.split intro!: inv_intros)
qed

lemma screen_inv_reports [inv_intros]:
  assumes "screen_inv s"
  shows "screen_inv (shell_help s)" "screen_inv (shell_version s)" "screen_inv (shell_about s)"
    "screen_inv (shell_calc s)" "screen_inv (shell_colors s)" "screen_inv (shell_time t s)"
    "screen_inv (shell_echo s)" "screen_inv (shell_ps s)" "screen_inv (shell_uptime t s)"
    "screen_inv (shell_sysinfo s)" "screen_inv (shell_reboot s)" "screen_inv (shell_unknown c s)"
  using assms
  by (simp_all add: shell_help_def shell_version_def shell_about_def shell_calc_def shell_colors_def
      shell_time_def shell_echo_def shell_ps_def shell_uptime_def shell_sysinfo_def shell_reboot_def
      shell_unknown_def Let_def inv_intros del: fold_simps)

section \<open>The keyboard moves nothing but its own streams\<close>

lemma inb_frame: "snd (inb port p) = p\<lparr>port_in := port_in (snd (inb port p))\<rparr>"
  by (simp add: inb_def)

lemma poll_frame:
  assumes "keyboard_poll kb p = (r, kb', p')"
  shows "p' = p\<lparr>port_in := port_in p'\<rparr>"
  using assms by (auto simp: keyboard_poll_def inb_def Let_def split: prod.splits if_splits)

text \<open>The port streams after a key only depend on the streams before it.\<close>

lemma getchar_frame:
  assumes "keyboard_getchar kb p = Some (key, kb', p')"
  shows "p' = p\<lparr>port_in := port_in p'\<rparr>"
proof -
  have "snd (snd z) = p\<lparr>port_in := port_in (snd (snd z))\<rparr>" if "keyboard_getchar kb p = Some z" for z
  proof (rule keyboard_getchar.raw_induct [where P = "\<lambda>kb p z. snd (snd z) = p\<lparr>port_in := port_in (snd (snd z))\<rparr>", OF _ that])
    fix getchar kb p z
    assume IH: "\<And>kb p z. getchar kb p = Some z \<Longrightarrow> snd (snd z) = p\<lparr>port_in := port_in (snd (snd z))\<rparr>"
      and body: "(case keyboard_poll kb p of (None, kb, p) \<Rightarrow> getchar kb p
        | (Some key, kb, p) \<Rightarrow> Some (key, kb, p)) = Some z"
    obtain r kb1 p1 where poll: "keyboard_poll kb p = (r, kb1, p1)" by (metis prod_cases3)
    have p1: "p1 = p\<lparr>port_in := port_in p1\<rparr>" by (rule poll_frame [OF poll])
    show "snd (snd z) = p\<lparr>port_in := port_in (snd (snd z))\<rparr>"
    proof (cases r)
      case None
      then have "snd (snd z) = p1\<lparr>port_in := port_in (snd (snd z))\<rparr>" using IH body poll by simp
      also have "\<dots> = p\<lparr>port_in := port_in (snd (snd z))\<rparr>" by (subst p1) simp
      finally show ?thesis .
    next
      case (Some k)
      then show ?thesis using body poll p1 by auto
    qed
  qed
  from this [OF assms] show ?thesis by simp
qed

lemma poll_other_state:
  assumes "keyboard_poll kb p = (r, kb', p')" and "port_in q = port_in p"
  shows "keyboard_poll kb q = (r, kb', q\<lparr>port_in := port_in p'\<rparr>)"
  using assms by (auto simp: keyboard_poll_def inb_def Let_def split: prod.splits if_splits)

lemma getchar_other_state:
  fixes q :: "'q ports_scheme"
  assumes "keyboard_getchar kb p = Some (key, kb', p')" and "port_in q = port_in p"
  shows "keyboard_getchar kb q = Some (key, kb', q\<lparr>port_in := port_in p'\<rparr>)"
proof -
  let ?P = "\<lambda>kb p z. \<forall>q :: 'q ports_scheme. port_in q = port_in p \<longrightarrow>
    keyboard_getchar kb q = Some (fst z, fst (snd z), q\<lparr>port_in := port_in (snd (snd z))\<rparr>)"
  have "?P kb p z" if "keyboard_getchar kb p = Some z" for z
  proof (rule keyboard_getchar.raw_induct [where P = ?P, OF _ that])
    fix getchar kb p z
    assume IH: "\<And>kb p z. getchar kb p = Some z \<Longrightarrow> ?P kb p z"
      and body: "(case keyboard_poll kb p of (None, kb, p) \<Rightarrow> getchar kb p
        | (Some key, kb, p) \<Rightarrow> Some (key, kb, p)) = Some z"
    obtain r kb1 p1 where poll: "keyboard_poll kb p = (r, kb1, p1)" by (metis prod_cases3)
    show "?P kb p z"
    proof (intro allI impI)
      fix q :: "'q ports_scheme" assume "port_in q = port_in p"
      then have q: "keyboard_poll kb q = (r, kb1, q\<lparr>port_in := port_in p1\<rparr>)"
        by (rule poll_other_state [OF poll])
      show "keyboard_getchar kb q = Some (fst z, fst (snd z), q\<lparr>port_in := port_in (snd (snd z))\<rparr>)"
      proof (cases r)
        case None
        then have "?P kb1 p1 z" using IH body poll by simp
        then have "keyboard_getchar kb1 (q\<lparr>port_in := port_in p1\<rparr>)
            = Some (fst z, fst (snd z), q\<lparr>port_in := port_in (snd (snd z))\<rparr>)" by simp
        then show ?thesis using getchar_again q None by metis
      next
        case (Some k)
        then have "z = (k, kb1, p1)" using body poll by simp
        then show ?thesis using getchar_found q Some by simp
      qed
    qed
  qed
  from this [OF assms(1)] assms(2) show ?thesis by simp
qed

section \<open>Files between commands\<close>

text \<open>No command leaves a handle open.\<close>

definition files_idle :: "fs_state \<Rightarrow> bool" where
  "files_idle st \<longleftrightarrow> fs_inv st \<and> (\<forall>fh \<in> set (file_handles st). \<not> is_open fh)"

lemma files_idle_cases:
  assumes "files_idle st"
  obtains "fs st = None" | "fs_ok st" "fs_cursor st = (\<lambda>_. None)"
proof (cases "fs st")
  case (Some f)
  have "fs_cursor st = (\<lambda>_. None)"
    by (rule closed_cursor) (use assms in \<open>simp_all add: files_idle_def fs_inv_def\<close>)
  moreover have "fs_ok st" using assms Some by (simp add: files_idle_def fs_ok_def)
  ultimately show thesis by (rule that(2) [rotated])
qed (rule that(1))

lemma files_idle_ok: "fs_ok st \<Longrightarrow> fs_cursor st = (\<lambda>_. None) \<Longrightarrow> files_idle st"
  using all_closed [of st] by (auto simp: files_idle_def fs_ok_def)

lemma files_absent:
  assumes "files_idle st" and "c_string n" and "fs_content st n = None"
  shows "fs_open_file (Some n) st = (None, st)" "fst (fs_delete_file (Some n) st) \<noteq> 0"
    "snd (fs_delete_file (Some n) st) = st"
proof -
  have "(case fs st of None \<Rightarrow> True | Some f \<Rightarrow> fs_find n f = None)"
    using assms(2,3) by (auto simp: fs_content_def lookup_def split: option.splits)
  then show "fs_open_file (Some n) st = (None, st)" "fst (fs_delete_file (Some n) st) \<noteq> 0"
      "snd (fs_delete_file (Some n) st) = st"
    by (cases "fs st", simp_all add: fs_open_file_def fs_delete_file_def)+
qed

text \<open>Reading and writing through a buffer that is longer than the size passed with it.\<close>

lemma read_any_buffer:
  assumes ok: "fs_ok st" and c: "fs_cursor st h = Some (n, p)" and n: "fs_content st n = Some b"
    and k: "k \<le> length buf" "k \<le> 1024"
  defines "r \<equiv> take k (drop p b)"
  shows "\<exists>st'. fs_read_file (Some h) (Some buf) (of_nat k) st
      = Inr (int (length r), Some (r @ drop (length r) buf), st') \<and> read_bytes h k st = Inr (r, st')"
proof -
  obtain f i where h: "handle_for st f h i p" and name: "fe_name (files f ! i) = n"
    using cursor_handle [OF ok c] by blast
  have b: "r = take k (drop p (file_bytes f i))"
    using cursor_content [OF h] n name by (simp add: r_def)
  have k31: "k < 2 ^ 32" using k by simp
  obtain p1 where 1: "fs_read_file (Some h) (Some buf) (of_nat k) st = Inr (int (length r),
        Some (r @ drop (length r) buf), put_handle h ((file_handles st ! h)\<lparr>position := p1\<rparr>) st)"
      "unat p1 = p + length r"
    using read_effect [OF h k(1) k31, folded b] by blast
  obtain p2 where 2: "fs_read_file (Some h) (Some (replicate k 0)) (of_nat k) st = Inr (int (length r),
        Some (r @ drop (length r) (replicate k 0)), put_handle h ((file_handles st ! h)\<lparr>position := p2\<rparr>) st)"
      "unat p2 = p + length r"
    using read_effect [OF h _ k31, of "replicate k 0", folded b] by auto
  have "p1 = p2" using 1(2) 2(2) by (simp add: word_unat_eq_iff)
  then show ?thesis using 1(1) 2(1) by (simp add: read_bytes_def)
qed

lemma memcpy_prefix:
  assumes "s + n \<le> k" and "k \<le> length src"
  shows "fs_memcpy dest d src s n = fs_memcpy dest d (take k src) s n"
  using assms by (induction n arbitrary: dest d s) auto

lemma write_prefix:
  assumes h: "handle_for st f h i p" and k: "k \<le> length buf" "k < 2 ^ 31"
  shows "fs_write_file (Some h) (Some buf) (of_nat k) st
    = fs_write_file (Some h) (Some (take k buf)) (of_nat k) st"
proof -
  let ?pos = "position (file_handles st ! h)"
  define sz :: u32 where "sz = (if 1024 < ?pos + of_nat k then 1024 - ?pos else of_nat k)"
  have pos: "unat ?pos = p" "p \<le> 1024" using h by (simp_all add: handle_for_def)
  have uk: "unat (of_nat k :: u32) = k" using k by (intro unat_of_nat_small) simp
  have sum: "unat (?pos + of_nat k) = p + k"
    using pos k unat_add_of_nat [of ?pos k] by simp
  have "unat sz \<le> k"
  proof (cases "1024 < ?pos + of_nat k")
    case True
    then have "1024 < p + k" using sum by (simp add: word_less_nat_alt)
    moreover have "unat (1024 - ?pos) = 1024 - p"
      using pos by (subst unat_sub) (simp_all add: word_le_nat_alt)
    ultimately show ?thesis using True by (simp add: sz_def)
  next
    case False
    then show ?thesis by (simp add: sz_def uk)
  qed
  then have "fs_memcpy a d buf 0 (unat sz) = fs_memcpy a d (take k buf) 0 (unat sz)" for a d
    using k(1) by (intro memcpy_prefix) simp_all
  then show ?thesis
    using handle_for_target [OF h] by (simp add: fs_write_file_def sz_def [symmetric] Let_def)
qed

text \<open>Filling an existing empty file from the front of an array.\<close>

lemma fill_from_array:
  assumes "fs_ok st" and "fs_cursor st = (\<lambda>_. None)" and "fs_content st n = Some []"
    and "k \<le> length buf" and "k \<le> 1024"
  shows "\<exists>h s1 s2 s3. fs_open_file (Some n) st = (Some h, s1)
    \<and> fs_write_file (Some h) (Some buf) (of_nat k) s1 = Inr (int k, s2)
    \<and> fs_close_file (Some h) s2 = Inr s3 \<and> files_idle s3 \<and> fs s3 \<noteq> None
    \<and> fs_content s3 = (fs_content st)(n \<mapsto> take k buf)"
proof -
  have len: "length (take k buf) = k" using assms(4) by simp
  obtain h s1 s2 s3 where f: "fs_open_file (Some n) st = (Some h, s1)"
      "fs_write_file (Some h) (Some (take k buf)) (of_nat (length (take k buf))) s1 = Inr (int (length (take k buf)), s2)"
      "fs_close_file (Some h) s2 = Inr s3" "fs_ok s3" "fs_cursor s3 = (\<lambda>_. None)"
      "fs_content s3 = (fs_content st)(n \<mapsto> take k buf)"
    using fstore.fill [OF assms(1-3), of "take k buf"] assms(5) len by metis
  have s1: "fs_ok s1" "fs_cursor s1 = [h \<mapsto> (n, 0)]"
    using fstore.open_old [OF assms(1-3)] f(1) by auto
  then obtain g i where "handle_for s1 g h i 0" using cursor_handle [of s1 h n 0] by (metis fun_upd_same)
  then have "fs_write_file (Some h) (Some buf) (of_nat k) s1
      = fs_write_file (Some h) (Some (take k buf)) (of_nat k) s1"
    by (rule write_prefix) (use assms(4,5) in simp_all)
  moreover have "fs s3 \<noteq> None" using f(4) by (auto simp: fs_ok_def)
  ultimately show ?thesis using f files_idle_ok len by auto
qed

end
