(* ===== verification/Shell_Effects.thy ===== *)
theory Shell_Effects imports Shell_Properties begin

text \<open>
  What each command of the shell does to the kernel state: it keeps the invariant, and the
  file commands act on the files as their names say.
\<close>

section \<open>The kernel invariant\<close>

definition kernel_inv :: "kernel \<Rightarrow> bool" where
  "kernel_inv k \<longleftrightarrow> screen_inv (scr k) \<and> heap_inv (heap_state k) \<and> files_idle (fsys k)"

lemma on_scr_simps [simp]:
  "scr (on_scr f m) = f (scr m)" "kbd (on_scr f m) = kbd m" "tmr (on_scr f m) = tmr m"
  "gates (on_scr f m) = gates m" "interrupt_flag (on_scr f m) = interrupt_flag m"
  "irqs (on_scr f m) = irqs m" "on_scr f (on_scr g m) = on_scr (\<lambda>s. f (g s)) m"
  by (simp_all add: on_scr_def)

lemma on_scr_kernel [simp]:
  "heap_state (on_scr f k) = heap_state k" "fsys (on_scr f k) = fsys k"
  "stack_bytes (on_scr f k) = stack_bytes k"
  by (simp_all add: on_scr_def)

lemma kernel_inv_on_scr [inv_intros]:
  "kernel_inv k \<Longrightarrow> (screen_inv (scr k) \<Longrightarrow> screen_inv (f (scr k))) \<Longrightarrow> kernel_inv (on_scr f k)"
  by (simp add: kernel_inv_def)

lemma kernel_inv_parts:
  "kernel_inv k \<Longrightarrow> files_idle st \<Longrightarrow> kernel_inv (k\<lparr>fsys := st\<rparr>)"
  "kernel_inv k \<Longrightarrow> heap_inv h \<Longrightarrow> kernel_inv (k\<lparr>heap_state := h\<rparr>)"
  by (simp_all add: kernel_inv_def)

section \<open>Memory test and sleeping\<close>

text \<open>Two blocks taken and given back, whether or not the heap has room for them.\<close>

lemma take_and_return:
  assumes inv: "heap_inv h" and n: "unat n \<le> 2 ^ 32 - 4" and k: "unat k \<le> 2 ^ 32 - 4"
  obtains p h1 q h2 where "kmalloc n h = Some (p, h1)" "kmalloc k h1 = Some (q, h2)"
    "heap_inv (kfree q (kfree p h2))" "heap_live (kfree q (kfree p h2)) = heap_live h"
proof -
  have null: "kfree 0 h = h" for h by (simp add: kfree_def)
  obtain p h1 where 1: "kmalloc n h = Some (p, h1)"
    using kheap.allocate_returns [OF inv] by blast
  have h1: "heap_inv h1"
    using kheap.allocate_null [OF inv] kheap.allocate_new [OF inv 1 _ n] 1 inv by (cases "p = 0") auto
  obtain q h2 where 2: "kmalloc k h1 = Some (q, h2)"
    using kheap.allocate_returns [OF h1] by blast
  have "heap_inv (kfree q (kfree p h2)) \<and> heap_live (kfree q (kfree p h2)) = heap_live h"
  proof (cases "p = 0")
    case True
    then have "h1 = h" using kheap.allocate_null [OF inv] 1 by blast
    then show ?thesis
      using True kheap.allocate_release [OF h1 2 _ k] kheap.allocate_null [OF h1] 2 inv
      by (cases "q = 0") (auto simp: null)
  next
    case p: False
    show ?thesis
    proof (cases "q = 0")
      case True
      then have "h2 = h1" using kheap.allocate_null [OF h1] 2 by blast
      then show ?thesis using True kheap.allocate_release [OF inv 1 p n] by (simp add: null)
    next
      case False
      then show ?thesis using kheap.return_two [OF inv 1 p n 2 _ k] by simp
    qed
  qed
  then show thesis using that [OF 1 2] by blast
qed

lemma memtest_effect:
  assumes "kernel_inv k"
  shows "\<exists>k'. shell_memtest k = Some k' \<and> kernel_inv k' \<and> fsys k' = fsys k
    \<and> heap_live (heap_state k') = heap_live (heap_state k)"
proof -
  have inv: "heap_inv (heap_state k)" and scr: "screen_inv (scr k)"
    using assms by (simp_all add: kernel_inv_def)
  obtain p h1 q h2 where 1: "kmalloc 1024 (heap_state k) = Some (p, h1)" and 2: "kmalloc 2048 h1 = Some (q, h2)"
    and h: "heap_inv (kfree q (kfree p h2))" "heap_live (kfree q (kfree p h2)) = heap_live (heap_state k)"
    by (rule take_and_return [OF inv, of 1024 2048]) simp_all
  obtain s where "shell_memtest k = Some (k\<lparr>heap_state := kfree q (kfree p h2), scr := s\<rparr>)" "screen_inv s"
    using 1 2 scr by (simp add: shell_memtest_def Let_def on_scr_def inv_intros)
  then show ?thesis
    using h assms
    by (intro exI [of _ "k\<lparr>heap_state := kfree q (kfree p h2), scr := s\<rparr>"]) (auto simp: kernel_inv_def)
qed

text \<open>What an interrupt handler can change.\<close>

definition same_kernel :: "kernel \<Rightarrow> kernel \<Rightarrow> bool" where
  "same_kernel k k' \<longleftrightarrow> (screen_inv (scr k) \<longrightarrow> screen_inv (scr k')) \<and> heap_state k' = heap_state k
     \<and> fsys k' = fsys k"

lemma keyboard_handler_frame:
  "snd (keyboard_handler kb p) = p\<lparr>port_in := port_in (snd (keyboard_handler kb p))\<rparr>"
  by (simp add: keyboard_handler_def inb_def Let_def split: prod.split)

lemma screen_inv_port_in [simp]: "screen_inv (s\<lparr>port_in := x\<rparr>) = screen_inv s"
  by (simp add: screen_inv_def)

lemma screen_inv_frame: "s' = s\<lparr>port_in := port_in s'\<rparr> \<Longrightarrow> screen_inv s \<Longrightarrow> screen_inv s'"
  by (metis screen_inv_port_in)

lemma same_kernel_refl: "same_kernel k k"
  by (simp add: same_kernel_def)

lemma same_kernel_trans: "same_kernel k k' \<Longrightarrow> same_kernel k' k'' \<Longrightarrow> same_kernel k k''"
  by (simp add: same_kernel_def)

lemma same_kernel_irq: "same_kernel k (handle_irq i k)"
  using screen_inv_frame [OF keyboard_handler_frame [of "kbd k" "scr k"]]
  by (cases i) (auto simp: same_kernel_def irq0_handler_def irq1_handler_def split: prod.splits)

lemma same_kernel_irqs: "same_kernel k (fold handle_irq is k)"
  by (induction "is" arbitrary: k) (auto intro: same_kernel_refl same_kernel_trans [OF same_kernel_irq])

lemma same_kernel_taken: "same_kernel k (k\<lparr>irqs := is\<rparr>)"
  by (simp add: same_kernel_def)

lemma same_kernel_point: "same_kernel k (interrupt_point k)"
  unfolding interrupt_point_def
  by (auto intro: same_kernel_refl same_kernel_trans [OF same_kernel_taken same_kernel_irqs])

lemma same_kernel_hlt:
  assumes "hlt k = Some k'"
  shows "same_kernel k k'"
proof (rule hlt.raw_induct [where P = "\<lambda>k k'. same_kernel k k'", OF _ assms])
  fix f and k k' :: kernel
  assume IH: "\<And>k k'. f k = Some k' \<Longrightarrow> same_kernel k k'"
    and body: "(if interrupt_flag k
       then if shd (irqs k) = [] then f (k\<lparr>irqs := stl (irqs k)\<rparr>) else Some (interrupt_point k)
       else None) = Some k'"
  then show "same_kernel k k'"
    by (auto intro: same_kernel_point same_kernel_trans [OF same_kernel_taken] split: if_splits)
qed

lemma same_kernel_wait:
  assumes "timer_wait_loop start n k = Some k'"
  shows "same_kernel k k'"
proof (rule timer_wait_loop.raw_induct [where P = "\<lambda>_ _ k k'. same_kernel k k'", OF _ assms])
  fix loop start n k k'
  assume IH: "\<And>start n k k'. loop start n k = Some k' \<Longrightarrow> same_kernel k k'"
    and body: "(let m = interrupt_point k
      in if timer_ticks (tmr m) - start < n
         then case hlt (interrupt_point m) of None \<Rightarrow> None | Some m \<Rightarrow> loop start n m
         else Some m) = Some k'"
  let ?m = "interrupt_point k"
  show "same_kernel k k'"
  proof (cases "timer_ticks (tmr ?m) - start < n")
    case True
    then obtain m where m: "hlt (interrupt_point ?m) = Some m" "loop start n m = Some k'"
      using body by (auto simp: Let_def split: option.splits)
    show ?thesis
      by (rule same_kernel_trans [OF same_kernel_point same_kernel_trans [OF same_kernel_point
            same_kernel_trans [OF same_kernel_hlt [OF m(1)] IH [OF m(2)]]]])
  next
    case False
    then show ?thesis using body by (auto simp: Let_def intro: same_kernel_point)
  qed
qed

lemma kernel_inv_sleep:
  assumes "kernel_inv k" and "shell_sleep k = Some k'"
  shows "kernel_inv k' \<and> fsys k' = fsys k \<and> heap_state k' = heap_state k"
proof -
  obtain m where m: "timer_sleep 2000 (on_scr (colored 14 ''Sleeping for 2 seconds...'') k) = Some m"
      "k' = on_scr (screen_println (cstr ''Done sleeping!'')) m"
    using assms(2) by (auto simp: shell_sleep_def split: option.splits)
  have "same_kernel (on_scr (colored 14 ''Sleeping for 2 seconds...'') k) m"
    using m(1) same_kernel_wait by (simp add: timer_sleep_def timer_wait_def)
  then show ?thesis
    using assms(1) m(2) by (simp add: same_kernel_def kernel_inv_def inv_intros)
qed

section \<open>Creating files\<close>

lemma content_valid:
  assumes "files_idle st" and "fs_content st n = Some b"
  shows "fs_valid n" and "fs_ok st" and "fs_cursor st = (\<lambda>_. None)"
proof -
  have ok: "fs_ok st \<and> fs_cursor st = (\<lambda>_. None)"
    using assms by (cases rule: files_idle_cases) (auto simp: fs_content_def)
  then show "fs_ok st" "fs_cursor st = (\<lambda>_. None)" by simp_all
  obtain f where f: "fs st = Some f" "table_ok f" using ok by (auto elim: fs_okE)
  then obtain i where "in_use f i" "fe_name (files f ! i) = n"
    using assms(2) lookup_Some [OF f(2)] by (auto simp: fs_content_def)
  then show "fs_valid n"
    using f(2) by (auto simp: table_ok_def entry_ok_def in_use_def fs_valid_def c_string_def)
qed

text \<open>The four outcomes of creating a file while no handle is open.\<close>

lemma create_cases:
  assumes idle: "files_idle st" and n: "c_string n"
  obtains (fault) "fs_create_file (Some n) type t st = Inl Out_Of_Bounds" "16 \<le> length n"
      "fs_ok st" "0 < fs_free st"
  | (failed) r where "fs_create_file (Some n) type t st = Inr (r, st)" "r < 0" "r \<noteq> -2"
      "fs_content st n = None" "fs st = None \<or> fs_free st = 0"
  | (exists) b where "fs_create_file (Some n) type t st = Inr (-2, st)" "fs_content st n = Some b"
  | (created) r st' where "fs_create_file (Some n) type t st = Inr (r, st')" "0 \<le> r" "fs_ok st'"
      "fs_cursor st' = (\<lambda>_. None)" "fs_content st' = (fs_content st)(n \<mapsto> [])" "fs_content st n = None"
      "fs st \<noteq> None" "0 < fs_free st"
proof (cases "fs_content st n")
  case (Some b)
  then show thesis
    using content_valid [OF idle Some] fstore.create_old [of st n b type t] exists by simp
next
  case None
  show thesis using idle
  proof (cases rule: files_idle_cases)
    case 1
    have "fs_create_file (Some n) type t st = Inr (-1, st)" by (simp add: fs_create_file_def 1)
    then show thesis by (rule failed) (use None 1 in simp_all)
  next
    case 2
    obtain f where f: "fs st = Some f" "table_ok f" using 2(1) by (rule fs_okE)
    have new: "\<not> fs_file_exists (Some n) st"
      using None n f(1) by (simp add: fs_file_exists_def fs_content_def lookup_def)
    have room: "find (\<lambda>i. \<not> fe_in_use (files f ! i)) [0..<32] = None \<longleftrightarrow> fs_free st = 0"
      using find_free [of f] card_in_use [of f] f(1) by (auto simp: fs_free_def)
    show thesis
    proof (cases "find (\<lambda>i. \<not> fe_in_use (files f ! i)) [0..<32]")
      case full: None
      then have "fs_create_file (Some n) type t st = Inr (-3, st)"
        using f(1) new by (simp add: fs_create_file_def)
      then show thesis by (rule failed) (use None full room in simp_all)
    next
      case slot: (Some i)
      then have free: "0 < fs_free st" using room by simp
      show thesis
      proof (cases "length n < 16")
        case True
        then have v: "fs_valid n" using n by (simp add: fs_valid_def)
        then show thesis
          using fstore.create_new [OF 2 free v None, of type t] created None free f(1) by blast
      next
        case False
        then have "fs_create_file (Some n) type t st = Inl Out_Of_Bounds"
          using f(1) new slot by (simp add: fs_create_file_def fs_strcpy_def)
        then show thesis by (rule fault) (use False 2 free in simp_all)
      qed
    qed
  qed
qed

lemma shell_create_effect:
  assumes inv: "kernel_inv k" and n: "c_string n"
  shows "(shell_create parts n k = Inl Out_Of_Bounds \<and> 2 \<le> parts \<and> 16 \<le> length n
      \<and> fs_ok (fsys k) \<and> 0 < fs_free (fsys k))
    \<or> (\<exists>k'. shell_create parts n k = Inr k' \<and> kernel_inv k' \<and> heap_state k' = heap_state k
        \<and> fs_content (fsys k') =
          (if 2 \<le> parts \<and> fs_content (fsys k) n = None \<and> fs (fsys k) \<noteq> None \<and> 0 < fs_free (fsys k)
           then (fs_content (fsys k))(n \<mapsto> new_file_text) else fs_content (fsys k)))"
proof (cases "parts < 2")
  case True
  then show ?thesis using inv by (auto simp: shell_create_def intro!: inv_intros)
next
  case False
  have idle: "files_idle (fsys k)" using inv by (simp add: kernel_inv_def)
  show ?thesis
  proof (rule create_cases [OF idle n, where type = FILE_TYPE_REGULAR and t = "tmr k"], goal_cases fault failed exists created)
    case fault
    then show ?thesis using False by (simp add: shell_create_def)
  next
    case (failed r)
    have "shell_create parts n k = Inr (on_scr (\<lambda>s. screen_println (cstr ''Failed to create file!'') (screen_set_color 12 0 s)) k)"
      using False failed by (simp add: shell_create_def)
    then show ?thesis using inv failed(4,5) by (auto intro!: inv_intros)
  next
    case (exists b)
    then show ?thesis using False inv by (auto simp: shell_create_def Let_def intro!: inv_intros)
  next
    case (created r st')
    have len: "length new_file_text \<le> 1024" by (simp add: new_file_text_def cstr_def)
    obtain h s1 s2 s3 where f: "fs_open_file (Some n) st' = (Some h, s1)"
        "fs_write_file (Some h) (Some new_file_text) (of_nat (length new_file_text)) s1
           = Inr (int (length new_file_text), s2)"
        "fs_close_file (Some h) s2 = Inr s3" "files_idle s3"
        "fs_content s3 = (fs_content st')(n \<mapsto> new_file_text)"
      using fill_from_array [OF created(3,4) _ order_refl len, of n] created(5) by auto
    have "\<exists>g. (\<forall>s. screen_inv s \<longrightarrow> screen_inv (g s))
        \<and> shell_create parts n k = Inr (on_scr g (k\<lparr>fsys := s3\<rparr>))"
      using False created(1,2) f(1-3)
      by (intro exI [of _ "\<lambda>s. screen_println (cstr ''Added default content to the file.'')
            (quoted (''Created file '' @ [CHR 0x27]) n ([CHR 0x27] @ '' successfully!'') (screen_set_color 10 0 s))"])
        (simp add: shell_create_def on_scr_def inv_intros)
    then obtain g where g: "\<And>s. screen_inv s \<Longrightarrow> screen_inv (g s)"
        "shell_create parts n k = Inr (on_scr g (k\<lparr>fsys := s3\<rparr>))" by blast
    show ?thesis
      using g f(4,5) created(5-8) False kernel_inv_on_scr [OF kernel_inv_parts(1) [OF inv f(4)], of g]
      by auto
  qed
qed

section \<open>Deleting and showing files\<close>

lemma shell_delete_effect:
  assumes inv: "kernel_inv k" and n: "c_string n"
  shows "kernel_inv (shell_delete parts n k) \<and> heap_state (shell_delete parts n k) = heap_state k
    \<and> fs_content (fsys (shell_delete parts n k)) =
        (if 2 \<le> parts then (fs_content (fsys k))(n := None) else fs_content (fsys k))"
proof (cases "parts < 2")
  case True
  then show ?thesis using inv by (simp add: shell_delete_def inv_intros)
next
  case False
  have idle: "files_idle (fsys k)" using inv by (simp add: kernel_inv_def)
  obtain r st where run: "fs_delete_file (Some n) (fsys k) = (r, st)" by fastforce
  have st: "files_idle st \<and> fs_content st = (fs_content (fsys k))(n := None)"
  proof (cases "fs_content (fsys k) n")
    case None
    then have "st = fsys k" using files_absent(3) [OF idle n None] run by simp
    then show ?thesis using idle None by (auto simp: fun_eq_iff)
  next
    case (Some b)
    then show ?thesis
      using fstore.delete_old [OF content_valid(2,3) [OF idle Some] Some] run files_idle_ok by auto
  qed
  have "\<exists>g. (\<forall>s. screen_inv s \<longrightarrow> screen_inv (g s)) \<and> shell_delete parts n k = on_scr g (k\<lparr>fsys := st\<rparr>)"
    using False run
    by (intro exI [of _ "\<lambda>s. if r = 0
          then quoted (''Deleted file '' @ [CHR 0x27]) n ([CHR 0x27] @ '' successfully!'') (screen_set_color 10 0 s)
          else quoted (''File '' @ [CHR 0x27]) n ([CHR 0x27] @ '' not found or error deleting!'')
                 (screen_set_color 12 0 s)"]) (simp add: shell_delete_def inv_intros Let_def)
  then obtain g where g: "\<And>s. screen_inv s \<Longrightarrow> screen_inv (g s)"
      "shell_delete parts n k = on_scr g (k\<lparr>fsys := st\<rparr>)" by blast
  have "kernel_inv (on_scr g (k\<lparr>fsys := st\<rparr>))"
    using st by (intro kernel_inv_on_scr kernel_inv_parts(1) [OF inv] g(1)) simp_all
  then show ?thesis using g(2) st False by simp
qed

lemma string_in_terminated: "string_in (r @ 0 # x) = string_in r"
  by (induction r) (simp_all add: string_in_def)

text \<open>What \<open>cat\<close> shows of a file.\<close>

definition cat_view :: "cchar list \<Rightarrow> u8 list \<Rightarrow> screen \<Rightarrow> screen" where
  "cat_view n b s =
     (let s = screen_set_color 15 0 (quoted ''Content of '' n '':'' (screen_set_color 11 0 s))
      in if b = [] then screen_println (cstr ''File is empty or error reading file.'') s
         else screen_println (string_in (take 511 b)) s)"

lemma shell_cat_found:
  assumes inv: "kernel_inv k" and p: "2 \<le> parts" and b: "fs_content (fsys k) n = Some b"
  shows "\<exists>st. shell_cat parts n k = Inr (on_scr (cat_view n b) (k\<lparr>fsys := st\<rparr>))
    \<and> files_idle st \<and> fs_content st = fs_content (fsys k)"
proof -
  have idle: "files_idle (fsys k)" using inv by (simp add: kernel_inv_def)
  note ok = content_valid(2,3) [OF idle b]
  obtain h s1 s2 s3 where f: "fs_open_file (Some n) (fsys k) = (Some h, s1)"
      "read_bytes h 511 s1 = Inr (take 511 b, s2)" "fs_close_file (Some h) s2 = Inr s3" "fs_ok s3"
      "fs_cursor s3 = (\<lambda>_. None)" "fs_content s3 = fs_content (fsys k)"
    using fstore.load [OF ok b, of 511] by auto
  have s1: "fs_ok s1" "fs_cursor s1 h = Some (n, 0)" "fs_content s1 n = Some b"
    using fstore.open_old [OF ok b] f(1) b by auto
  let ?buf = "local_array 512 k" and ?r = "take 511 b"
  have buf: "length (local_array 512 k') = 512" for k' by (simp add: local_array_def)
  have read: "fs_read_file (Some h) (Some ?buf) 511 s1
      = Inr (int (length ?r), Some (?r @ drop (length ?r) ?buf), s2)"
    using read_any_buffer [OF s1, of 511 ?buf] buf f(2) by auto
  have same: "local_array 512 (on_scr g (k\<lparr>fsys := s1\<rparr>)) = ?buf" for g
    by (simp add: local_array_def)
  have "shell_cat parts n k = Inr (on_scr (cat_view n b) (k\<lparr>fsys := s3\<rparr>))"
  proof (cases "b = []")
    case True
    then show ?thesis using p f(1,3) read
      by (simp add: shell_cat_def Let_def same) (simp add: cat_view_def on_scr_def)
  next
    case False
    then have pos: "0 < int (length ?r)" by simp
    have "length ?r < 512" by simp
    then obtain x where "drop (length ?r) ?buf = x # drop (Suc (length ?r)) ?buf"
      using buf by (metis Cons_nth_drop_Suc)
    then have "store_char (?r @ drop (length ?r) ?buf) (length ?r) 0
        = Inr (?r @ 0 # drop (Suc (length ?r)) ?buf)"
      using buf [of k] by (simp add: store_char_def list_update_append)
    then show ?thesis using p f(1,3) read pos False
      by (simp add: shell_cat_def Let_def same del: length_take)
        (simp add: cat_view_def on_scr_def string_in_terminated)
  qed
  then show ?thesis using f(4-6) files_idle_ok by blast
qed

lemma shell_cat_effect:
  assumes inv: "kernel_inv k" and n: "c_string n"
  shows "\<exists>k'. shell_cat parts n k = Inr k' \<and> kernel_inv k' \<and> heap_state k' = heap_state k
    \<and> fs_content (fsys k') = fs_content (fsys k)"
proof (cases "parts < 2")
  case True
  then show ?thesis using inv by (auto simp: shell_cat_def intro!: inv_intros)
next
  case False
  have idle: "files_idle (fsys k)" using inv by (simp add: kernel_inv_def)
  show ?thesis
  proof (cases "fs_content (fsys k) n")
    case None
    then show ?thesis using False inv files_absent(1) [OF idle n None]
      by (auto simp: shell_cat_def intro!: inv_intros)
  next
    case (Some b)
    obtain st where st: "shell_cat parts n k = Inr (on_scr (cat_view n b) (k\<lparr>fsys := st\<rparr>))"
        "files_idle st" "fs_content st = fs_content (fsys k)"
      using shell_cat_found [OF inv _ Some, of parts] False by auto
    have "kernel_inv (on_scr (cat_view n b) (k\<lparr>fsys := st\<rparr>))"
      using st(2) by (intro kernel_inv_on_scr kernel_inv_parts(1) [OF inv]) (simp_all add: cat_view_def Let_def inv_intros)
    then show ?thesis using st(1,3) by simp
  qed
qed

section \<open>The editor\<close>

lemma edit_write_effect:
  assumes k: "kernel_inv k" and r: "0 \<le> r" and st: "fs_ok (fsys k)" "fs_cursor (fsys k) = (\<lambda>_. None)"
    and n: "fs_content (fsys k) n = Some []" and pos: "pos \<le> length content" "pos \<le> 1024"
  shows "\<exists>k'. edit_write n content pos r k = Inr k' \<and> kernel_inv k' \<and> heap_state k' = heap_state k
    \<and> fs_content (fsys k') = (fs_content (fsys k))(n \<mapsto> take pos content)"
proof -
  obtain h s1 s2 s3 where f: "fs_open_file (Some n) (fsys k) = (Some h, s1)"
      "fs_write_file (Some h) (Some content) (of_nat pos) s1 = Inr (int pos, s2)"
      "fs_close_file (Some h) s2 = Inr s3" "files_idle s3"
      "fs_content s3 = (fs_content (fsys k))(n \<mapsto> take pos content)"
    using fill_from_array [OF st n pos] by blast
  let ?g = "\<lambda>s. quoted (''File '' @ [CHR 0x27]) n ([CHR 0x27] @ '' saved successfully!'')
      (screen_set_color 10 0 (screen_println [] s))"
  have "edit_write n content pos r k = Inr (on_scr ?g (k\<lparr>fsys := s3\<rparr>))"
    using r f(1-3) by (simp add: edit_write_def)
  moreover have "kernel_inv (on_scr ?g (k\<lparr>fsys := s3\<rparr>))"
    using f(4) by (intro kernel_inv_on_scr kernel_inv_parts(1) [OF k]) (simp_all add: inv_intros)
  ultimately show ?thesis using f(5) by simp
qed

lemma edit_save_effect:
  assumes inv: "kernel_inv k" and n: "c_string n" and pos: "pos \<le> length content" "pos \<le> 1024"
  shows "(edit_save n content pos k = Inl Out_Of_Bounds \<and> 16 \<le> length n
      \<and> fs_ok (fsys k) \<and> 0 < fs_free (fsys k))
    \<or> (\<exists>k'. edit_save n content pos k = Inr k' \<and> kernel_inv k' \<and> heap_state k' = heap_state k
        \<and> fs_content (fsys k') =
          (if fs_content (fsys k) n \<noteq> None \<or> fs (fsys k) \<noteq> None \<and> 0 < fs_free (fsys k)
           then (fs_content (fsys k))(n \<mapsto> take pos content) else fs_content (fsys k)))"
proof -
  have idle: "files_idle (fsys k)" using inv by (simp add: kernel_inv_def)
  have saved: "\<exists>k'. edit_write n content pos r (k\<lparr>fsys := st\<rparr>) = Inr k' \<and> kernel_inv k'
      \<and> heap_state k' = heap_state k \<and> fs_content (fsys k') = (fs_content (fsys k))(n \<mapsto> take pos content)"
    if st: "0 \<le> r" "fs_ok st" "fs_cursor st = (\<lambda>_. None)" "fs_content st = (fs_content (fsys k))(n \<mapsto> [])"
    for r st
    using edit_write_effect [of "k\<lparr>fsys := st\<rparr>" r n pos content] st pos
      kernel_inv_parts(1) [OF inv files_idle_ok [OF st(2,3)]] by auto
  show ?thesis
  proof (rule create_cases [OF idle n, where type = FILE_TYPE_REGULAR and t = "tmr k"],
      goal_cases fault failed exists created)
    case fault
    then show ?thesis by (simp add: edit_save_def)
  next
    case (failed r)
    have "k\<lparr>fsys := fsys k\<rparr> = k" by simp
    then have "edit_save n content pos k = Inr k"
      using failed by (simp add: edit_save_def edit_write_def)
    then show ?thesis using inv failed(4,5) by auto
  next
    case (exists b)
    note ok = content_valid [OF idle exists(2)]
    obtain s1 where 1: "fs_delete_file (Some n) (fsys k) = (0, s1)" "fs_ok s1" "0 < fs_free s1"
        "fs_cursor s1 = (\<lambda>_. None)" "fs_content s1 = (fs_content (fsys k))(n := None)"
      using fstore.delete_old [OF ok(2,3) exists(2)] by auto
    obtain r st where 2: "fs_create_file (Some n) FILE_TYPE_REGULAR (tmr k) s1 = Inr (r, st)" "0 \<le> r"
        "fs_ok st" "fs_cursor st = (\<lambda>_. None)" "fs_content st = (fs_content s1)(n \<mapsto> [])"
      using fstore.create_new [OF 1(2,4,3) ok(1), of FILE_TYPE_REGULAR "tmr k"] 1(5) by auto
    have "edit_save n content pos k = edit_write n content pos r (k\<lparr>fsys := st\<rparr>)"
      using exists(1) 1(1) 2(1) by (simp add: edit_save_def)
    then show ?thesis using saved [OF 2(2-4)] 1(5) 2(5) exists(2) by auto
  next
    case (created r st')
    have "edit_save n content pos k = edit_write n content pos r (k\<lparr>fsys := st'\<rparr>)"
      using created(1,2) by (simp add: edit_save_def)
    then show ?thesis using saved [OF created(2-5)] created(7,8) by auto
  qed
qed

text \<open>The loop keeps the array, its position and everything but screen and keyboard.\<close>

lemma edit_key_ok:
  assumes "length content = 512" and "pos < 511" and "screen_inv s"
  shows "\<exists>c p s'. edit_key key content pos s = Inr (c, p, s') \<and> length c = 512 \<and> p \<le> 511
    \<and> screen_inv s' \<and> port_in s' = port_in s
    \<and> (0 \<notin> set (take pos content) \<longrightarrow> 0 \<notin> set (take p c))"
proof -
  have "take (Suc pos) (content[pos := x]) = take pos content @ [x]" for x
    using assms by (simp add: take_Suc_conv_app_nth)
  moreover have "set (take (pos - Suc 0) content) \<subseteq> set (take pos content)"
    by (intro set_take_subset_set_take) simp
  ultimately show ?thesis
    using assms by (auto simp: edit_key_def store_char_def simp del: screen_print.simps intro: inv_intros)
qed

definition edit_kept :: "kernel \<Rightarrow> fault + (cchar list \<times> nat \<times> kernel) \<Rightarrow> bool" where
  "edit_kept k r \<longleftrightarrow> (\<exists>content pos k'. r = Inr (content, pos, k') \<and> length content = 512 \<and> pos \<le> 511
     \<and> 0 \<notin> set (take pos content) \<and> screen_inv (scr k') \<and> heap_state k' = heap_state k \<and> fsys k' = fsys k \<and> tmr k' = tmr k)"

lemma getchar_scr:
  assumes "machine_getchar m = Some (key, m')" and "screen_inv (scr m)"
  shows "screen_inv (scr m')" and "tmr m' = tmr m" and "machine.more m' = machine.more m"
proof -
  obtain kb s where g: "keyboard_getchar (kbd m) (scr m) = Some (key, kb, s)" "m' = m\<lparr>kbd := kb, scr := s\<rparr>"
    using assms(1) by (auto simp: machine_getchar_def split: option.splits)
  then show "screen_inv (scr m')" "tmr m' = tmr m" "machine.more m' = machine.more m"
    using screen_inv_frame [OF getchar_frame [OF g(1)] assms(2)] by simp_all
qed

lemma getchar_kernel:
  assumes "machine_getchar k = Some (key, k')"
  shows "heap_state k' = heap_state k" "fsys k' = fsys k" "stack_bytes k' = stack_bytes k"
  using assms by (auto simp: machine_getchar_def split: option.splits)

lemma edit_loop_kept:
  assumes "edit_loop content pos k = Some r" and "length content = 512" and "pos \<le> 511" and "screen_inv (scr k)"
    and "0 \<notin> set (take pos content)"
  shows "edit_kept k r"
proof -
  let ?P = "\<lambda>content pos k r. length content = 512 \<longrightarrow> pos \<le> 511 \<longrightarrow> screen_inv (scr k)
    \<longrightarrow> 0 \<notin> set (take pos content) \<longrightarrow> edit_kept k r"
  have "?P content pos k r"
  proof (rule edit_loop.raw_induct [where P = ?P, OF _ assms(1)], intro impI)
    fix loop content pos k r
    assume IH: "\<And>content pos k r. loop content pos k = Some r \<Longrightarrow> ?P content pos k r"
      and body: "(if pos < 512 - 1 then
        (case machine_getchar k of None \<Rightarrow> None
         | Some (key, m) \<Rightarrow> if key = 27 then Some (Inr (content, pos, m))
             else (case edit_key key content pos (scr m) of Inl e \<Rightarrow> Some (Inl e)
                   | Inr (content, pos, s) \<Rightarrow> loop content pos (m\<lparr>scr := s\<rparr>)))
        else Some (Inr (content, pos, k))) = Some r"
      and len: "length content = 512" and pos: "pos \<le> 511" and inv: "screen_inv (scr k)"
      and clean: "0 \<notin> set (take pos content)"
    show "edit_kept k r"
    proof (cases "pos < 511")
      case False
      then show ?thesis using body len pos inv clean by (auto simp: edit_kept_def)
    next
      case True
      obtain key m where m: "machine_getchar k = Some (key, m)" using body True by (auto split: option.splits)
      note ms = getchar_scr [OF m inv] getchar_kernel [OF m]
      show ?thesis
      proof (cases "key = 27")
        case esc: True
        then show ?thesis using body True m ms len pos clean by (auto simp: edit_kept_def)
      next
        case False
        obtain c p s where e: "edit_key key content pos (scr m) = Inr (c, p, s)" "length c = 512" "p \<le> 511"
            "screen_inv s" "0 \<notin> set (take p c)"
          using edit_key_ok [OF len True ms(1), of key] clean by auto
        have "loop c p (m\<lparr>scr := s\<rparr>) = Some r" using body True m False e(1) by simp
        then have "edit_kept (m\<lparr>scr := s\<rparr>) r" using IH e by auto
        then show ?thesis using ms by (simp add: edit_kept_def)
      qed
    qed
  qed
  then show ?thesis using assms(2-5) by blast
qed

text \<open>The editor after its heading: the loop, and then saving.\<close>

definition edit_heading :: "cchar list \<Rightarrow> screen \<Rightarrow> screen" where
  "edit_heading n s = screen_println (cstr ''---'')
     (screen_println (cstr ''Type your text (press ESC when done):'') (screen_set_color 15 0
       (screen_println n (screen_print (cstr ''Simple Text Editor for: '') (screen_set_color 11 0 s)))))"

lemma edit_heading_frame [simp, inv_intros]:
  "screen_inv s \<Longrightarrow> screen_inv (edit_heading n s)" "port_in (edit_heading n s) = port_in s"
  by (simp_all add: edit_heading_def inv_intros)

lemma shell_edit_run:
  "\<not> parts < 2 \<Longrightarrow> shell_edit parts n k =
     (case edit_loop (replicate 512 0) 0 (on_scr (edit_heading n) k) of
        None \<Rightarrow> None
      | Some (Inl e) \<Rightarrow> Some (Inl e)
      | Some (Inr (content, pos, k)) \<Rightarrow> Some (edit_save n content pos k))"
  by (simp add: shell_edit_def edit_heading_def [abs_def] Let_def)

lemma edit_loop_result:
  assumes "kernel_inv k" and "edit_loop (replicate 512 0) 0 (on_scr (edit_heading n) k) = Some r"
  obtains content pos k' where "r = Inr (content, pos, k')" "length content = 512" "pos \<le> 511"
    "0 \<notin> set (take pos content)" "kernel_inv k'" "heap_state k' = heap_state k" "fsys k' = fsys k"
proof -
  have "screen_inv (scr (on_scr (edit_heading n) k))" using assms(1) by (simp add: kernel_inv_def)
  then have "edit_kept (on_scr (edit_heading n) k) r" using edit_loop_kept [OF assms(2)] by simp
  then show thesis using that assms(1) by (auto simp: edit_kept_def kernel_inv_def)
qed

end
