(* ===== verification/Shell_Theorems.thy ===== *)
theory Shell_Theorems imports Shell_Effects begin

text \<open>
  The properties of the shell: the dispatch keeps the kernel invariant and faults only on long
  words, the line array is never overrun, and what the editor saves is what was typed.
\<close>

section \<open>The dispatch\<close>

lemma cstr_clean: "list_all (\<lambda>c. of_char c \<noteq> (0 :: cchar)) s \<Longrightarrow> 0 \<notin> set (cstr s)"
  by (induction s) (auto simp: cstr_def)

lemma strcmp_name:
  "c_string c \<Longrightarrow> list_all (\<lambda>c. of_char c \<noteq> (0 :: cchar)) s \<Longrightarrow> strcmp c (cstr s) = 0 \<longleftrightarrow> c = cstr s"
  by (rule strcmp_eq) (simp_all add: cstr_clean c_string_def)

text \<open>What a command may do: fail to return, run out of an array, or keep the invariant.\<close>

definition long_name :: "cchar list \<Rightarrow> cchar list \<Rightarrow> kernel \<Rightarrow> bool" where
  "long_name c arg k \<longleftrightarrow> (c = cstr ''create'' \<or> c = cstr ''edit'') \<and> 16 \<le> length arg
     \<and> fs_ok (fsys k) \<and> 0 < fs_free (fsys k)"

definition command_safe :: "cchar list \<Rightarrow> cchar list \<Rightarrow> kernel \<Rightarrow> (fault + kernel) option \<Rightarrow> bool" where
  "command_safe c arg k r \<longleftrightarrow>
     (case r of
        None \<Rightarrow> c = cstr ''sleep'' \<or> c = cstr ''edit''
      | Some (Inl e) \<Rightarrow> e = Out_Of_Bounds \<and> long_name c arg k
      | Some (Inr k') \<Rightarrow> kernel_inv k')"

lemma command_safe_if:
  "(b \<Longrightarrow> command_safe c arg k x) \<Longrightarrow> (\<not> b \<Longrightarrow> command_safe c arg k y) \<Longrightarrow>
     command_safe c arg k (if b then x else y)"
  by simp

lemma command_safe_scr:
  "kernel_inv k \<Longrightarrow> (screen_inv (scr k) \<Longrightarrow> screen_inv (f (scr k))) \<Longrightarrow> command_safe c arg k (done_scr f k)"
  by (simp add: command_safe_def done_scr_def kernel_inv_on_scr)

lemma shell_edit_safe:
  assumes inv: "kernel_inv k" and n: "c_string n"
  shows "case shell_edit parts n k of
      None \<Rightarrow> True
    | Some (Inl e) \<Rightarrow> e = Out_Of_Bounds \<and> 16 \<le> length n \<and> fs_ok (fsys k) \<and> 0 < fs_free (fsys k)
    | Some (Inr k') \<Rightarrow> kernel_inv k'"
proof (cases "parts < 2")
  case True
  then show ?thesis using inv by (simp add: shell_edit_def inv_intros)
next
  case False
  show ?thesis
  proof (cases "edit_loop (replicate 512 0) 0 (on_scr (edit_heading n) k)")
    case None
    then show ?thesis using False by (simp add: shell_edit_run)
  next
    case (Some r)
    obtain content pos k' where r: "r = Inr (content, pos, k')" "length content = 512" "pos \<le> 511"
        "kernel_inv k'" "fsys k' = fsys k"
      using edit_loop_result [OF inv Some] .
    then show ?thesis
      using edit_save_effect [of k' n pos content] n False Some by (auto simp: shell_edit_run)
  qed
qed

lemma run_command_safe:
  assumes inv: "kernel_inv k" and c: "c_string c" and n: "c_string n"
  shows "command_safe c n k (run_command parts c n k)"
  unfolding run_command_def Let_def
proof (intro command_safe_if)
  assume c: "strcmp c (cstr ''memtest'') = 0"
  show "command_safe c n k (map_option Inr (shell_memtest k))"
    using memtest_effect [OF inv] by (auto simp: command_safe_def)
next
  assume "strcmp c (cstr ''sleep'') = 0"
  then have "c = cstr ''sleep''" using strcmp_name [OF assms(2), of "''sleep''"] by simp
  then show "command_safe c n k (map_option Inr (shell_sleep k))"
    using kernel_inv_sleep [OF inv] by (auto simp: command_safe_def split: option.split)
next
  show "command_safe c n k (Some (shell_cat parts n k))"
    using shell_cat_effect [OF inv n, of parts] by (auto simp: command_safe_def)
next
  assume "strcmp c (cstr ''create'') = 0"
  then have "c = cstr ''create''" using strcmp_name [OF assms(2), of "''create''"] by simp
  then show "command_safe c n k (Some (shell_create parts n k))"
    using shell_create_effect [OF inv n, of parts] by (auto simp: command_safe_def long_name_def)
next
  show "command_safe c n k (Some (Inr (shell_delete parts n k)))"
    using shell_delete_effect [OF inv n, of parts] by (simp add: command_safe_def)
next
  assume "strcmp c (cstr ''edit'') = 0"
  then have "c = cstr ''edit''" using strcmp_name [OF assms(2), of "''edit''"] by simp
  then show "command_safe c n k (shell_edit parts n k)"
    using shell_edit_safe [OF inv n, of parts]
    by (auto simp: command_safe_def long_name_def split: option.splits sum.splits)
next
  show "command_safe c n k (Some (Inr k))" using inv by (simp add: command_safe_def)
qed (simp_all add: command_safe_scr [OF inv] inv_intros)

lemma argument_clean: "0 \<notin> set line \<Longrightarrow> c_string (command_of line) \<and> c_string (argument_of line)"
  unfolding c_string_def command_of_def argument_of_def
  by (meson set_dropWhileD set_takeWhileD)

text \<open>The same, as a property of a line and a result.\<close>

definition line_safe :: "cchar list \<Rightarrow> kernel \<Rightarrow> (fault + kernel) option \<Rightarrow> bool" where
  "line_safe line k r \<longleftrightarrow>
     (case r of
        None \<Rightarrow> command_of line = cstr ''sleep'' \<or> command_of line = cstr ''edit''
      | Some (Inl e) \<Rightarrow> e = Out_Of_Bounds \<and>
          (64 \<le> length (command_of line) \<or> 64 \<le> length (argument_of line)
           \<or> (command_of line = cstr ''create'' \<or> command_of line = cstr ''edit'')
             \<and> 16 \<le> length (argument_of line) \<and> 0 < fs_free (fsys k))
      | Some (Inr k') \<Rightarrow> kernel_inv k')"

lemma line_safe_command:
  assumes "command_safe (command_of line) (argument_of line) k r"
  shows "line_safe line k r"
proof (cases r)
  case (Some x)
  then show ?thesis
    using assms by (cases x) (simp_all add: command_safe_def long_name_def line_safe_def)
qed (use assms in \<open>simp add: command_safe_def line_safe_def\<close>)

lemma execute_safe:
  assumes "kernel_inv k" and "0 \<notin> set line"
  shows "line_safe line k (shell_execute_command line k)"
proof (cases "length (command_of line) < 64 \<and> length (argument_of line) < 64")
  case True
  then have run: "shell_execute_command line k
      = run_command (if argument_of line = [] then 1 else 2) (command_of line) (argument_of line) k"
    by (simp add: shell_execute_command_def parse_command_split)
  show ?thesis
    unfolding run using argument_clean [OF assms(2)]
    by (intro line_safe_command run_command_safe assms(1)) simp_all
next
  case False
  have "parse_command line = Inl Out_Of_Bounds" by (simp only: parse_command_split False if_False)
  then have "shell_execute_command line k = Some (Inl Out_Of_Bounds)"
    by (simp add: shell_execute_command_def)
  then show ?thesis using False by (auto simp: line_safe_def)
qed

text \<open>C12: Executing any line, from a state with the cursor in the window, a well-formed heap and
  a well-formed file system without open handles, leads to such a state again. It fails to
  return only for \<open>sleep\<close> and \<open>edit\<close>, which wait for the hardware, and it leaves an array
  only if command or argument has 64 characters or more, or if \<open>create\<close> or \<open>edit\<close> is given a
  name of 16 characters or more while there is a free slot.\<close>

theorem execute_command_safe:
  assumes "kernel_inv k" and "0 \<notin> set line"
  shows "case shell_execute_command line k of
      None \<Rightarrow> command_of line = cstr ''sleep'' \<or> command_of line = cstr ''edit''
    | Some (Inl e) \<Rightarrow> e = Out_Of_Bounds \<and>
        (64 \<le> length (command_of line) \<or> 64 \<le> length (argument_of line)
         \<or> (command_of line = cstr ''create'' \<or> command_of line = cstr ''edit'')
           \<and> 16 \<le> length (argument_of line) \<and> 0 < fs_free (fsys k))
    | Some (Inr k') \<Rightarrow> kernel_inv k'"
  using execute_safe [OF assms] by (simp only: line_safe_def)

text \<open>A kernel state with an empty file system and keys waiting at the keyboard.\<close>

definition test_kernel :: "u8 list \<Rightarrow> kernel" where
  "test_kernel codes =
     \<lparr>scr = feed (sconst 1) (codes @- sconst 0) (screen_start (\<lambda>_. 0) (\<lambda>_. sconst 0)),
      kbd = keyboard_start, tmr = timer_start, gates = idt_start, interrupt_flag = False,
      irqs = sconst [Irq_Timer], heap_state = boot_heap, fsys = fresh_fs, stack_bytes = \<lambda>_. 7\<rparr>"

lemma test_kernel_inv: "kernel_inv (test_kernel codes)"
  using files_idle_ok [OF fresh_fs_facts(1,2)] boot_heap_inv
  by (simp add: kernel_inv_def test_kernel_def feed_def inv_intros)

lemma test_kernel_files:
  "fs_content (fsys (test_kernel codes)) n = None" "0 < fs_free (fsys (test_kernel codes))"
  "fs (fsys (test_kernel codes)) \<noteq> None"
  using fresh_fs_facts by (simp_all add: test_kernel_def) (auto simp: fs_ok_def)

theorem execute_command_safe_witness:
  "\<exists>k'. shell_execute_command (cstr ''cat readme.txt'') (test_kernel []) = Some (Inr k') \<and> kernel_inv k'"
proof -
  let ?line = "cstr ''cat readme.txt''"
  have c: "command_of ?line = cstr ''cat''" "argument_of ?line = cstr ''readme.txt''"
    by (simp_all add: command_of_def argument_of_def cstr_def)
  have "0 \<notin> set ?line" by (simp add: cstr_def)
  note safe = execute_command_safe [OF test_kernel_inv [of "[]"] this, unfolded c]
  define r where "r = shell_execute_command ?line (test_kernel [])"
  show ?thesis
  proof (cases r)
    case None
    then show ?thesis using safe by (simp add: r_def cstr_def)
  next
    case (Some x)
    then show ?thesis using safe by (cases x) (simp_all add: r_def cstr_def)
  qed
qed

section \<open>The line array\<close>

definition typed :: "shell_line \<Rightarrow> cchar list" where
  "typed l = take (buffer_index l) (command_buffer l)"

definition line_ok :: "shell_line \<Rightarrow> bool" where
  "line_ok l \<longleftrightarrow> length (command_buffer l) = 256 \<and> buffer_index l \<le> 255 \<and> 0 \<notin> set (typed l)"

text \<open>Writing the terminator behind the typed text.\<close>

lemma terminate_line:
  assumes "line_ok l"
  obtains buf where "store_char (command_buffer l) (buffer_index l) 0 = Inr buf"
    "string_in buf = typed l" "length buf = 256" "take (buffer_index l) buf = typed l"
    "length (typed l) = buffer_index l"
proof -
  let ?b = "command_buffer l" and ?i = "buffer_index l"
  have i: "?i < length ?b" "?i \<le> 255" "length ?b = 256" and clean: "0 \<notin> set (typed l)"
    using assms by (auto simp: line_ok_def)
  have "?b[?i := 0] = typed l @ 0 # drop (Suc ?i) ?b"
    using i by (simp add: typed_def upd_conv_take_nth_drop)
  then have "string_in (?b[?i := 0]) = typed l" using string_in_append [OF clean] by simp
  moreover have "store_char ?b ?i 0 = Inr (?b[?i := 0])" using i by (simp add: store_char_def)
  moreover have "take ?i (?b[?i := 0]) = typed l" by (simp add: typed_def)
  ultimately show thesis using that i by (simp add: typed_def)
qed

text \<open>The two possible outcomes of a key other than Enter, and those of Enter.\<close>

definition key_safe :: "cchar \<Rightarrow> shell_line \<Rightarrow> kernel \<Rightarrow> (fault + (shell_line \<times> kernel)) option \<Rightarrow> bool" where
  "key_safe key l k r \<longleftrightarrow>
     (case r of
        None \<Rightarrow> key = 10 \<and> line_safe (typed l) k None
      | Some (Inl e) \<Rightarrow> key = 10 \<and> line_safe (typed l) k (Some (Inl e))
      | Some (Inr (l', k')) \<Rightarrow> line_ok l' \<and> kernel_inv k')"

text \<open>
  The typed line as a text: what each key other than Enter does to it. Tab completes it when
  one command starts with it; there is room for 255 characters.
\<close>

definition complete_text :: "cchar list \<Rightarrow> cchar list" where
  "complete_text t = (if t = [] then t else case candidates t of [c] \<Rightarrow> c @ [32] | _ \<Rightarrow> t)"

definition line_one :: "cchar \<Rightarrow> cchar list \<Rightarrow> cchar list" where
  "line_one key t =
     (if key = 8 \<or> key = 0x7F then butlast t else if key = 9 then complete_text t
      else if 32 \<le> sint key \<and> sint key < 127 \<and> length t < 255 then t @ [key] else t)"

lemma complete_text_bounds:
  "length t \<le> 255 \<Longrightarrow> length (complete_text t) \<le> 255"
  "0 \<notin> set t \<Longrightarrow> 0 \<notin> set (complete_text t)"
proof -
  have c: "length c \<le> 7 \<and> 0 \<notin> set c" if "candidates t = [c]" for c
    using that shell_commands_short [of c] filter_is_subset [of "prefix t" shell_commands]
    by (auto simp: candidates_def)
  show "length t \<le> 255 \<Longrightarrow> length (complete_text t) \<le> 255"
    using c by (auto simp: complete_text_def split: list.split)
  show "0 \<notin> set t \<Longrightarrow> 0 \<notin> set (complete_text t)"
    using c by (auto simp: complete_text_def split: list.split)
qed

text \<open>What a key other than Enter does to the line and to the screen's ports.\<close>

definition line_effect :: "cchar list \<Rightarrow> screen \<Rightarrow> shell_line \<Rightarrow> screen \<Rightarrow> bool" where
  "line_effect t s l' s' \<longleftrightarrow>
     line_ok l' \<and> typed l' = t \<and> port_in s' = port_in s \<and> (screen_inv s \<longrightarrow> screen_inv s')"

lemma erase_key_effect:
  assumes "line_ok l"
  shows "\<exists>l' s. erase_key l k = Inr (l', k\<lparr>scr := s\<rparr>) \<and> line_effect (butlast (typed l)) (scr k) l' s"
proof (cases "0 < buffer_index l")
  case True
  let ?b = "command_buffer l" and ?i = "buffer_index l - 1"
  have len: "?i < length ?b" "buffer_index l \<le> length ?b" using assms True by (auto simp: line_ok_def)
  have "erase_key l k = Inr (\<lparr>command_buffer = ?b[?i := 0], buffer_index = ?i\<rparr>,
      k\<lparr>scr := screen_print [8, 32, 8] (scr k)\<rparr>)"
    using True len by (simp add: erase_key_def store_char_def on_scr_def del: screen_print.simps)
  moreover have "take ?i (?b[?i := 0]) = butlast (typed l)"
    using len(2) by (simp add: typed_def butlast_take)
  moreover have "0 \<notin> set (butlast (typed l))" using assms by (auto simp: line_ok_def dest: in_set_butlastD)
  ultimately show ?thesis
    using assms by (fastforce simp: line_effect_def line_ok_def typed_def inv_intros simp del: screen_print.simps)
next
  case False
  then have "typed l = []" by (simp add: typed_def)
  then show ?thesis using assms False
    by (intro exI [of _ l] exI [of _ "scr k"]) (simp add: erase_key_def line_effect_def)
qed

text \<open>Tab on a line, in the three cases of the candidates.\<close>

lemma tab_complete_text:
  assumes buf: "string_in buf = t" "length buf = 256" "take (length t) buf = t" and len: "length t \<le> 255"
  shows "\<exists>buf' n s'. tab_complete buf (length t) s = Inr (buf', n, s')
      \<and> port_in s' = port_in s \<and> (screen_inv s \<longrightarrow> screen_inv s')
      \<and> length buf' = 256 \<and> n \<le> 255 \<and> take n buf' = complete_text t"
proof (cases "t = []")
  case True
  then show ?thesis using buf by (simp add: tab_complete_def complete_text_def)
next
  case False
  have lt: "length t < length buf" "9 \<le> length buf" using buf(2) len by simp_all
  note cases = tab_complete_cases [OF buf(1) False lt, of s]
  consider "candidates t = []" | c where "candidates t = [c]" | c d cs where "candidates t = c # d # cs"
    by (cases "candidates t" rule: remdups_adj.cases) auto
  then show ?thesis
  proof cases
    case 1
    then show ?thesis using cases buf len False by (simp add: complete_text_def)
  next
    case (2 c)
    then obtain buf' where b': "tab_complete buf (length t) s
          = Inr (buf', length c + 1, screen_print (drop (length t) c @ [32]) s)"
        "string_in buf' = c @ [32]" "length buf' = 256"
      using cases buf(2) by auto
    have only: "complete_text t = c @ [32]" using 2 False by (simp add: complete_text_def)
    then have c: "length c \<le> 254" using complete_text_bounds(1) [OF len] by simp
    obtain rest where "buf' = (c @ [32]) @ 0 # rest"
      using string_in_split [OF b'(2)] c b'(3) by auto
    then have "take (length c + 1) buf' = c @ [32]" by simp
    then show ?thesis using b' c only by (auto intro: inv_intros)
  next
    case (3 c d cs)
    let ?list = "\<lambda>ms s. fold (\<lambda>c s. screen_print (cstr ''  '') (screen_print c s)) ms s"
    have i: "screen_inv (?list ms s)" if "screen_inv s" for ms s
      using that by (rule fold_invariant_list) (intro inv_intros)
    have p: "port_in (?list ms s) = port_in s" for ms s
      by (induction ms arbitrary: s) simp_all
    have "complete_text t = t" using 3 False by (simp add: complete_text_def)
    then show ?thesis using cases 3 buf len
      by (simp add: inv_intros i p shell_print_prompt_def Let_def del: fold_simps)
  qed
qed

lemma tab_effect:
  assumes l: "line_ok l"
  shows "\<exists>l' s. shell_key 9 l k = Some (Inr (l', k\<lparr>scr := s\<rparr>)) \<and> line_effect (complete_text (typed l)) (scr k) l' s"
proof -
  obtain buf where b: "store_char (command_buffer l) (buffer_index l) 0 = Inr buf"
      "string_in buf = typed l" "length buf = 256" "take (buffer_index l) buf = typed l"
      "length (typed l) = buffer_index l"
    using terminate_line [OF l] by metis
  have "length (typed l) \<le> 255" using l b(5) by (simp add: line_ok_def)
  then obtain buf' n s where t: "tab_complete buf (buffer_index l) (scr k) = Inr (buf', n, s)"
      "port_in s = port_in (scr k)" "screen_inv (scr k) \<longrightarrow> screen_inv s"
      "length buf' = 256" "n \<le> 255" "take n buf' = complete_text (typed l)"
    using tab_complete_text [of buf "typed l" "scr k"] b by auto
  let ?l = "\<lparr>command_buffer = buf', buffer_index = n\<rparr>"
  have "shell_key 9 l k = Some (Inr (?l, k\<lparr>scr := s\<rparr>))"
    using b(1) t(1) by (simp add: shell_key_def)
  moreover have "0 \<notin> set (complete_text (typed l))"
    using l by (intro complete_text_bounds) (simp add: line_ok_def)
  then have "line_effect (complete_text (typed l)) (scr k) ?l s"
    using t by (simp add: line_effect_def line_ok_def typed_def)
  ultimately show ?thesis by blast
qed

lemma plain_key_effect:
  assumes l: "line_ok l" and "key \<notin> {10, 8, 0x7F, 9}"
  shows "\<exists>l' s. shell_key key l k = Some (Inr (l', k\<lparr>scr := s\<rparr>)) \<and> line_effect (line_one key (typed l)) (scr k) l' s"
proof (cases "key \<noteq> 0 \<and> 32 \<le> sint key \<and> sint key < 127 \<and> buffer_index l < 255")
  case True
  let ?b = "command_buffer l" and ?i = "buffer_index l"
  have i: "?i < length ?b" using l True by (simp add: line_ok_def)
  then have "length (typed l) < 255" using True by (simp add: typed_def)
  then have one: "line_one key (typed l) = typed l @ [key]" using True assms(2) by (simp add: line_one_def)
  have "shell_key key l k = Some (Inr (\<lparr>command_buffer = ?b[?i := key], buffer_index = ?i + 1\<rparr>,
      k\<lparr>scr := screen_print [key] (scr k)\<rparr>))"
    using True assms(2) i by (simp add: shell_key_def store_char_def on_scr_def del: screen_print.simps)
  moreover have "take (?i + 1) (?b[?i := key]) = typed l @ [key]"
    using i by (simp add: typed_def take_Suc_conv_app_nth)
  ultimately show ?thesis using l True one
    by (fastforce simp: line_effect_def line_ok_def typed_def inv_intros simp del: screen_print.simps)
next
  case False
  have "length (typed l) = buffer_index l" using l by (simp add: line_ok_def typed_def)
  then have "line_one key (typed l) = typed l" using False assms(2) by (auto simp: line_one_def)
  moreover have "shell_key key l k = Some (Inr (l, k\<lparr>scr := scr k\<rparr>))"
    using False assms(2) by (auto simp: shell_key_def)
  ultimately show ?thesis using l
    by (intro exI [of _ l] exI [of _ "scr k"]) (simp add: line_effect_def)
qed

lemma key_effect:
  assumes "line_ok l" and "key \<noteq> 10"
  shows "\<exists>l' s. shell_key key l k = Some (Inr (l', k\<lparr>scr := s\<rparr>)) \<and> line_effect (line_one key (typed l)) (scr k) l' s"
proof -
  consider "key = 8 \<or> key = 0x7F" | "key = 9" | "key \<notin> {10, 8, 0x7F, 9}" using assms(2) by blast
  then show ?thesis
  proof cases
    case 1
    then have "shell_key key l k = Some (erase_key l k)" "line_one key (typed l) = butlast (typed l)"
      by (auto simp: shell_key_def line_one_def)
    then show ?thesis using erase_key_effect [OF assms(1), of k] by auto
  next
    case 2
    then show ?thesis using tab_effect [OF assms(1), of k] by (simp add: line_one_def)
  next
    case 3
    then show ?thesis by (rule plain_key_effect [OF assms(1)])
  qed
qed

lemma enter_safe:
  assumes inv: "kernel_inv k" and l: "line_ok l"
  shows "key_safe 10 l k (shell_key 10 l k)"
proof -
  obtain buf where b: "store_char (command_buffer l) (buffer_index l) 0 = Inr buf"
      "string_in buf = typed l" "length buf = 256"
    using terminate_line [OF l] by metis
  let ?k = "on_scr (screen_println []) k"
  have k: "kernel_inv ?k" using inv by (intro inv_intros)
  define r where "r = shell_execute_command (typed l) ?k"
  have safe: "line_safe (typed l) ?k r" unfolding r_def
    by (rule execute_safe [OF k]) (use l in \<open>simp add: line_ok_def\<close>)
  have run: "shell_key 10 l k = (case r of None \<Rightarrow> None | Some (Inl e) \<Rightarrow> Some (Inl e)
      | Some (Inr k) \<Rightarrow> Some (Inr (\<lparr>command_buffer = buf, buffer_index = 0\<rparr>, on_scr shell_print_prompt k)))"
    using b by (simp add: shell_key_def r_def)
  show ?thesis
  proof (cases r)
    case None
    then show ?thesis using safe unfolding run by (simp add: key_safe_def line_safe_def)
  next
    case (Some x)
    show ?thesis
    proof (cases x)
      case (Inl e)
      then show ?thesis using safe Some unfolding run by (simp add: key_safe_def line_safe_def)
    next
      case (Inr k')
      then have "kernel_inv k'" using safe Some by (simp add: line_safe_def)
      then show ?thesis using Some Inr b(3) unfolding run
        by (simp add: key_safe_def line_ok_def typed_def inv_intros)
    qed
  qed
qed

lemma shell_key_safe:
  assumes inv: "kernel_inv k" and l: "line_ok l"
  shows "key_safe key l k (shell_key key l k)"
proof (cases "key = 10")
  case True
  then show ?thesis using enter_safe [OF assms] by simp
next
  case False
  then show ?thesis using key_effect [OF l, of key k] inv
    by (auto simp: key_safe_def line_effect_def kernel_inv_def)
qed

section \<open>Runs of the shell\<close>

inductive_simps shell_step_iff: "shell_step x y"

lemma kernel_inv_getchar:
  assumes "machine_getchar k = Some (key, k')" and "kernel_inv k"
  shows "kernel_inv k'"
  using getchar_scr(1) [OF assms(1)] getchar_kernel [OF assms(1)] assms(2) by (simp add: kernel_inv_def)

lemma shell_step_ok:
  assumes "shell_step (l, k) (l', k')" and "line_ok l" and "kernel_inv k"
  shows "line_ok l' \<and> kernel_inv k'"
proof -
  obtain key k1 where g: "machine_getchar k = Some (key, k1)" "shell_key key l k1 = Some (Inr (l', k'))"
    using assms(1) by (auto simp: shell_step_iff shell_round_def split: option.splits)
  show ?thesis
    using shell_key_safe [OF kernel_inv_getchar [OF g(1) assms(3)] assms(2), of key] g(2)
    by (simp add: key_safe_def)
qed

lemma shell_run_start_ok:
  "kernel_inv k \<Longrightarrow> line_ok (fst (shell_run_start k)) \<and> kernel_inv (snd (shell_run_start k))"
  by (simp add: shell_run_start_def line_ok_def typed_def local_array_def inv_intros)

lemma shell_runs_ok:
  assumes "shell_step\<^sup>*\<^sup>* x y" and "line_ok (fst x)" and "kernel_inv (snd x)"
  shows "line_ok (fst y) \<and> kernel_inv (snd y)"
  using assms
proof (induction rule: rtranclp_induct)
  case (step y z)
  then show ?case using shell_step_ok [of "fst y" "snd y" "fst z" "snd z"] by simp
qed simp

text \<open>C10: In every run of the shell, whatever is typed, the 256-character line array keeps room for
  the terminator and holds no terminator inside the text; the cursor stays in the window, the
  heap and the file system stay well-formed and no file stays open. The next key leaves an
  array only if it is Enter on a line with a word of 64 characters or a new file name of 16;
  it fails to return only for \<open>sleep\<close> and \<open>edit\<close>.\<close>

theorem shell_invariant:
  assumes "kernel_inv k" and "shell_step\<^sup>*\<^sup>* (shell_run_start k) (l, k')"
  shows "length (command_buffer l) = 256 \<and> buffer_index l \<le> 255
    \<and> 0 \<notin> set (take (buffer_index l) (command_buffer l)) \<and> kernel_inv k'
    \<and> (case shell_key key l k' of
         None \<Rightarrow> key = 10 \<and> (command_of (typed l) = cstr ''sleep'' \<or> command_of (typed l) = cstr ''edit'')
       | Some (Inl e) \<Rightarrow> key = 10 \<and>
           (64 \<le> length (command_of (typed l)) \<or> 64 \<le> length (argument_of (typed l))
            \<or> (command_of (typed l) = cstr ''create'' \<or> command_of (typed l) = cstr ''edit'')
              \<and> 16 \<le> length (argument_of (typed l)))
       | Some (Inr _) \<Rightarrow> True)"
proof -
  have ok: "line_ok l \<and> kernel_inv k'"
    using shell_runs_ok [OF assms(2)] shell_run_start_ok [OF assms(1)] by simp
  then have "key_safe key l k' (shell_key key l k')" by (intro shell_key_safe) simp_all
  then show ?thesis using ok
    by (cases "shell_key key l k'"; cases "the (shell_key key l k')")
      (auto simp: key_safe_def line_safe_def line_ok_def typed_def)
qed

theorem shell_invariant_witness:
  "\<exists>l k. shell_run_start (test_kernel []) = (l, k) \<and> kernel_inv k
     \<and> (case shell_key 9 l k of Some (Inr _) \<Rightarrow> True | _ \<Rightarrow> False)"
proof -
  obtain l k where x: "shell_run_start (test_kernel []) = (l, k)" by fastforce
  then have "shell_step\<^sup>*\<^sup>* (shell_run_start (test_kernel [])) (l, k)" by simp
  note inv = shell_invariant [OF test_kernel_inv this, of 9]
  show ?thesis
  proof (cases "shell_key 9 l k")
    case None
    then show ?thesis using inv by simp
  next
    case (Some r)
    then show ?thesis using inv x by (cases r) simp_all
  qed
qed

section \<open>Editing and showing a file\<close>

text \<open>The next \<open>n\<close> keys that the driver will hand out.\<close>

primrec read_keys ::
  "nat \<Rightarrow> keyboard \<Rightarrow> 'p ports_scheme \<Rightarrow> (cchar list \<times> keyboard \<times> 'p ports_scheme) option" where
  "read_keys 0 kb p = Some ([], kb, p)"
| "read_keys (Suc n) kb p =
     (case keyboard_getchar kb p of
        None \<Rightarrow> None
      | Some (key, kb, p) \<Rightarrow>
          (case read_keys n kb p of None \<Rightarrow> None | Some (keys, kb, p) \<Rightarrow> Some (key # keys, kb, p)))"

text \<open>
  The editor as an operation on texts: Enter and printable characters append, Backspace
  removes the last character, other keys do nothing; Escape or a text of 511 characters ends
  it. \<open>None\<close>: the keys do not end it.
\<close>

definition edit_one :: "cchar \<Rightarrow> cchar list \<Rightarrow> cchar list" where
  "edit_one key t =
     (if key = 10 then t @ [10] else if key = 8 then butlast t
      else if 32 \<le> sint key \<and> sint key \<le> 126 then t @ [key] else t)"

fun edit_text :: "cchar list \<Rightarrow> cchar list \<Rightarrow> cchar list option" where
  "edit_text t [] = (if 511 \<le> length t then Some t else None)"
| "edit_text t (key # keys) =
     (if 511 \<le> length t \<or> key = 27 then Some t else edit_text (edit_one key t) keys)"

lemma edit_key_text:
  assumes "length content = 512" and "pos < 511"
  shows "\<exists>c p s'. edit_key key content pos s = Inr (c, p, s') \<and> length c = 512 \<and> p \<le> 511
    \<and> take p c = edit_one key (take pos content) \<and> port_in s' = port_in s"
proof -
  have snoc: "take (Suc pos) (content[pos := x]) = take pos content @ [x]" for x
    using assms by (simp add: take_Suc_conv_app_nth)
  have shorter: "take (pos - Suc 0) content = butlast (take pos content)"
    using assms by (simp add: butlast_take)
  show ?thesis
    using assms snoc shorter
    by (auto simp: edit_key_def edit_one_def store_char_def simp del: screen_print.simps)
qed

lemma edit_loop_text:
  assumes "read_keys n (kbd k) p = Some (keys, kb', p')" and "port_in (scr k) = port_in p"
    and "edit_text (take pos content) keys = Some t" and "length content = 512" and "pos \<le> 511"
  shows "\<exists>c k'. edit_loop content pos k = Some (Inr (c, length t, k')) \<and> take (length t) c = t
    \<and> length c = 512"
  using assms
proof (induction n arbitrary: k p pos content keys)
  case 0
  then have "pos = 511" "t = take pos content" by (auto split: if_splits)
  moreover from this have "edit_loop content pos k = Some (Inr (content, pos, k))"
    by (subst edit_loop.simps) simp
  ultimately show ?case using 0 by simp
next
  case (Suc n)
  have lt: "length (take pos content) = pos" using Suc.prems(4,5) by simp
  obtain key kb1 p1 ks where g: "keyboard_getchar (kbd k) p = Some (key, kb1, p1)" "keys = key # ks"
      "read_keys n kb1 p1 = Some (ks, kb', p')"
    using Suc.prems(1) by (auto split: option.splits)
  have full: ?case if "edit_loop content pos k = Some (Inr (content, pos, k1))" "t = take pos content" for k1
    using that lt Suc.prems(4) by auto
  show ?case
  proof (cases "pos < 511")
    case False
    then have "edit_loop content pos k = Some (Inr (content, pos, k))"
      by (subst edit_loop.simps) simp
    then show ?thesis by (rule full) (use Suc.prems(3) g(2) lt False in \<open>simp split: if_splits\<close>)
  next
    case True
    let ?k1 = "k\<lparr>kbd := kb1, scr := (scr k)\<lparr>port_in := port_in p1\<rparr>\<rparr>"
    have get: "machine_getchar k = Some (key, ?k1)"
      using getchar_other_state [OF g(1) Suc.prems(2)] by (simp add: machine_getchar_def)
    show ?thesis
    proof (cases "key = 27")
      case esc: True
      then have "edit_loop content pos k = Some (Inr (content, pos, ?k1))"
        using True get by (subst edit_loop.simps) simp
      then show ?thesis by (rule full) (use Suc.prems(3) g(2) esc in simp)
    next
      case False
      obtain c q s where e: "edit_key key content pos (scr ?k1) = Inr (c, q, s)" "length c = 512" "q \<le> 511"
          "take q c = edit_one key (take pos content)" "port_in s = port_in (scr ?k1)"
        using edit_key_text [OF Suc.prems(4) True, of key "scr ?k1"] by blast
      have "edit_loop content pos k = edit_loop c q (?k1\<lparr>scr := s\<rparr>)"
        using True get False e(1) by (subst edit_loop.simps) simp
      moreover have "edit_text (take q c) ks = Some t"
        using Suc.prems(3) g(2) False True lt e(4) by simp
      ultimately show ?thesis
        using Suc.IH [of "?k1\<lparr>scr := s\<rparr>" p1 ks q c] g(3) e by simp
    qed
  qed
qed

lemma edit_text_bounds:
  assumes "edit_text t keys = Some u" and "length t \<le> 511" and "0 \<notin> set t"
  shows "length u \<le> 511 \<and> 0 \<notin> set u"
  using assms
proof (induction t keys rule: edit_text.induct)
  case (2 t key keys)
  have "length (edit_one key t) \<le> 511" if "length t < 511"
    using that by (auto simp: edit_one_def)
  moreover have "0 \<notin> set (edit_one key t)"
    using 2(4) by (auto simp: edit_one_def dest: in_set_butlastD)
  ultimately show ?case using 2 by (auto split: if_splits)
qed (simp split: if_splits)

text \<open>A command line of a name and a file name.\<close>

lemma file_command:
  assumes "fs_valid n" and "n \<noteq> []" and "hd n \<noteq> 32"
    and "c \<noteq> []" and "32 \<notin> set c" and "length c < 64"
  shows "shell_execute_command (c @ 32 # n) k = run_command 2 c n k"
proof -
  have "parse_command (replicate 0 32 @ c @ replicate (Suc 0) 32 @ n) = Inr (if n = [] then 1 else 2, c, n)"
    using assms by (intro parse_words) (auto simp: fs_valid_def)
  then show ?thesis using assms(2) by (simp add: shell_execute_command_def)
qed

lemma run_edit_cat:
  "run_command parts (cstr ''edit'') n k = shell_edit parts n k"
  "run_command parts (cstr ''cat'') n k = Some (shell_cat parts n k)"
  by (simp_all add: run_command_def cstr_def)

lemma shell_edit_text:
  assumes inv: "kernel_inv k" and n: "fs_valid n"
    and room: "fs_content (fsys k) n \<noteq> None \<or> fs (fsys k) \<noteq> None \<and> 0 < fs_free (fsys k)"
    and keys: "read_keys m (kbd k) (scr k) = Some (keys, kb, p)" and t: "edit_text [] keys = Some t"
  shows "\<exists>k'. shell_edit 2 n k = Some (Inr k') \<and> kernel_inv k'
    \<and> fs_content (fsys k') = (fs_content (fsys k))(n \<mapsto> t)"
proof -
  have bounds: "length t \<le> 511" using edit_text_bounds [OF t] by simp
  obtain c k1 where loop: "edit_loop (replicate 512 0) 0 (on_scr (edit_heading n) k) = Some (Inr (c, length t, k1))"
      "take (length t) c = t" "length c = 512"
    using edit_loop_text [of m "on_scr (edit_heading n) k" "scr k" keys kb p 0 "replicate 512 0" t] keys t by auto
  then have k1: "kernel_inv k1" "fsys k1 = fsys k"
    by (auto elim: edit_loop_result [OF inv])
  then obtain k' where "edit_save n c (length t) k1 = Inr k'" "kernel_inv k'"
      "fs_content (fsys k') = (fs_content (fsys k))(n \<mapsto> t)"
    using edit_save_effect [of k1 n "length t" c] n room bounds loop(2,3)
    by (auto simp: fs_valid_def)
  then show ?thesis using loop(1) by (simp add: shell_edit_run)
qed

text \<open>C9: What is typed into the editor is what the file holds and what \<open>cat\<close> shows: if the
  keyboard delivers keys that end the editor with contents \<open>t\<close>, then \<open>edit\<close> of a name that
  exists or for which there is a free slot returns with exactly \<open>t\<close> in that file and every
  other file unchanged, and \<open>cat\<close> of it then prints all of \<open>t\<close>.\<close>

theorem edit_then_cat:
  assumes "kernel_inv k" and "fs_valid n" and "n \<noteq> []" and "hd n \<noteq> 32"
    and "fs_content (fsys k) n \<noteq> None \<or> fs (fsys k) \<noteq> None \<and> 0 < fs_free (fsys k)"
    and "read_keys m (kbd k) (scr k) = Some (keys, kb, p)" and "edit_text [] keys = Some t"
  shows "\<exists>k1 k2. shell_execute_command (cstr ''edit'' @ 32 # n) k = Some (Inr k1)
    \<and> fs_content (fsys k1) = (fs_content (fsys k))(n \<mapsto> t)
    \<and> shell_execute_command (cstr ''cat'' @ 32 # n) k1 = Some (Inr k2)
    \<and> fs_content (fsys k2) = fs_content (fsys k1)
    \<and> scr k2 = screen_println (if t = [] then cstr ''File is empty or error reading file.'' else t)
        (screen_set_color 15 0 (quoted ''Content of '' n '':'' (screen_set_color 11 0 (scr k1))))"
proof -
  obtain k1 where k1: "shell_edit 2 n k = Some (Inr k1)" "kernel_inv k1"
      "fs_content (fsys k1) = (fs_content (fsys k))(n \<mapsto> t)"
    using shell_edit_text [OF assms(1,2,5-7)] by blast
  then have "fs_content (fsys k1) n = Some t" by simp
  from shell_cat_found [OF k1(2) order_refl this]
  obtain st where cat: "shell_cat 2 n k1 = Inr (on_scr (cat_view n t) (k1\<lparr>fsys := st\<rparr>))"
      "fs_content st = fs_content (fsys k1)" by blast
  have t: "length t \<le> 511" "0 \<notin> set t" using edit_text_bounds [OF assms(7)] by simp_all
  then have "string_in (take 511 t) = t"
    by (simp add: string_in_def takeWhile_eq_all_conv) metis
  then have view: "cat_view n t s = screen_println (if t = [] then cstr ''File is empty or error reading file.'' else t)
      (screen_set_color 15 0 (quoted ''Content of '' n '':'' (screen_set_color 11 0 s)))" for s
    by (simp add: cat_view_def)
  have "shell_execute_command (cstr ''edit'' @ 32 # n) k = Some (Inr k1)"
    using k1(1) by (subst file_command [OF assms(2-4)]) (simp_all add: run_edit_cat, simp_all add: cstr_def)
  moreover have "shell_execute_command (cstr ''cat'' @ 32 # n) k1 = Some (Inr (on_scr (cat_view n t) (k1\<lparr>fsys := st\<rparr>)))"
    using cat(1) by (subst file_command [OF assms(2-4)]) (simp_all add: run_edit_cat, simp_all add: cstr_def)
  ultimately show ?thesis using k1(3) cat(2)
    by (intro exI [of _ k1] exI [of _ "on_scr (cat_view n t) (k1\<lparr>fsys := st\<rparr>)"]) (simp add: view)
qed

text \<open>Keys that need no modifier, delivered without a pause.\<close>

lemma read_plain_keys:
  assumes "list_all2 (\<lambda>c key. process_scancode c keyboard_start = (key, keyboard_start) \<and> key \<noteq> 0) codes keys"
    and stat: "stat = 1 ## stat"
  shows "read_keys (length codes) keyboard_start (feed stat (codes @- rest) p)
    = Some (keys, keyboard_start, feed stat rest p)"
  using assms(1)
proof (induction rule: list_all2_induct)
  case (Cons c codes key keys)
  have "port_in (feed stat ((c # codes) @- rest) p) 0x64 = 1 ## stat" using stat by (simp add: feed_def)
  then have "keyboard_getchar keyboard_start (feed stat ((c # codes) @- rest) p)
      = Some (key, keyboard_start, feed stat (codes @- rest) p)"
    using getchar_ready [of keyboard_start "feed stat ((c # codes) @- rest) p" 1 stat c
        "codes @- rest" key keyboard_start] Cons(1)
    by (simp add: keyboard_start_def ready_def)
  then show ?case using Cons(3) by simp
qed simp

lemma always_ready: "sconst (1 :: u8) = 1 ## sconst 1"
  by (rule siterate.ctr [where f = id, simplified])

text \<open>The scancodes of some keys.\<close>

lemma plain_codes:
  "process_scancode 0x23 keyboard_start = (104, keyboard_start)"
  "process_scancode 0x17 keyboard_start = (105, keyboard_start)"
  "process_scancode 0x01 keyboard_start = (27, keyboard_start)"
  "process_scancode 0x14 keyboard_start = (116, keyboard_start)"
  "process_scancode 0x2C keyboard_start = (122, keyboard_start)"
  "process_scancode 0x0E keyboard_start = (8, keyboard_start)"
  "process_scancode 0x0F keyboard_start = (9, keyboard_start)"
  "process_scancode 0x1C keyboard_start = (10, keyboard_start)"
  by (simp_all add: process_scancode_def keyboard_start_def special_key_def keyboard_map_def Let_def)

lemma test_kernel_keys:
  assumes "list_all2 (\<lambda>c key. process_scancode c keyboard_start = (key, keyboard_start) \<and> key \<noteq> 0) codes keys"
    and "length codes = n"
  shows "\<exists>p. read_keys n (kbd (test_kernel codes)) (scr (test_kernel codes)) = Some (keys, keyboard_start, p)"
proof -
  have "kbd (test_kernel codes) = keyboard_start" by (simp add: test_kernel_def)
  moreover have "scr (test_kernel codes)
      = feed (sconst 1) (codes @- sconst 0) (screen_start (\<lambda>_. 0) (\<lambda>_. sconst 0))"
    by (simp add: test_kernel_def)
  ultimately show ?thesis
    using read_plain_keys [OF assms(1) always_ready] unfolding assms(2) by metis
qed

lemma typed_hi:
  "\<exists>p. read_keys 3 (kbd (test_kernel [0x23, 0x17, 0x01])) (scr (test_kernel [0x23, 0x17, 0x01]))
     = Some ([104, 105, 27], keyboard_start, p)"
  by (rule test_kernel_keys) (simp_all add: plain_codes)

theorem edit_then_cat_witness:
  "\<exists>k1 k2. shell_execute_command (cstr ''edit'' @ 32 # cstr ''a'') (test_kernel [0x23, 0x17, 0x01]) = Some (Inr k1)
     \<and> fs_content (fsys k1) (cstr ''a'') = Some (cstr ''hi'')
     \<and> shell_execute_command (cstr ''cat'' @ 32 # cstr ''a'') k1 = Some (Inr k2)"
proof -
  let ?k = "test_kernel [0x23, 0x17, 0x01]"
  obtain p where keys: "read_keys 3 (kbd ?k) (scr ?k) = Some ([104, 105, 27], keyboard_start, p)"
    using typed_hi by blast
  have n: "fs_valid (cstr ''a'')" "cstr ''a'' \<noteq> []" "hd (cstr ''a'') \<noteq> 32"
    by (simp_all add: fs_valid_def c_string_def cstr_def)
  have txt_hi: "edit_text [] [104, 105, 27] = Some (cstr ''hi'')" by (simp add: edit_one_def cstr_def)
  have room: "fs_content (fsys ?k) (cstr ''a'') \<noteq> None \<or> fs (fsys ?k) \<noteq> None \<and> 0 < fs_free (fsys ?k)"
    using test_kernel_files by blast
  from edit_then_cat [OF test_kernel_inv n room keys txt_hi] show ?thesis by auto
qed

section \<open>Commands end to end\<close>

lemma execute_words:
  assumes "c \<noteq> []" and "32 \<notin> set c" and "length c < 64"
  shows "shell_execute_command c k = run_command 1 c [] k"
proof -
  have c: "dropWhile (\<lambda>x. x = 32) c = c" "takeWhile (\<lambda>x. x \<noteq> 32) c = c" "dropWhile (\<lambda>x. x \<noteq> 32) c = []"
    using assms(1,2) by (cases c; auto simp: takeWhile_eq_all_conv dropWhile_eq_Nil_conv)+
  then have "command_of c = c" "argument_of c = []"
    by (simp_all only: command_of_def argument_of_def dropWhile.simps(1))
  then have "parse_command c = Inr (1, c, [])" using assms(3) by (simp add: parse_command_split)
  then show ?thesis by (simp add: shell_execute_command_def)
qed

text \<open>C25: \<open>memtest\<close> always returns and gives back what it takes, even when the heap has no room
  for one of its two blocks: the block list and the counter of used bytes are as before, and
  the files are untouched.\<close>

theorem memtest_restores:
  assumes "kernel_inv k"
  shows "\<exists>k'. shell_execute_command (cstr ''memtest'') k = Some (Inr k') \<and> kernel_inv k'
    \<and> heap_blocks (heap_state k') = heap_blocks (heap_state k)
    \<and> memory_get_used (heap_state k') = memory_get_used (heap_state k) \<and> fsys k' = fsys k"
proof -
  obtain k' where k': "shell_memtest k = Some k'" "kernel_inv k'" "fsys k' = fsys k"
      "heap_live (heap_state k') = heap_live (heap_state k)"
    using memtest_effect [OF assms] by blast
  have "shell_execute_command (cstr ''memtest'') k = run_command 1 (cstr ''memtest'') [] k"
    by (rule execute_words) (simp_all add: cstr_def)
  also have "\<dots> = Some (Inr k')" using k'(1) by (simp add: run_command_def cstr_def)
  finally show ?thesis
    using k' heap_blocks_unique [of "heap_state k'" "heap_state k"] assms
    by (auto simp: kernel_inv_def memory_get_used_def)
qed

theorem memtest_restores_witness:
  "\<exists>k'. shell_execute_command (cstr ''memtest'') (test_kernel []) = Some (Inr k')
     \<and> heap_blocks (heap_state k') = init_blocks"
  using memtest_restores [OF test_kernel_inv [of "[]"]] boot_heap_blocks by (auto simp: test_kernel_def)

text \<open>\<open>create\<close> and \<open>delete\<close> on a name of fewer than 16 characters return and act on that name
  only: \<open>create\<close> stores the default text under a new name if there is a free slot and changes
  no file otherwise; \<open>delete\<close> removes the file, if there is one.\<close>

theorem create_and_delete:
  assumes "kernel_inv k" and "fs_valid n" and "n \<noteq> []" and "hd n \<noteq> 32"
  shows "(\<exists>k'. shell_execute_command (cstr ''create'' @ 32 # n) k = Some (Inr k') \<and> kernel_inv k'
      \<and> fs_content (fsys k') =
        (if fs_content (fsys k) n = None \<and> fs (fsys k) \<noteq> None \<and> 0 < fs_free (fsys k)
         then (fs_content (fsys k))(n \<mapsto> new_file_text) else fs_content (fsys k)))
    \<and> (\<exists>k'. shell_execute_command (cstr ''delete'' @ 32 # n) k = Some (Inr k') \<and> kernel_inv k'
      \<and> fs_content (fsys k') = (fs_content (fsys k))(n := None))"
proof -
  have n: "c_string n" "length n < 16" using assms(2) by (simp_all add: fs_valid_def)
  have "shell_execute_command (cstr ''create'' @ 32 # n) k = run_command 2 (cstr ''create'') n k"
    by (rule file_command [OF assms(2-4)]) (simp_all add: cstr_def)
  also have "\<dots> = Some (shell_create 2 n k)" by (simp add: run_command_def cstr_def)
  finally have create: "shell_execute_command (cstr ''create'' @ 32 # n) k = Some (shell_create 2 n k)" .
  have "shell_execute_command (cstr ''delete'' @ 32 # n) k = run_command 2 (cstr ''delete'') n k"
    by (rule file_command [OF assms(2-4)]) (simp_all add: cstr_def)
  also have "\<dots> = Some (Inr (shell_delete 2 n k))" by (simp add: run_command_def cstr_def)
  finally have delete: "shell_execute_command (cstr ''delete'' @ 32 # n) k = Some (Inr (shell_delete 2 n k))" .
  show ?thesis unfolding create delete
    using shell_create_effect [OF assms(1) n(1), of 2] shell_delete_effect [OF assms(1) n(1), of 2] n(2)
    by auto
qed

theorem create_and_delete_witness:
  "\<exists>k'. shell_execute_command (cstr ''create'' @ 32 # cstr ''a'') (test_kernel []) = Some (Inr k')
     \<and> fs_content (fsys k') (cstr ''a'') = Some new_file_text"
proof -
  have n: "fs_valid (cstr ''a'')" "cstr ''a'' \<noteq> []" "hd (cstr ''a'') \<noteq> 32"
    by (simp_all add: fs_valid_def c_string_def cstr_def)
  show ?thesis
    using create_and_delete [OF test_kernel_inv n, of "[]"] test_kernel_files by auto
qed

text \<open>C28: Typing \<open>create\<close> with a name of 16 to 63 characters overruns the 16-byte name array of
  the new entry whenever there is a free slot: the shell passes on what fits its own array.\<close>

theorem create_long_name:
  assumes "kernel_inv k" and "fs (fsys k) \<noteq> None" and "0 < fs_free (fsys k)"
    and "c_string n" and "hd n \<noteq> 32" and "16 \<le> length n" and "length n < 64"
  shows "shell_execute_command (cstr ''create'' @ 32 # n) k = Some (Inl Out_Of_Bounds)"
proof -
  have idle: "files_idle (fsys k)" using assms(1) by (simp add: kernel_inv_def)
  have new: "fs_content (fsys k) n = None"
    using content_valid(1) [OF idle, of n] assms(6) by (cases "fs_content (fsys k) n") (auto simp: fs_valid_def)
  have "fs_create_file (Some n) FILE_TYPE_REGULAR (tmr k) (fsys k) = Inl Out_Of_Bounds"
  proof (rule create_cases [OF idle assms(4), where type = FILE_TYPE_REGULAR and t = "tmr k"],
      goal_cases fault failed exists created)
    case (created r st')
    then have "fs_valid n" using content_valid(1) [of st' n "[]"] files_idle_ok by auto
    then show ?case using assms(6) by (simp add: fs_valid_def)
  qed (use new assms(2,3) in simp_all)
  then have "shell_create 2 n k = Inl Out_Of_Bounds" by (simp add: shell_create_def)
  moreover have "parse_command (replicate 0 32 @ cstr ''create'' @ replicate (Suc 0) 32 @ n)
      = Inr (if n = [] then 1 else 2, cstr ''create'', n)"
    by (rule parse_words) (use assms(5,7) in \<open>simp_all add: cstr_def\<close>)
  moreover have "run_command 2 (cstr ''create'') n k = Some (shell_create 2 n k)"
    by (simp add: run_command_def cstr_def)
  ultimately show ?thesis using assms(6) by (auto simp: shell_execute_command_def)
qed

theorem create_long_name_witness:
  "shell_execute_command (cstr ''create'' @ 32 # cstr ''a_sixteen_chars_'') (test_kernel []) = Some (Inl Out_Of_Bounds)"
  by (rule create_long_name [OF test_kernel_inv test_kernel_files(3,2)])
    (simp_all add: c_string_def cstr_def)

end
