(* ===== verification/Kernel_Main.thy ===== *)
theory Kernel_Main imports Shell_Theorems begin

text \<open>
  The start of the kernel, src/kernel/kernel.c: the boot logo, \<open>kernel_main\<close> up to the loop
  of the shell, the safe mode and the panic, and what the start establishes.
\<close>

section \<open>Boot logo\<close>

text \<open>
  The logo is UTF-8 text of block and line characters. They are written with one letter each:
  \<open>#\<close> full block, \<open>=\<close> and \<open>I\<close> double lines, \<open>F 7 L J\<close> the corners.
\<close>

definition glyph :: "char \<Rightarrow> cchar list" where
  "glyph c =
     (if c = CHR ''#'' then [0xE2, 0x96, 0x88]
      else if c = CHR ''='' then [0xE2, 0x95, 0x90]
      else if c = CHR ''I'' then [0xE2, 0x95, 0x91]
      else if c = CHR ''F'' then [0xE2, 0x95, 0x94]
      else if c = CHR ''7'' then [0xE2, 0x95, 0x97]
      else if c = CHR ''L'' then [0xE2, 0x95, 0x9A]
      else if c = CHR ''J'' then [0xE2, 0x95, 0x9D]
      else [of_char c])"

definition logo :: "string \<Rightarrow> cchar list" where
  "logo l = concat (map glyph l)"

definition logo_lines :: "string list" where
  "logo_lines =
     [''  ########7######7  #####7 ##7  ##7     ######7 #######7                        '',
      ''  L==##F==J##F==##7##F==##7##I ##FJ    ##F===##7##F====J                        '',
      ''     ##I   ######FJ#######I#####FJ     ##I   ##I#######7                        '',
      ''     ##I   ##F==##7##F==##I##F=##7     ##I   ##IL====##I                        '',
      ''     ##I   ##I  ##I##I  ##I##I  ##7    L######FJ#######I                        '',
      ''     L=J   L=J  L=JL=J  L=JL=J  L=J     L=====J L======J                        '']"

definition display_boot_logo :: "screen \<Rightarrow> screen" where
  "display_boot_logo s =
     (let s = screen_set_color VGA_COLOR_LIGHT_CYAN VGA_COLOR_BLUE s;
          s = screen_println (replicate 80 32) s;
          s = screen_set_color VGA_COLOR_WHITE VGA_COLOR_BLUE s;
          s = fold (\<lambda>l s. screen_println (logo l) s) logo_lines s;
          s = screen_set_color VGA_COLOR_YELLOW VGA_COLOR_BLUE s;
          s = screen_println
                (cstr ''            T R A K Y A   O P E R A T I N G   S Y S T E M                       '') s;
          s = screen_set_color VGA_COLOR_LIGHT_CYAN VGA_COLOR_BLUE s;
          s = screen_println (replicate 80 32) s;
          s = screen_set_color VGA_COLOR_WHITE VGA_COLOR_BLACK s
      in screen_println [] s)"

section \<open>kernel_main\<close>

definition SAFE_MODE :: int where "SAFE_MODE = 1"

definition ok_line :: "string \<Rightarrow> screen \<Rightarrow> screen" where
  "ok_line what s = screen_println (cstr what) (screen_print (cstr ''[ OK ] '') s)"

text \<open>
  \<open>shell_run\<close> never returns; the result is the state in which it enters its loop, from where
  \<open>shell_step\<close> takes over. \<open>None\<close>: the wait for the first key does not end.
\<close>

definition safe_mode_test :: "kernel \<Rightarrow> (shell_line \<times> kernel) option" where
  "safe_mode_test k =
     (let k = on_scr (screen_set_color VGA_COLOR_LIGHT_CYAN VGA_COLOR_BLACK) k;
          k = on_scr (screen_println (cstr ''Running in SAFE MODE with polling keyboard...'')) k;
          k = on_scr (screen_println (cstr ''All features available, but using polling instead of interrupts.'')) k;
          k = on_scr (screen_println []) k;
          k = on_scr (screen_set_color VGA_COLOR_YELLOW VGA_COLOR_BLACK) k;
          k = on_scr (screen_println (cstr ''Testing keyboard... Press any key to continue to shell:'')) k;
          k = on_scr (screen_set_color VGA_COLOR_WHITE VGA_COLOR_BLACK) k
      in case machine_getchar k of
           None \<Rightarrow> None
         | Some (key, k) \<Rightarrow>
             let k = on_scr (screen_println (cstr ''Keyboard works! Starting shell...'')) k;
                 k = on_scr (screen_println []) k;
                 k = on_scr (screen_println (cstr (''Welcome to TRAKOS! Type '' @ [CHR 0x27] @ ''help''
                       @ [CHR 0x27] @ '' for available commands.''))) k
             in Some (shell_run_start k))"

text \<open>The other mode, which enables interrupts.\<close>

definition interactive_mode :: "kernel \<Rightarrow> shell_line \<times> kernel" where
  "interactive_mode k =
     (let k = on_scr (screen_set_color VGA_COLOR_LIGHT_GREEN VGA_COLOR_BLACK) k;
          k = on_scr (screen_println (cstr ''System Status: INTERACTIVE MODE'')) k;
          k = on_scr (screen_println (cstr ''Features: Full interrupt-driven interface'')) k;
          k = on_scr (screen_println []) k;
          k = k\<lparr>interrupt_flag := True\<rparr>;
          k = on_scr (ok_line ''Interrupts Enabled'') k;
          k = on_scr (screen_println []) k;
          k = on_scr (screen_set_color VGA_COLOR_WHITE VGA_COLOR_BLACK) k;
          k = on_scr (screen_println (cstr (''Welcome to TRAKOS! Type '' @ [CHR 0x27] @ ''help''
                @ [CHR 0x27] @ '' for available commands.''))) k
      in shell_run_start k)"

text \<open>
  \<open>table\<close>, \<open>irq0\<close> and \<open>irq1\<close> are the addresses that the linker gives to the descriptor table
  and the two assembly handlers.
\<close>

definition kernel_main ::
  "u32 \<Rightarrow> u32 \<Rightarrow> u32 \<Rightarrow> kernel \<Rightarrow> (fault + (shell_line \<times> kernel)) option" where
  "kernel_main table irq0 irq1 k =
     (let k = on_scr screen_init k;
          k = on_scr screen_clear k;
          k = on_scr display_boot_logo k;
          k = on_scr (screen_set_color VGA_COLOR_LIGHT_GREEN VGA_COLOR_BLACK) k;
          k = on_scr (ok_line ''VGA Display Driver'') k;
          k = on_scr (ok_line ''Screen Functions'') k;
          k = on_scr (ok_line ''Color Support'') k;
          (d, s) = idt_init table irq0 irq1 (gates k) (scr k);
          k = k\<lparr>gates := d, scr := s\<rparr>;
          k = on_scr (ok_line ''Interrupt Descriptor Table'') k
      in case timer_init 100 (tmr k) (scr k) of
           Inl e \<Rightarrow> Some (Inl e)
         | Inr (t, s) \<Rightarrow>
             let k = k\<lparr>tmr := t, scr := s\<rparr>;
                 k = on_scr (ok_line ''Timer Driver (100Hz)'') k;
                 k = k\<lparr>heap_state := memory_init (heap_state k)\<rparr>;
                 k = on_scr (ok_line ''Memory Management (4MB Heap)'') k
             in case fs_init (tmr k) (fsys k) (heap_state k) (scr k) of
                  None \<Rightarrow> None
                | Some (Inl e) \<Rightarrow> Some (Inl e)
                | Some (Inr (st, h, s)) \<Rightarrow>
                    let k = k\<lparr>fsys := st, heap_state := h, scr := s\<rparr>;
                        k = on_scr (ok_line ''File System (In-Memory)'') k;
                        k = on_scr keyboard_init k;
                        k = on_scr (ok_line ''Keyboard Driver (Universal PS/2)'') k;
                        k = on_scr shell_init k;
                        k = on_scr (ok_line ''Shell Interface'') k;
                        k = on_scr (screen_println []) k
                    in if SAFE_MODE \<noteq> 0 then
                         let k = on_scr (screen_set_color VGA_COLOR_YELLOW VGA_COLOR_BLACK) k;
                             k = on_scr (screen_println (cstr ''System Status: SAFE MODE (Polling)'')) k;
                             k = on_scr (screen_println (cstr ''Features: Keyboard polling test'')) k;
                             k = on_scr (screen_println []) k
                         in map_option Inr (safe_mode_test k)
                       else Some (Inr (interactive_mode k)))"

section \<open>Panic\<close>

text \<open>\<open>cli\<close> and the endless \<open>hlt\<close> loop; it has no way out, so the result can only be \<open>None\<close>.\<close>

partial_function (option) halt_loop :: "kernel \<Rightarrow> kernel option" where
  "halt_loop k = (case hlt k of None \<Rightarrow> None | Some k \<Rightarrow> halt_loop k)"

definition panic_screen :: "cchar list \<Rightarrow> screen \<Rightarrow> screen" where
  "panic_screen message s =
     (let s = screen_set_color VGA_COLOR_WHITE VGA_COLOR_RED s;
          s = screen_println [] s;
          s = screen_println (cstr ''KERNEL PANIC!'') s;
          s = screen_print (cstr ''Error: '') s;
          s = screen_println message s
      in screen_println (cstr ''System halted.'') s)"

definition kernel_panic :: "cchar list \<Rightarrow> kernel \<Rightarrow> kernel option" where
  "kernel_panic message k = halt_loop ((on_scr (panic_screen message) k)\<lparr>interrupt_flag := False\<rparr>)"

end
