(* ===== verification/Kernel_Theorems.thy ===== *)
theory Kernel_Theorems imports Kernel_Main begin

text \<open>
  What the start of src/kernel/kernel.c establishes, and what therefore holds in every state
  the system can reach from power-on.
\<close>

section \<open>The start establishes the invariant\<close>

text \<open>
  Power-on: the static variables have their initial values, interrupts are off
  (src/arch/x86/boot.s), everything else is arbitrary.
\<close>

definition power_on ::
  "memory \<Rightarrow> (u16 \<Rightarrow> u16) \<Rightarrow> (u16 \<Rightarrow> u8 stream) \<Rightarrow> irq list stream \<Rightarrow> (nat \<Rightarrow> cchar) \<Rightarrow> kernel" where
  "power_on m video answers is stack =
     \<lparr>scr = screen_start video answers, kbd = keyboard_start, tmr = timer_start, gates = idt_start,
      interrupt_flag = False, irqs = is, heap_state = heap_unset m, fsys = fs_start,
      stack_bytes = stack\<rparr>"

lemma screen_inv_more [inv_intros]:
  "screen_inv s \<Longrightarrow> screen_inv (ok_line w s)"
  "screen_inv s \<Longrightarrow> screen_inv (shell_init s)"
  "screen_inv s \<Longrightarrow> screen_inv (keyboard_init s)"
  by (simp_all add: ok_line_def shell_init_def keyboard_init_def inb_def Let_def inv_intros)

lemma port_in_more [simp]:
  "port_in (ok_line w s) = port_in s" "port_in (shell_init s) = port_in s"
  "port_in (shell_print_prompt s) = port_in s"
  by (simp_all add: ok_line_def shell_init_def shell_print_prompt_def Let_def)

lemma logo_frame:
  "port_in (display_boot_logo s) = port_in s"
  "screen_inv s \<Longrightarrow> screen_inv (display_boot_logo s)"
proof -
  have p: "port_in (fold (\<lambda>l s. screen_println (logo l) s) ls s) = port_in s" for ls s
    by (induction ls arbitrary: s) simp_all
  have i: "screen_inv s \<Longrightarrow> screen_inv (fold (\<lambda>l s. screen_println (logo l) s) ls s)" for ls s
    by (rule fold_invariant_list) (auto intro: inv_intros)
  show "port_in (display_boot_logo s) = port_in s"
    by (simp add: display_boot_logo_def Let_def p)
  show "screen_inv s \<Longrightarrow> screen_inv (display_boot_logo s)"
    unfolding display_boot_logo_def Let_def by (intro i inv_intros) (simp add: inv_intros i)
qed

text \<open>The first allocation on the fresh heap, the file system structure.\<close>

lemma first_allocation:
  "\<exists>h'. kmalloc FS_SIZEOF (memory_init h) = Some (0x400010, h') \<and> heap_inv h'
    \<and> heap_live h' = {(0x400010, 33936)}"
proof -
  have a: "unat (align4 33936) = 33936" by (simp add: align4_unat)
  have "\<exists>h'. kmalloc 33936 (memory_init h) = Some (0x400010, h')
      \<and> heap_rep h' [(33936, False), (4160336, True)]"
    using kmalloc_rep [OF memory_init_rep [of h], of 33936] by (auto simp: a init_blocks_def carve_def)
  then obtain h' where h': "kmalloc 33936 (memory_init h) = Some (0x400010, h')"
      "heap_rep h' [(33936, False), (4160336, True)]" by blast
  have "heap_live h' = {(0x400010, 33936)}" by (simp add: heap_live_rep [OF h'(2)])
  then show ?thesis using h'(1) heap_rep_inv [OF h'(2)] by blast
qed

lemma outb_fold_frame:
  "port_in (fold (\<lambda>(port, data) p. outb port data p) xs s) = port_in s"
  "screen_inv (fold (\<lambda>(port, data) p. outb port data p) xs s) = screen_inv s"
  by (induction xs arbitrary: s) (simp_all add: case_prod_unfold)

lemma idt_init_frame:
  assumes "idt_init table irq0 irq1 d s = (d', s')"
  shows "port_in s' = port_in s" and "screen_inv s \<Longrightarrow> screen_inv s'"
proof -
  have "s' = fold (\<lambda>(port, data) p. outb port data p) pic_commands s"
    using assms by (simp only: idt_init_def Let_def prod.inject)
  then show "port_in s' = port_in s" "screen_inv s \<Longrightarrow> screen_inv s'"
    by (simp_all only: outb_fold_frame)
qed

lemma timer_init_frame:
  "\<exists>s'. timer_init 100 t s = Inr (t\<lparr>timer_ticks := 0\<rparr>, s')
     \<and> port_in s' = (port_in s)(0x21 := stl (port_in s 0x21)) \<and> (screen_inv s \<longrightarrow> screen_inv s')"
  by (simp add: timer_init_def Let_def inb_def)

lemma keyboard_init_frame:
  "port_in (keyboard_init s) = (port_in s)(0x21 := stl (port_in s 0x21))"
  by (simp add: keyboard_init_def inb_def)

lemma port_in_start [simp]:
  "port_in (screen_init s) = port_in s" "port_in (screen_clear s) = port_in s"
  by (simp_all add: screen_init_def screen_clear_eq)

lemma safe_mode_effect:
  assumes g: "keyboard_getchar (kbd k) p = Some (key, kb, p')" and p: "port_in (scr k) = port_in p"
    and inv: "kernel_inv k"
  shows "\<exists>l k'. safe_mode_test k = Some (l, k') \<and> line_ok l \<and> typed l = [] \<and> kernel_inv k'
    \<and> fsys k' = fsys k \<and> heap_state k' = heap_state k \<and> tmr k' = tmr k \<and> gates k' = gates k
    \<and> interrupt_flag k' = interrupt_flag k"
proof -
  let ?g = "\<lambda>s. screen_set_color 15 0 (screen_println (cstr ''Testing keyboard... Press any key to continue to shell:'')
    (screen_set_color 14 0 (screen_println [] (screen_println (cstr ''All features available, but using polling instead of interrupts.'')
      (screen_println (cstr ''Running in SAFE MODE with polling keyboard...'') (screen_set_color 11 0 s))))))"
  let ?h = "\<lambda>s. screen_println (cstr (''Welcome to TRAKOS! Type '' @ [CHR 0x27] @ ''help''
      @ [CHR 0x27] @ '' for available commands.'')) (screen_println [] (screen_println (cstr ''Keyboard works! Starting shell...'') s))"
  let ?k1 = "(on_scr ?g k)\<lparr>kbd := kb, scr := (?g (scr k))\<lparr>port_in := port_in p'\<rparr>\<rparr>"
  have "keyboard_getchar (kbd k) (?g (scr k)) = Some (key, kb, (?g (scr k))\<lparr>port_in := port_in p'\<rparr>)"
    by (rule getchar_other_state [OF g]) (simp add: p)
  then have get: "machine_getchar (on_scr ?g k) = Some (key, ?k1)"
    by (simp add: machine_getchar_def)
  have run: "safe_mode_test k = Some (shell_run_start (on_scr ?h ?k1))"
    using get by (simp add: safe_mode_test_def)
  have "kernel_inv (on_scr ?g k)" using inv by (simp add: kernel_inv_def inv_intros)
  then have "kernel_inv ?k1" by (rule kernel_inv_getchar [OF get])
  then have "kernel_inv (on_scr ?h ?k1)" by (simp add: kernel_inv_def inv_intros)
  from shell_run_start_ok [OF this] show ?thesis
    unfolding run by (auto simp: shell_run_start_def typed_def)
qed

lemma kernel_boot:
  assumes key: "keyboard_getchar keyboard_start
      \<lparr>port_out = [], port_in = answers(0x21 := stl (stl (answers 0x21)))\<rparr> = Some (key, kb, p')"
  shows "\<exists>l k. kernel_main table irq0 irq1 (power_on m video answers is stack) = Some (Inr (l, k))
    \<and> line_ok l \<and> typed l = [] \<and> kernel_inv k \<and> fs_ok (fsys k) \<and> fs_content (fsys k) = demo_content
    \<and> fs_free (fsys k) = 29 \<and> heap_live (heap_state k) = {(0x400010, 33936)}
    \<and> timer_ticks (tmr k) = 0 \<and> \<not> interrupt_flag k
    \<and> gate_base (idt_entries (gates k) 32) = irq0 \<and> gate_base (idt_entries (gates k) 33) = irq1"
proof -
  let ?k0 = "power_on m video answers is stack"
  define s1 where "s1 = ok_line ''Color Support'' (ok_line ''Screen Functions'' (ok_line ''VGA Display Driver''
    (screen_set_color 10 0 (display_boot_logo (screen_clear (screen_init (scr ?k0)))))))"
  have s1: "screen_inv s1" "port_in s1 = answers"
    by (simp_all add: s1_def power_on_def logo_frame inv_intros screen_start_def)
  obtain d s2 where idt: "idt_init table irq0 irq1 idt_start s1 = (d, s2)" by fastforce
  have gates: "gate_base (idt_entries d 32) = irq0" "gate_base (idt_entries d 33) = irq1"
    using idt_init_effect [of table irq0 irq1 idt_start s1] idt by auto
  define s3 where "s3 = ok_line ''Interrupt Descriptor Table'' s2"
  have s3: "screen_inv s3" "port_in s3 = answers"
    using idt_init_frame [OF idt] s1 by (simp_all add: s3_def inv_intros)
  obtain s4 where tim: "timer_init 100 timer_start s3 = Inr (timer_start\<lparr>timer_ticks := 0\<rparr>, s4)"
      and s4: "port_in s4 = answers(0x21 := stl (answers 0x21))" "screen_inv s4"
    using timer_init_frame [of timer_start s3] s3 by auto
  define s5 where "s5 = ok_line ''Memory Management (4MB Heap)'' (ok_line ''Timer Driver (100Hz)'' s4)"
  obtain h where h: "kmalloc FS_SIZEOF (memory_init (heap_unset m)) = Some (0x400010, h)" "heap_inv h"
      "heap_live h = {(0x400010, 33936)}"
    using first_allocation by blast
  obtain st where st: "fs_init (timer_start\<lparr>timer_ticks := 0\<rparr>) fs_start (memory_init (heap_unset m)) s5 = Some (Inr (st, h, s5))"
      "fs_ok st" "fs_cursor st = (\<lambda>_. None)" "fs_content st = demo_content" "fs_free st = 29"
    using fs_init_reserved [OF h(1), of "timer_start\<lparr>timer_ticks := 0\<rparr>" fs_start s5] by auto
  define s6 where "s6 = screen_println [] (screen_println (cstr ''Features: Keyboard polling test'')
    (screen_println (cstr ''System Status: SAFE MODE (Polling)'') (screen_set_color 14 0 (screen_println []
      (ok_line ''Shell Interface'' (shell_init (ok_line ''Keyboard Driver (Universal PS/2)''
        (keyboard_init (ok_line ''File System (In-Memory)'' s5)))))))))"
  have s6: "screen_inv s6" "port_in s6 = answers(0x21 := stl (stl (answers 0x21)))"
    using s4 by (simp_all add: s6_def s5_def inv_intros keyboard_init_frame)
  define k where "k = \<lparr>scr = s6, kbd = keyboard_start, tmr = timer_start\<lparr>timer_ticks := 0\<rparr>, gates = d,
      interrupt_flag = False, irqs = is, heap_state = h, fsys = st, stack_bytes = stack\<rparr>"
  have "kernel_inv k" using s6(1) h(2) files_idle_ok [OF st(2,3)] by (simp add: k_def kernel_inv_def)
  then obtain l k' where safe: "safe_mode_test k = Some (l, k')" "line_ok l" "typed l = []" "kernel_inv k'"
      "fsys k' = st" "heap_state k' = h" "tmr k' = timer_start\<lparr>timer_ticks := 0\<rparr>" "gates k' = d" "\<not> interrupt_flag k'"
    using safe_mode_effect [of k "\<lparr>port_out = [], port_in = answers(0x21 := stl (stl (answers 0x21)))\<rparr>" key kb p'] key s6(2)
    by (auto simp: k_def)
  have "kernel_main table irq0 irq1 ?k0 = map_option Inr (safe_mode_test k)"
    using idt tim st(1)
    by (simp add: kernel_main_def Let_def on_scr_def s1_def s3_def s5_def s6_def k_def power_on_def SAFE_MODE_def)
  then show ?thesis using safe gates st h(3) by simp
qed

section \<open>Without interrupts the clock stands still\<close>

text \<open>What only the timer interrupt and \<open>kernel_main\<close> change.\<close>

definition clock :: "'m machine_scheme \<Rightarrow> bool \<times> u32" where
  "clock m = (interrupt_flag m, timer_ticks (tmr m))"

lemma clock_simps [simp]:
  "clock (on_scr f m) = clock m" "clock (m\<lparr>scr := s\<rparr>) = clock m" "clock (m\<lparr>kbd := kb\<rparr>) = clock m"
  by (simp_all add: clock_def)

lemma clock_kernel [simp]:
  "clock (k\<lparr>fsys := st\<rparr>) = clock k" "clock (k\<lparr>heap_state := h\<rparr>) = clock k"
  by (simp_all add: clock_def)

lemma clock_getchar: "machine_getchar m = Some (key, m') \<Longrightarrow> clock m' = clock m"
  by (auto simp: machine_getchar_def split: option.splits)

lemma wait_disabled:
  assumes "\<not> interrupt_flag m" and "timer_ticks (tmr m) - start < n"
  shows "timer_wait_loop start n m = None"
  using assms by (subst timer_wait_loop.simps) (simp add: hlt_disabled interrupt_point_simps(4))

lemma sleep_disabled:
  assumes "\<not> interrupt_flag k"
  shows "shell_sleep k = None"
proof -
  let ?k = "on_scr (colored 14 ''Sleeping for 2 seconds...'') k"
  have "timer_wait_loop (timer_ticks (tmr ?k)) 200 ?k = None"
    using assms by (intro wait_disabled) simp_all
  then show ?thesis by (simp add: shell_sleep_def timer_sleep_def timer_wait_def)
qed

lemma clock_memtest: "shell_memtest k = Some k' \<Longrightarrow> clock k' = clock k"
  by (auto simp: shell_memtest_def Let_def split: option.splits prod.splits)

lemma clock_cat: "shell_cat parts n k = Inr k' \<Longrightarrow> clock k' = clock k"
  by (auto simp: shell_cat_def Let_def split: option.splits prod.splits sum.splits if_splits)

lemma clock_create: "shell_create parts n k = Inr k' \<Longrightarrow> clock k' = clock k"
  by (auto simp: shell_create_def Let_def split: option.splits prod.splits sum.splits if_splits)

lemma clock_delete: "clock (shell_delete parts n k) = clock k"
  by (auto simp: shell_delete_def Let_def split: prod.splits)

lemma clock_edit_save: "edit_save n c pos k = Inr k' \<Longrightarrow> clock k' = clock k"
  by (auto simp: edit_save_def edit_write_def Let_def split: option.splits prod.splits sum.splits if_splits)

lemma clock_edit_loop:
  fixes m :: "'m machine_scheme"
  assumes "edit_loop content pos m = Some (Inr (c, q, m'))"
  shows "clock m' = clock m"
proof -
  let ?P = "\<lambda>content pos (m :: 'm machine_scheme) r. \<forall>(c :: cchar list) (q :: nat) (m' :: 'm machine_scheme).
    r = (Inr (c, q, m') :: fault + (cchar list \<times> nat \<times> 'm machine_scheme)) \<longrightarrow> clock m' = clock m"
  have "?P content pos m (Inr (c, q, m'))"
  proof (rule edit_loop.raw_induct [where P = ?P, OF _ assms])
    fix loop content pos r and m :: "'m machine_scheme"
    assume IH: "\<And>content pos m r. loop content pos m = Some r \<Longrightarrow> ?P content pos m r"
      and body: "(if pos < 512 - 1 then
        (case machine_getchar m of None \<Rightarrow> None
         | Some (key, m) \<Rightarrow> if key = 27 then Some (Inr (content, pos, m))
             else (case edit_key key content pos (scr m) of Inl e \<Rightarrow> Some (Inl e)
                   | Inr (content, pos, s) \<Rightarrow> loop content pos (m\<lparr>scr := s\<rparr>)))
        else Some (Inr (content, pos, m))) = Some r"
    show "?P content pos m r"
    proof (cases "pos < 511")
      case True
      then obtain key m1 where m1: "machine_getchar m = Some (key, m1)" using body by (auto split: option.splits)
      note same = clock_getchar [OF m1]
      show ?thesis
      proof (cases "key = 27")
        case False
        show ?thesis
        proof (cases "edit_key key content pos (scr m1)")
          case (Inr x)
          obtain c q s where x: "x = (c, q, s)" by (cases x) auto
          then have "loop c q (m1\<lparr>scr := s\<rparr>) = Some r" using body True m1 False Inr by simp
          from IH [OF this] show ?thesis using same by simp
        qed (use body True m1 False in auto)
      qed (use body True m1 same in auto)
    qed (use body in auto)
  qed
  then show ?thesis by simp
qed

lemma clock_edit: "shell_edit parts n k = Some (Inr k') \<Longrightarrow> clock k' = clock k"
  by (auto simp: shell_edit_def Let_def split: if_splits option.splits sum.splits prod.splits
      dest!: clock_edit_loop clock_edit_save)

definition clock_kept :: "kernel \<Rightarrow> (fault + kernel) option \<Rightarrow> bool" where
  "clock_kept k r \<longleftrightarrow> (\<forall>k'. r = Some (Inr k') \<longrightarrow> clock k' = clock k)"

lemma clock_kept_if:
  "(b \<Longrightarrow> clock_kept k x) \<Longrightarrow> (\<not> b \<Longrightarrow> clock_kept k y) \<Longrightarrow> clock_kept k (if b then x else y)"
  by simp

lemma clock_run_command:
  assumes "\<not> interrupt_flag k"
  shows "clock_kept k (run_command parts c n k)"
  unfolding run_command_def Let_def
proof (intro clock_kept_if)
  show "clock_kept k (map_option Inr (shell_memtest k))"
    using clock_memtest [of k] by (auto simp: clock_kept_def)
next
  show "clock_kept k (map_option Inr (shell_sleep k))"
    using sleep_disabled [OF assms] by (simp add: clock_kept_def)
next
  show "clock_kept k (Some (shell_cat parts n k))" using clock_cat by (auto simp: clock_kept_def)
next
  show "clock_kept k (Some (shell_create parts n k))" using clock_create by (auto simp: clock_kept_def)
next
  show "clock_kept k (Some (Inr (shell_delete parts n k)))" by (simp add: clock_kept_def clock_delete)
next
  show "clock_kept k (shell_edit parts n k)" using clock_edit by (auto simp: clock_kept_def)
qed (simp_all add: clock_kept_def done_scr_def)

lemma clock_shell_key:
  assumes "\<not> interrupt_flag k" and "shell_key key l k = Some (Inr (l', k'))"
  shows "clock k' = clock k"
proof -
  have run: "clock k2 = clock k"
    if "shell_execute_command x (on_scr f k) = Some (Inr k2)" for x f k2
  proof -
    show ?thesis
    proof (cases "parse_command x")
      case (Inr r)
      obtain parts c n where "r = (parts, c, n)" by (cases r) auto
      then show ?thesis
        using that Inr clock_run_command [of "on_scr f k" parts c n] assms(1)
        by (simp add: shell_execute_command_def clock_kept_def)
    qed (use that in \<open>simp add: shell_execute_command_def\<close>)
  qed
  show ?thesis
    using assms(2)
    by (auto simp: shell_key_def erase_key_def simp del: screen_print.simps
        split: if_splits sum.splits option.splits prod.splits dest!: run)
qed

lemma clock_shell_runs:
  assumes "shell_step\<^sup>*\<^sup>* x y" and "\<not> interrupt_flag (snd x)"
  shows "clock (snd y) = clock (snd x)"
  using assms
proof (induction rule: rtranclp_induct)
  case (step y z)
  obtain l k l' k' where yz: "y = (l, k)" "z = (l', k')" by fastforce
  then obtain key k1 where g: "machine_getchar k = Some (key, k1)" "shell_key key l k1 = Some (Inr (l', k'))"
    using step.hyps(2) by (auto simp: shell_step_iff shell_round_def split: option.splits)
  have "clock k = clock (snd x)" using step yz by simp
  then have "\<not> interrupt_flag k1" using clock_getchar [OF g(1)] step.prems by (simp add: clock_def)
  then show ?case using clock_shell_key [OF _ g(2)] clock_getchar [OF g(1)] \<open>clock k = clock (snd x)\<close> yz by simp
qed simp

section \<open>From power-on\<close>

text \<open>C8: From any contents of memory, video memory and stack, as soon as the keyboard delivers a
  first key \<open>kernel_main\<close> starts the shell: the line is empty, the cursor is in the window, the
  heap is well-formed and holds exactly the file system's structure, the files are the three
  demo files with their texts, the two interrupt handlers are installed, the clock is at 0 and
  interrupts are still off.\<close>

theorem boot_establishes:
  assumes "keyboard_getchar keyboard_start
      \<lparr>port_out = [], port_in = answers(0x21 := stl (stl (answers 0x21)))\<rparr> = Some (key, kb, p')"
  shows "\<exists>l k. kernel_main table irq0 irq1 (power_on m video answers is stack) = Some (Inr (l, k))
    \<and> buffer_index l = 0 \<and> length (command_buffer l) = 256 \<and> kernel_inv k
    \<and> fs_content (fsys k) = demo_content \<and> fs_free (fsys k) = 29
    \<and> heap_live (heap_state k) = {(0x400010, 33936)}
    \<and> timer_ticks (tmr k) = 0 \<and> \<not> interrupt_flag k
    \<and> gate_base (idt_entries (gates k) 32) = irq0 \<and> gate_base (idt_entries (gates k) 33) = irq1"
proof -
  obtain l k where "kernel_main table irq0 irq1 (power_on m video answers is stack) = Some (Inr (l, k))"
      "line_ok l" "typed l = []" "kernel_inv k" "fs_content (fsys k) = demo_content" "fs_free (fsys k) = 29"
      "heap_live (heap_state k) = {(0x400010, 33936)}" "timer_ticks (tmr k) = 0" "\<not> interrupt_flag k"
      "gate_base (idt_entries (gates k) 32) = irq0" "gate_base (idt_entries (gates k) 33) = irq1"
    using kernel_boot [OF assms] by blast
  moreover from this have "buffer_index l = 0" "length (command_buffer l) = 256"
    by (auto simp: line_ok_def typed_def)
  ultimately show ?thesis by blast
qed

text \<open>A keyboard with one key pressed, Enter, while the machine starts.\<close>

definition enter_waiting :: "u16 \<Rightarrow> u8 stream" where
  "enter_waiting = (\<lambda>_. sconst 0xFF)(0x64 := 1 ## sconst 0, 0x60 := 0x1C ## sconst 0)"

lemma enter_key:
  "\<exists>p. keyboard_getchar keyboard_start
     \<lparr>port_out = [], port_in = enter_waiting(0x21 := stl (stl (enter_waiting 0x21)))\<rparr> = Some (10, keyboard_start, p)"
proof -
  let ?p = "\<lparr>port_out = [], port_in = enter_waiting(0x21 := stl (stl (enter_waiting 0x21)))\<rparr> :: ports"
  have code: "process_scancode 0x1C keyboard_start = (10, keyboard_start)"
    by (simp add: process_scancode_def keyboard_start_def special_key_def)
  have "keyboard_getchar keyboard_start ?p = Some (10, keyboard_start, feed (sconst 0) (sconst 0) ?p)"
    by (rule getchar_ready [OF _ _ _ _ code, of _ 1])
      (simp_all add: keyboard_start_def ready_def enter_waiting_def)
  then show ?thesis by blast
qed

theorem boot_establishes_witness:
  "\<exists>l k. kernel_main 0x5000 0x1000 0x2000
      (power_on (\<lambda>_. 0xAA) (\<lambda>_. 0) enter_waiting (sconst [Irq_Timer]) (\<lambda>_. 7)) = Some (Inr (l, k))
     \<and> kernel_inv k \<and> fs_content (fsys k) (cstr ''readme.txt'') = Some readme_text"
proof -
  obtain p where "keyboard_getchar keyboard_start
      \<lparr>port_out = [], port_in = enter_waiting(0x21 := stl (stl (enter_waiting 0x21)))\<rparr> = Some (10, keyboard_start, p)"
    using enter_key by blast
  from boot_establishes [OF this, of "0x5000" "0x1000" "0x2000" "\<lambda>_. 0xAA" "\<lambda>_. 0" "sconst [Irq_Timer]" "\<lambda>_. 7"]
  show ?thesis by (auto simp: demo_content_def cstr_def)
qed

text \<open>C7: In every state that the system reaches from power-on by running the shell, whatever is
  typed, the invariant of the kernel holds and the line array is within bounds; interrupts are
  off and the tick counter is 0, so that \<open>time\<close> and \<open>uptime\<close> report 0 and the command \<open>sleep\<close>
  never returns.\<close>

theorem system_invariant:
  assumes "keyboard_getchar keyboard_start
      \<lparr>port_out = [], port_in = answers(0x21 := stl (stl (answers 0x21)))\<rparr> = Some (key, kb, p')"
    and "kernel_main table irq0 irq1 (power_on m video answers is stack) = Some (Inr x)"
    and "shell_step\<^sup>*\<^sup>* x (l, k)"
  shows "kernel_inv k \<and> length (command_buffer l) = 256 \<and> buffer_index l \<le> 255
    \<and> \<not> interrupt_flag k \<and> timer_get_ticks (tmr k) = 0
    \<and> shell_execute_command (cstr ''sleep'') k = None"
proof -
  have x: "line_ok (fst x)" "kernel_inv (snd x)" "\<not> interrupt_flag (snd x)" "timer_ticks (tmr (snd x)) = 0"
    using kernel_boot [OF assms(1), of table irq0 irq1 m video "is" stack] assms(2) by auto
  have ok: "line_ok l" "kernel_inv k" using shell_runs_ok [OF assms(3) x(1,2)] by simp_all
  have c: "\<not> interrupt_flag k" "timer_ticks (tmr k) = 0"
    using clock_shell_runs [OF assms(3) x(3)] x(3,4) by (simp_all add: clock_def)
  have "shell_execute_command (cstr ''sleep'') k = run_command 1 (cstr ''sleep'') [] k"
    by (rule execute_words) (simp_all add: cstr_def)
  also have "\<dots> = None" using sleep_disabled [OF c(1)] by (simp add: run_command_def cstr_def)
  finally show ?thesis using ok c by (simp add: line_ok_def timer_get_ticks_def)
qed

theorem system_invariant_witness:
  "\<exists>l k. kernel_main 0x5000 0x1000 0x2000
      (power_on (\<lambda>_. 0xAA) (\<lambda>_. 0) enter_waiting (sconst [Irq_Timer]) (\<lambda>_. 7)) = Some (Inr (l, k))
     \<and> kernel_inv k \<and> shell_execute_command (cstr ''sleep'') k = None"
proof -
  obtain p where key: "keyboard_getchar keyboard_start
      \<lparr>port_out = [], port_in = enter_waiting(0x21 := stl (stl (enter_waiting 0x21)))\<rparr> = Some (10, keyboard_start, p)"
    using enter_key by blast
  obtain l k where run: "kernel_main 0x5000 0x1000 0x2000
      (power_on (\<lambda>_. 0xAA) (\<lambda>_. 0) enter_waiting (sconst [Irq_Timer]) (\<lambda>_. 7)) = Some (Inr (l, k))"
    using kernel_boot [OF key] by blast
  from system_invariant [OF key run, of l k] show ?thesis using run by auto
qed

text \<open>A panic never returns: interrupts are off when the processor halts.\<close>

lemma kernel_panic_halts: "kernel_panic message k = None"
  unfolding kernel_panic_def by (subst halt_loop.simps) (simp add: hlt_disabled)

end
