(* ===== verification/Shell_Session.thy ===== *)
theory Shell_Session imports Kernel_Theorems begin

text \<open>
  The shell as its user sees it: the keys of a line, with its erasures and completions, and the
  command that Enter then runs. The abstraction from the line array to the typed text is
  \<open>typed\<close>; what each key does to the text is \<open>line_one\<close>.
\<close>

section \<open>A line of keys\<close>

lemma read_keys_snoc:
  assumes "read_keys n kb p = Some (keys, kb', p')" and "keys \<noteq> []"
  shows "\<exists>m. n = Suc m"
  using assms by (cases n) auto

lemma read_keys_other_state:
  fixes p :: "'p ports_scheme" and q :: "'q ports_scheme"
  assumes "read_keys n kb p = Some (keys, kb', p')" and "port_in q = port_in p"
  shows "\<exists>q'. read_keys n kb q = Some (keys, kb', q')"
  using assms
proof (induction n arbitrary: kb p q keys)
  case (Suc n)
  then obtain key kb1 p1 ks where g: "keyboard_getchar kb p = Some (key, kb1, p1)" "keys = key # ks"
      "read_keys n kb1 p1 = Some (ks, kb', p')"
    by (auto split: option.splits)
  then show ?case
    using Suc.IH [OF g(3), of "q\<lparr>port_in := port_in p1\<rparr>"] getchar_other_state [OF g(1) Suc.prems(2)]
    by auto
qed simp

text \<open>A round of the shell on a key other than Enter.\<close>

lemma round_effect:
  assumes "keyboard_getchar (kbd k) p = Some (key, kb1, p1)" and "port_in (scr k) = port_in p"
    and "line_ok l" and "key \<noteq> 10"
  shows "\<exists>l' s. shell_step (l, k) (l', k\<lparr>kbd := kb1, scr := s\<rparr>) \<and> port_in s = port_in p1
    \<and> line_ok l' \<and> typed l' = line_one key (typed l)"
proof -
  let ?k1 = "k\<lparr>kbd := kb1, scr := (scr k)\<lparr>port_in := port_in p1\<rparr>\<rparr>"
  have get: "machine_getchar k = Some (key, ?k1)"
    using getchar_other_state [OF assms(1,2)] by (simp add: machine_getchar_def)
  obtain l' s where "shell_key key l ?k1 = Some (Inr (l', ?k1\<lparr>scr := s\<rparr>))"
      "line_effect (line_one key (typed l)) (scr ?k1) l' s"
    using key_effect [OF assms(3,4), of ?k1] by blast
  then show ?thesis using get
    by (intro exI [of _ l'] exI [of _ s]) (simp add: shell_step_iff shell_round_def line_effect_def)
qed

lemma typing_line:
  assumes "read_keys n (kbd k) p = Some (keys @ [10], kb', p')" and "port_in (scr k) = port_in p"
    and "10 \<notin> set keys" and "line_ok l"
  shows "\<exists>l1 kb1 s1 k2. shell_step\<^sup>*\<^sup>* (l, k) (l1, k\<lparr>kbd := kb1, scr := s1\<rparr>)
    \<and> line_ok l1 \<and> typed l1 = fold line_one keys (typed l)
    \<and> machine_getchar (k\<lparr>kbd := kb1, scr := s1\<rparr>) = Some (10, k2)"
  using assms
proof (induction keys arbitrary: n k p l)
  case Nil
  then obtain m where "n = Suc m" using read_keys_snoc by blast
  then obtain kb1 p1 where "keyboard_getchar (kbd k) p = Some (10, kb1, p1)"
    using Nil.prems(1) by (auto split: option.splits)
  then have "machine_getchar k = Some (10, k\<lparr>kbd := kb1, scr := (scr k)\<lparr>port_in := port_in p1\<rparr>\<rparr>)"
    using getchar_other_state [OF _ Nil.prems(2)] by (simp add: machine_getchar_def)
  then show ?case using Nil.prems(4)
    by (intro exI [of _ l] exI [of _ "kbd k"] exI [of _ "scr k"]) simp
next
  case (Cons key keys)
  obtain m where m: "n = Suc m" using read_keys_snoc [OF Cons.prems(1)] by auto
  obtain kb1 p1 where g: "keyboard_getchar (kbd k) p = Some (key, kb1, p1)"
      "read_keys m kb1 p1 = Some (keys @ [10], kb', p')"
    using Cons.prems(1) m by (auto split: option.splits)
  obtain l1 s where step: "shell_step (l, k) (l1, k\<lparr>kbd := kb1, scr := s\<rparr>)" "port_in s = port_in p1"
      "line_ok l1" "typed l1 = line_one key (typed l)"
    using round_effect [OF g(1) Cons.prems(2,4)] Cons.prems(3) by auto
  obtain l2 kb2 s2 k2 where rest: "shell_step\<^sup>*\<^sup>* (l1, k\<lparr>kbd := kb1, scr := s\<rparr>) (l2, k\<lparr>kbd := kb2, scr := s2\<rparr>)"
      "line_ok l2" "typed l2 = fold line_one keys (typed l1)"
      "machine_getchar (k\<lparr>kbd := kb2, scr := s2\<rparr>) = Some (10, k2)"
    using Cons.IH [of m "k\<lparr>kbd := kb1, scr := s\<rparr>" p1 l1] g(2) step(2,3) Cons.prems(3) by auto
  show ?case
    using converse_rtranclp_into_rtranclp [OF step(1) rest(1)] rest(2-4) step(4)
    by (intro exI [of _ l2] exI [of _ kb2] exI [of _ s2] exI [of _ k2]) simp
qed

lemma enter_runs:
  assumes "line_ok l" and "machine_getchar k = Some (10, k2)"
  shows "\<exists>buf. shell_round (l, k) =
    (case shell_execute_command (typed l) (on_scr (screen_println []) k2) of
       None \<Rightarrow> None
     | Some (Inl e) \<Rightarrow> Some (Inl e)
     | Some (Inr k3) \<Rightarrow> Some (Inr (\<lparr>command_buffer = buf, buffer_index = 0\<rparr>, on_scr shell_print_prompt k3)))"
proof -
  obtain buf where b: "store_char (command_buffer l) (buffer_index l) 0 = Inr buf" "string_in buf = typed l"
    using terminate_line [OF assms(1)] by metis
  then show ?thesis using assms(2)
    by (intro exI [of _ buf]) (simp add: shell_round_def shell_key_def)
qed

text \<open>C11: What is typed is what runs: if the keyboard delivers keys and then Enter, the shell
  takes each of them into its line, Backspace and Delete removing the last character and Tab
  completing a command that is the only one to start with the text, and then executes exactly
  the resulting text, in a state with the same heap and files; if the command returns, the
  shell prints its prompt and starts an empty line.\<close>

theorem typed_line_runs:
  assumes "kernel_inv k" and "length (command_buffer l) = 256" and "buffer_index l = 0"
    and "read_keys n (kbd k) (scr k) = Some (keys @ [10], kb, p)" and "10 \<notin> set keys"
  shows "\<exists>l1 k1 k2 buf. shell_step\<^sup>*\<^sup>* (l, k) (l1, k1) \<and> kernel_inv k2
    \<and> heap_state k2 = heap_state k \<and> fsys k2 = fsys k
    \<and> shell_round (l1, k1) =
        (case shell_execute_command (fold line_one keys []) (on_scr (screen_println []) k2) of
           None \<Rightarrow> None
         | Some (Inl e) \<Rightarrow> Some (Inl e)
         | Some (Inr k3) \<Rightarrow> Some (Inr (\<lparr>command_buffer = buf, buffer_index = 0\<rparr>, on_scr shell_print_prompt k3)))"
proof -
  have l: "line_ok l" "typed l = []" using assms(2,3) by (simp_all add: line_ok_def typed_def)
  obtain l1 kb1 s1 k2 where run: "shell_step\<^sup>*\<^sup>* (l, k) (l1, k\<lparr>kbd := kb1, scr := s1\<rparr>)" "line_ok l1"
      "typed l1 = fold line_one keys []" "machine_getchar (k\<lparr>kbd := kb1, scr := s1\<rparr>) = Some (10, k2)"
    using typing_line [OF assms(4) refl assms(5) l(1)] l(2) by auto
  have "kernel_inv (k\<lparr>kbd := kb1, scr := s1\<rparr>)" using shell_runs_ok [OF run(1)] l(1) assms(1) by simp
  then have "kernel_inv k2" by (rule kernel_inv_getchar [OF run(4)])
  moreover have "heap_state k2 = heap_state k" "fsys k2 = fsys k"
    using getchar_kernel [OF run(4)] by simp_all
  ultimately show ?thesis using run(1) enter_runs [OF run(2,4)] unfolding run(3) by blast
qed

text \<open>Typing t, Tab, z, Backspace and Enter runs \<open>time\<close>.\<close>

theorem typed_line_runs_witness:
  "\<exists>l k. shell_run_start (test_kernel [0x14, 0x0F, 0x2C, 0x0E, 0x1C]) = (l, k)
    \<and> (\<exists>l1 k1 k2 buf. shell_step\<^sup>*\<^sup>* (l, k) (l1, k1) \<and> kernel_inv k2
      \<and> shell_round (l1, k1) =
          (case shell_execute_command (cstr ''time '') (on_scr (screen_println []) k2) of
             None \<Rightarrow> None
           | Some (Inl e) \<Rightarrow> Some (Inl e)
           | Some (Inr k3) \<Rightarrow> Some (Inr (\<lparr>command_buffer = buf, buffer_index = 0\<rparr>, on_scr shell_print_prompt k3))))"
proof -
  let ?codes = "[0x14, 0x0F, 0x2C, 0x0E, 0x1C] :: u8 list"
  let ?k = "test_kernel ?codes"
  obtain l k where start: "shell_run_start ?k = (l, k)" by fastforce
  then have l: "length (command_buffer l) = 256" "buffer_index l = 0"
      and k: "k = on_scr shell_print_prompt ?k"
    by (auto simp: shell_run_start_def local_array_def)
  have inv: "kernel_inv k" using shell_run_start_ok [OF test_kernel_inv [of ?codes]] start by simp
  have port: "port_in (scr k) = port_in (scr ?k)" "kbd k = keyboard_start"
      "kbd ?k = keyboard_start"
    unfolding k by (simp_all add: test_kernel_def)
  have "\<exists>p. read_keys 5 (kbd ?k) (scr ?k) = Some ([116, 9, 122, 8, 10], keyboard_start, p)"
    by (rule test_kernel_keys) (simp_all add: plain_codes)
  then obtain p where keys: "read_keys 5 (kbd k) (scr k) = Some ([116, 9, 122, 8] @ [10], keyboard_start, p)"
    using read_keys_other_state [OF _ port(1)] port(2,3) by fastforce
  have "fold line_one [116, 9, 122, 8] [] = cstr ''time ''" by code_simp
  then show ?thesis using typed_line_runs [OF inv l keys] start by fastforce
qed

end
