(* ===== verification/Shell_Refinement.thy ===== *)
theory Shell_Refinement imports Shell_Session begin

text \<open>
  The shell of src/drivers/shell/shell.c as a file store: an abstract specification of what each
  command does to a map from names to texts, and the proof that every command line, and every
  run of the shell from power-on, implements it.
\<close>

section \<open>The abstract file store\<close>

type_synonym store = "cchar list \<Rightarrow> u8 list option"

text \<open>
  There is room for 32 files. \<open>create\<close> adds a file with a fixed text unless the name is taken,
  \<open>delete\<close> removes one, \<open>edit\<close> replaces or adds one with whatever text was typed, and no
  other command changes a file.
\<close>

definition has_room :: "store \<Rightarrow> bool" where
  "has_room F \<longleftrightarrow> card (dom F) < 32"

definition store_command :: "cchar list \<Rightarrow> cchar list \<Rightarrow> store \<Rightarrow> store \<Rightarrow> bool" where
  "store_command c n F F' \<longleftrightarrow>
     (if n = [] then F' = F
      else if c = cstr ''create''
        then F' = (if F n = None \<and> has_room F then F(n \<mapsto> new_file_text) else F)
      else if c = cstr ''delete'' then F' = F(n := None)
      else if c = cstr ''edit''
        then (if F n \<noteq> None \<or> has_room F
              then \<exists>t. length t \<le> 511 \<and> 0 \<notin> set t \<and> F' = F(n \<mapsto> t) else F' = F)
      else F' = F)"

text \<open>
  What the user sees of the shell is the text of the line and the files, and each key he types
  changes them: Enter runs the command that the text says and empties the line, and every other
  key edits the text and leaves the files alone.
\<close>

inductive store_key :: "cchar \<Rightarrow> cchar list \<times> store \<Rightarrow> cchar list \<times> store \<Rightarrow> bool" where
  enter: "store_command (command_of t) (argument_of t) F F' \<Longrightarrow> store_key 10 (t, F) ([], F')"
| other: "key \<noteq> 10 \<Longrightarrow> store_key key (t, F) (line_one key t, F)"

text \<open>Runs that are labelled with the keys typed, and the rounds of the shell labelled so.\<close>

inductive key_run :: "(cchar \<Rightarrow> 's \<Rightarrow> 's \<Rightarrow> bool) \<Rightarrow> cchar list \<Rightarrow> 's \<Rightarrow> 's \<Rightarrow> bool" for step where
  stop: "key_run step [] x x"
| key: "key_run step keys x y \<Longrightarrow> step key y z \<Longrightarrow> key_run step (keys @ [key]) x z"

definition shell_key_step :: "cchar \<Rightarrow> shell_line \<times> kernel \<Rightarrow> shell_line \<times> kernel \<Rightarrow> bool" where
  "shell_key_step key x y \<longleftrightarrow>
     (\<exists>k. machine_getchar (snd x) = Some (key, k) \<and> shell_key key (fst x) k = Some (Inr y))"

text \<open>The labelled runs are the runs of the shell.\<close>

lemma shell_step_key: "shell_step x y \<longleftrightarrow> (\<exists>key. shell_key_step key x y)"
  by (auto simp: shell_step_iff shell_round_def shell_key_step_def split: option.splits prod.splits)

lemma shell_runs_keys: "shell_step\<^sup>*\<^sup>* x y \<longleftrightarrow> (\<exists>keys. key_run shell_key_step keys x y)"
proof
  show "shell_step\<^sup>*\<^sup>* x y \<Longrightarrow> \<exists>keys. key_run shell_key_step keys x y"
    by (induction rule: rtranclp_induct) (auto simp: shell_step_key intro: key_run.intros)
  show "\<exists>keys. key_run shell_key_step keys x y \<Longrightarrow> shell_step\<^sup>*\<^sup>* x y"
  proof (elim exE)
    fix keys assume "key_run shell_key_step keys x y"
    then show "shell_step\<^sup>*\<^sup>* x y"
      by (induction rule: key_run.induct) (auto simp: shell_step_key intro: rtranclp.rtrancl_into_rtrancl)
  qed
qed

text \<open>What every store keeps that the commands lead to with names that fit the table.\<close>

lemma store_command_cases:
  assumes "store_command c n F F'"
  obtains "F' = F" | "F' = F(n := None)" | t where "F' = F(n \<mapsto> t)" "length t \<le> 511" "F n \<noteq> None \<or> has_room F"
proof -
  have "length new_file_text \<le> 511" by (simp add: new_file_text_def cstr_def)
  then show thesis using assms that by (auto simp: store_command_def split: if_splits)
qed

section \<open>The slots are counted by the map\<close>

lemma dom_lookup:
  assumes "table_ok f"
  shows "dom (lookup f) = (\<lambda>i. fe_name (files f ! i)) ` Collect (in_use f)"
proof (rule set_eqI)
  fix n
  show "n \<in> dom (lookup f) \<longleftrightarrow> n \<in> (\<lambda>i. fe_name (files f ! i)) ` Collect (in_use f)"
  proof
    assume "n \<in> dom (lookup f)"
    then obtain b where "lookup f n = Some b" by blast
    then show "n \<in> (\<lambda>i. fe_name (files f ! i)) ` Collect (in_use f)"
      using lookup_find [OF assms] by blast
  next
    assume "n \<in> (\<lambda>i. fe_name (files f ! i)) ` Collect (in_use f)"
    then show "n \<in> dom (lookup f)" using lookup_Some [OF assms] by blast
  qed
qed

lemma free_card:
  assumes "fs_ok st"
  shows "finite (dom (fs_content st))" and "card (dom (fs_content st)) \<le> 32"
    and "fs_free st = 32 - card (dom (fs_content st))"
proof -
  obtain f where f: "fs st = Some f" "table_ok f" using assms by (rule fs_okE)
  have d: "dom (fs_content st) = (\<lambda>i. fe_name (files f ! i)) ` Collect (in_use f)"
    using dom_lookup [OF f(2)] by (simp add: fs_content_def f(1))
  moreover have "inj_on (\<lambda>i. fe_name (files f ! i)) (Collect (in_use f))"
    using f(2) by (simp add: table_ok_def)
  ultimately have "card (dom (fs_content st)) = card (Collect (in_use f))"
    by (simp add: card_image)
  then show "card (dom (fs_content st)) \<le> 32" "fs_free st = 32 - card (dom (fs_content st))"
    using card_in_use [of f] by (simp_all add: fs_free_def f(1))
  show "finite (dom (fs_content st))" unfolding d by simp
qed

text \<open>Once the file system is there it stays there.\<close>

definition mounted :: "kernel \<Rightarrow> bool" where
  "mounted k \<longleftrightarrow> fs (fsys k) \<noteq> None"

lemma mounted_room:
  assumes "kernel_inv k" and "mounted k"
  shows "has_room (fs_content (fsys k)) \<longleftrightarrow> fs (fsys k) \<noteq> None \<and> 0 < fs_free (fsys k)"
proof -
  have "files_idle (fsys k)" using assms(1) by (simp add: kernel_inv_def)
  then have "fs_ok (fsys k)" using assms(2) by (cases rule: files_idle_cases) (auto simp: mounted_def)
  then show ?thesis using free_card [of "fsys k"] assms(2) by (auto simp: has_room_def mounted_def)
qed

lemma mounted_simps [simp]:
  "mounted (on_scr f k) = mounted k" "mounted (k\<lparr>scr := s\<rparr>) = mounted k"
  "mounted (k\<lparr>heap_state := h\<rparr>) = mounted k" "mounted (k\<lparr>fsys := st\<rparr>) \<longleftrightarrow> fs st \<noteq> None"
  by (simp_all add: mounted_def)

lemma mount_kept:
  "fs_create_file nm type t st = Inr (r, st') \<Longrightarrow> fs st' = None \<longleftrightarrow> fs st = None"
  "fs_delete_file nm st = (i, st') \<Longrightarrow> fs st' = None \<longleftrightarrow> fs st = None"
  "fs_open_file nm st = (h, st') \<Longrightarrow> fs st' = None \<longleftrightarrow> fs st = None"
  "fs_close_file h st = Inr st' \<Longrightarrow> fs st' = None \<longleftrightarrow> fs st = None"
  "fs_read_file h b sz st = Inr (i, b', st') \<Longrightarrow> fs st' = None \<longleftrightarrow> fs st = None"
  "fs_write_file h b sz st = Inr (i, st') \<Longrightarrow> fs st' = None \<longleftrightarrow> fs st = None"
  by (auto simp: fs_create_file_def fs_delete_file_def fs_open_file_def fs_close_file_def fs_read_file_def
      fs_write_file_def fs_target_def put_handle_def Let_def
      split: option.splits sum.splits prod.splits if_splits)

section \<open>Every command implements the store\<close>

definition command_refines :: "cchar list \<Rightarrow> cchar list \<Rightarrow> kernel \<Rightarrow> (fault + kernel) option \<Rightarrow> bool" where
  "command_refines c n k r \<longleftrightarrow> (\<forall>k'. r = Some (Inr k') \<longrightarrow>
     store_command c n (fs_content (fsys k)) (fs_content (fsys k')) \<and> mounted k'
     \<and> heap_live (heap_state k') = heap_live (heap_state k))"

lemma command_refines_if:
  "(b \<Longrightarrow> command_refines c n k x) \<Longrightarrow> (\<not> b \<Longrightarrow> command_refines c n k y) \<Longrightarrow>
     command_refines c n k (if b then x else y)"
  by simp

text \<open>A command whose name is none of the three leaves the store alone.\<close>

lemma command_refines_same:
  assumes "c \<notin> {cstr ''create'', cstr ''delete'', cstr ''edit''}"
    and "\<And>k'. r = Some (Inr k') \<Longrightarrow> fs_content (fsys k') = fs_content (fsys k) \<and> mounted k'
      \<and> heap_live (heap_state k') = heap_live (heap_state k)"
  shows "command_refines c n k r"
  using assms by (auto simp: command_refines_def store_command_def)

lemma mounted_create: "shell_create parts n k = Inr k' \<Longrightarrow> mounted k \<Longrightarrow> mounted k'"
  by (auto simp: shell_create_def Let_def mounted_def split: option.splits prod.splits sum.splits if_splits
      dest!: mount_kept)

lemma mounted_delete: "mounted k \<Longrightarrow> mounted (shell_delete parts n k)"
  by (auto simp: shell_delete_def Let_def mounted_def split: prod.splits dest!: mount_kept)

lemma mounted_cat: "shell_cat parts n k = Inr k' \<Longrightarrow> mounted k \<Longrightarrow> mounted k'"
  by (auto simp: shell_cat_def Let_def mounted_def split: option.splits prod.splits sum.splits if_splits
      dest!: mount_kept)

lemma mounted_edit_write: "edit_write n c pos r k = Inr k' \<Longrightarrow> mounted k \<Longrightarrow> mounted k'"
  by (auto simp: edit_write_def Let_def mounted_def split: option.splits prod.splits sum.splits if_splits
      dest!: mount_kept)

lemma mounted_edit_save:
  assumes "edit_save n c pos k = Inr k'" and "mounted k"
  shows "mounted k'"
proof -
  obtain r st where 1: "fs_create_file (Some n) FILE_TYPE_REGULAR (tmr k) (fsys k) = Inr (r, st)"
    using assms(1) by (auto simp: edit_save_def split: sum.splits prod.splits)
  define st1 where "st1 = snd (fs_delete_file (Some n) st)"
  have 2: "fs_delete_file (Some n) st = (fst (fs_delete_file (Some n) st), st1)" by (simp add: st1_def)
  obtain r2 st2 where 3: "(if r = -2 then fs_create_file (Some n) FILE_TYPE_REGULAR (tmr k) st1 else Inr (r, st))
      = Inr (r2, st2)" and w: "edit_write n c pos r2 (k\<lparr>fsys := st2\<rparr>) = Inr k'"
    using assms(1) 1 unfolding st1_def by (auto simp: edit_save_def split: sum.splits prod.splits)
  have "fs st1 \<noteq> None" "fs st \<noteq> None"
    using mount_kept(1) [OF 1] mount_kept(2) [OF 2] assms(2) by (simp_all add: mounted_def)
  then have "fs st2 \<noteq> None" using 3 mount_kept(1) [of "Some n" FILE_TYPE_REGULAR "tmr k" st1 r2 st2]
    by (simp split: if_splits)
  then show ?thesis using mounted_edit_write [OF w] by simp
qed

lemma create_refines:
  assumes "kernel_inv k" and "mounted k" and "c_string n"
  shows "command_refines (cstr ''create'') n k (Some (shell_create (if n = [] then 1 else 2) n k))"
proof (cases "shell_create (if n = [] then 1 else 2) n k")
  case (Inr k')
  let ?F = "fs_content (fsys k)"
  have "heap_state k' = heap_state k \<and> fs_content (fsys k') =
      (if n \<noteq> [] \<and> ?F n = None \<and> has_room ?F then ?F(n \<mapsto> new_file_text) else ?F)"
    using shell_create_effect [OF assms(1,3), of "if n = [] then 1 else 2"] mounted_room [OF assms(1,2)] Inr
    by (cases "n = []") simp_all
  moreover have "mounted k'" by (rule mounted_create [OF Inr assms(2)])
  ultimately show ?thesis using Inr by (simp add: command_refines_def store_command_def)
qed (simp add: command_refines_def)

lemma delete_refines:
  assumes "kernel_inv k" and "mounted k" and "c_string n"
  shows "command_refines (cstr ''delete'') n k (Some (Inr (shell_delete (if n = [] then 1 else 2) n k)))"
  using shell_delete_effect [OF assms(1,3), of "if n = [] then 1 else 2"] mounted_delete [OF assms(2)]
  by (auto simp: command_refines_def store_command_def cstr_def)

lemma edit_save_refines:
  assumes k: "kernel_inv k" "mounted k" and n: "c_string n" "n \<noteq> []"
    and c: "length content = 512" "pos \<le> 511" "0 \<notin> set (take pos content)"
    and run: "edit_save n content pos k = Inr k'"
  shows "store_command (cstr ''edit'') n (fs_content (fsys k)) (fs_content (fsys k')) \<and> mounted k'
    \<and> heap_state k' = heap_state k"
proof -
  let ?F = "fs_content (fsys k)"
  have eff: "heap_state k' = heap_state k \<and> fs_content (fsys k') =
      (if ?F n \<noteq> None \<or> has_room ?F then ?F(n \<mapsto> take pos content) else ?F)"
    using edit_save_effect [OF k(1) n(1), of pos content] c run mounted_room [OF k] by auto
  define t where "t = take pos content"
  have t: "length t \<le> 511" "0 \<notin> set t" using c by (simp_all add: t_def)
  have "store_command (cstr ''edit'') n ?F (fs_content (fsys k'))"
    using eff n(2) t unfolding t_def [symmetric]
    by (auto simp: store_command_def cstr_def intro!: exI [of _ t])
  then show ?thesis using eff mounted_edit_save [OF run k(2)] by simp
qed

lemma edit_refines:
  assumes k: "kernel_inv k" "mounted k" and n: "c_string n"
  shows "command_refines (cstr ''edit'') n k (shell_edit (if n = [] then 1 else 2) n k)"
proof (cases "n = []")
  case True
  then show ?thesis using k(2) by (auto simp: command_refines_def store_command_def shell_edit_def)
next
  case False
  have "store_command (cstr ''edit'') n (fs_content (fsys k)) (fs_content (fsys k')) \<and> mounted k'
      \<and> heap_live (heap_state k') = heap_live (heap_state k)"
    if run: "shell_edit 2 n k = Some (Inr k')" for k'
  proof -
    obtain r where loop: "edit_loop (replicate 512 0) 0 (on_scr (edit_heading n) k) = Some r"
      using run by (cases "edit_loop (replicate 512 0) 0 (on_scr (edit_heading n) k)") (simp_all add: shell_edit_run)
    obtain content pos k1 where k1: "r = Inr (content, pos, k1)" "length content = 512" "pos \<le> 511"
        "0 \<notin> set (take pos content)" "kernel_inv k1" "heap_state k1 = heap_state k" "fsys k1 = fsys k"
      using edit_loop_result [OF k(1) loop] .
    then have save: "edit_save n content pos k1 = Inr k'" using run loop by (simp add: shell_edit_run)
    have "mounted k1" using k(2) k1(7) by (simp add: mounted_def)
    then show ?thesis using edit_save_refines [OF k1(5) _ n False k1(2-4) save] k1(6,7) by simp
  qed
  then show ?thesis using False by (simp add: command_refines_def)
qed

lemma run_command_refines:
  assumes k: "kernel_inv k" "mounted k" and c: "c_string c" and n: "c_string n"
  shows "command_refines c n k (run_command (if n = [] then 1 else 2) c n k)"
proof -
  have name: "strcmp c (cstr s) = 0 \<longleftrightarrow> c = cstr s" if "list_all (\<lambda>c. of_char c \<noteq> (0 :: cchar)) s" for s
    by (rule strcmp_name [OF c that])
  have scr: "command_refines c n k (done_scr f k)" if "c \<notin> {cstr ''create'', cstr ''delete'', cstr ''edit''}" for f
    using k(2) by (intro command_refines_same [OF that]) (auto simp: done_scr_def)
  show ?thesis
    unfolding run_command_def Let_def
  proof (intro command_refines_if)
    assume "strcmp c (cstr ''memtest'') = 0"
    then show "command_refines c n k (map_option Inr (shell_memtest k))"
      using memtest_effect [OF k(1)] k(2) name [of "''memtest''"]
      by (intro command_refines_same) (auto simp: cstr_def mounted_def)
  next
    assume "strcmp c (cstr ''sleep'') = 0"
    then show "command_refines c n k (map_option Inr (shell_sleep k))"
      using kernel_inv_sleep [OF k(1)] k(2) name [of "''sleep''"]
      by (intro command_refines_same) (auto simp: cstr_def mounted_def)
  next
    assume "strcmp c (cstr ''cat'') = 0"
    then have "c = cstr ''cat''" using name by simp
    moreover obtain k' where "shell_cat (if n = [] then 1 else 2) n k = Inr k'" "heap_state k' = heap_state k"
        "fs_content (fsys k') = fs_content (fsys k)"
      using shell_cat_effect [OF k(1) n] by blast
    ultimately show "command_refines c n k (Some (shell_cat (if n = [] then 1 else 2) n k))"
      using k(2) mounted_cat by (intro command_refines_same) (auto simp: cstr_def)
  next
    assume "strcmp c (cstr ''create'') = 0"
    then show "command_refines c n k (Some (shell_create (if n = [] then 1 else 2) n k))"
      using create_refines [OF k n] name [of "''create''"] by simp
  next
    assume "strcmp c (cstr ''delete'') = 0"
    then show "command_refines c n k (Some (Inr (shell_delete (if n = [] then 1 else 2) n k)))"
      using delete_refines [OF k n] name [of "''delete''"] by simp
  next
    assume "strcmp c (cstr ''edit'') = 0"
    then show "command_refines c n k (shell_edit (if n = [] then 1 else 2) n k)"
      using edit_refines [OF k n] name [of "''edit''"] by simp
  next
    assume "str_at c 0 = 0"
    then show "command_refines c n k (Some (Inr k))"
      using k(2) by (intro command_refines_same) (auto simp: cstr_def str_at_def)
  qed (use name in \<open>auto intro!: scr simp: cstr_def\<close>)
qed

section \<open>Lines and runs\<close>

lemma line_refines:
  assumes "kernel_inv k" and "mounted k" and "0 \<notin> set line"
  shows "command_refines (command_of line) (argument_of line) k (shell_execute_command line k)"
proof (cases "length (command_of line) < 64 \<and> length (argument_of line) < 64")
  case True
  then have run: "shell_execute_command line k
      = run_command (if argument_of line = [] then 1 else 2) (command_of line) (argument_of line) k"
    by (simp add: shell_execute_command_def parse_command_split)
  show ?thesis
    unfolding run using argument_clean [OF assms(3)] by (intro run_command_refines assms(1,2)) simp_all
next
  case False
  have "parse_command line = Inl Out_Of_Bounds" by (simp only: parse_command_split False if_False)
  then show ?thesis by (simp add: shell_execute_command_def command_refines_def)
qed

lemma key_refines:
  assumes inv: "kernel_inv k" "mounted k" and l: "line_ok l" and run: "shell_key key l k = Some (Inr (l', k'))"
  shows "store_key key (typed l, fs_content (fsys k)) (typed l', fs_content (fsys k')) \<and> mounted k'
    \<and> heap_live (heap_state k') = heap_live (heap_state k)"
proof (cases "key = 10")
  case True
  obtain buf where b: "store_char (command_buffer l) (buffer_index l) 0 = Inr buf" "string_in buf = typed l"
    using terminate_line [OF l] by metis
  let ?k = "on_scr (screen_println []) k"
  obtain k1 where k1: "shell_execute_command (typed l) ?k = Some (Inr k1)" "k' = on_scr shell_print_prompt k1"
      "l' = \<lparr>command_buffer = buf, buffer_index = 0\<rparr>"
    using run True b by (auto simp: shell_key_def split: option.splits sum.splits)
  have "kernel_inv ?k" "mounted ?k" using inv by (simp_all add: inv_intros)
  then have "command_refines (command_of (typed l)) (argument_of (typed l)) ?k (Some (Inr k1))"
    using line_refines [of ?k "typed l"] l k1(1) by (simp add: line_ok_def)
  moreover have "typed l' = []" by (simp add: k1(3) typed_def)
  ultimately show ?thesis using k1(2) True by (auto simp: command_refines_def intro: enter)
next
  case False
  then obtain s where "k' = k\<lparr>scr := s\<rparr>" "typed l' = line_one key (typed l)"
    using key_effect [OF l False, of k] run by (auto simp: line_effect_def)
  then show ?thesis using inv(2) other [OF False] by simp
qed

lemma runs_refine:
  assumes "key_run shell_key_step keys x y" and "line_ok (fst x)" and "kernel_inv (snd x)" and "mounted (snd x)"
  shows "key_run store_key keys (typed (fst x), fs_content (fsys (snd x))) (typed (fst y), fs_content (fsys (snd y)))
    \<and> mounted (snd y) \<and> heap_live (heap_state (snd y)) = heap_live (heap_state (snd x))"
  using assms
proof (induction rule: key_run.induct)
  case (key keys x y key z)
  obtain l k l' k' where yz: "y = (l, k)" "z = (l', k')" by fastforce
  then obtain k1 where g: "machine_getchar k = Some (key, k1)" "shell_key key l k1 = Some (Inr (l', k'))"
    using key.hyps(2) by (auto simp: shell_key_step_def)
  have ok: "line_ok l" "kernel_inv k"
    using shell_runs_ok [of x y] shell_runs_keys key.hyps(1) key.prems yz by auto
  have k1: "kernel_inv k1" "mounted k1" "fsys k1 = fsys k" "heap_state k1 = heap_state k"
    using kernel_inv_getchar [OF g(1) ok(2)] getchar_kernel [OF g(1)] key yz by (simp_all add: mounted_def)
  show ?case using key_refines [OF k1(1,2) ok(1) g(2)] key.IH [OF key.prems] k1(3,4) yz
    by (auto intro: key_run.key)
qed (simp add: stop)

text \<open>C6: The commands refine the file store: a command line that returns changes the files exactly
  as the specification \<open>store_command\<close> of its command and argument says, on every branch, with
  \<open>create\<close> and \<open>edit\<close> adding a file only while there are fewer than 32, and it leaves the heap
  payloads as they were.\<close>

theorem command_refines_store:
  assumes "kernel_inv k" and "fs (fsys k) \<noteq> None" and "0 \<notin> set line"
    and "shell_execute_command line k = Some (Inr k')"
  shows "store_command (command_of line) (argument_of line) (fs_content (fsys k)) (fs_content (fsys k'))
    \<and> heap_live (heap_state k') = heap_live (heap_state k)
    \<and> heap_blocks (heap_state k') = heap_blocks (heap_state k)"
proof -
  have r: "command_refines (command_of line) (argument_of line) k (Some (Inr k'))"
    using line_refines [OF assms(1) _ assms(3)] assms(2,4) by (simp add: mounted_def)
  have "kernel_inv k'" using execute_safe [OF assms(1,3)] assms(4) by (simp add: line_safe_def)
  then show ?thesis using r heap_blocks_unique [of "heap_state k'" "heap_state k"] assms(1)
    by (simp add: command_refines_def kernel_inv_def)
qed

theorem command_refines_store_witness:
  "\<exists>k'. shell_execute_command (cstr ''create'' @ 32 # cstr ''a'') (test_kernel []) = Some (Inr k')
     \<and> fs_content (fsys k') = [cstr ''a'' \<mapsto> new_file_text]"
proof -
  let ?line = "cstr ''create'' @ 32 # cstr ''a''"
  have line: "command_of ?line = cstr ''create''" "argument_of ?line = cstr ''a''" "0 \<notin> set ?line"
    by (simp_all add: command_of_def argument_of_def cstr_def)
  have "line_safe ?line (test_kernel []) (shell_execute_command ?line (test_kernel []))"
    by (rule execute_safe [OF test_kernel_inv line(3)])
  then obtain k' where k': "shell_execute_command ?line (test_kernel []) = Some (Inr k')"
    unfolding line_safe_def line by (auto simp: cstr_def split: option.splits sum.splits)
  have none: "fs_content (fsys (test_kernel [])) = Map.empty" using test_kernel_files by blast
  have "store_command (cstr ''create'') (cstr ''a'') Map.empty (fs_content (fsys k'))"
    using command_refines_store [OF test_kernel_inv test_kernel_files(3) line(3) k'] none
    unfolding line(1,2) by metis
  then have "fs_content (fsys k') = [cstr ''a'' \<mapsto> new_file_text]"
    by (simp add: store_command_def has_room_def cstr_def)
  then show ?thesis using k' by blast
qed

text \<open>C5: From power-on, whatever keys are typed, the shell refines the file store key by key: the
  text of the line and the files are what the specification leads to from the empty line and the
  three demo files with the same keys, so that each Enter runs exactly the command that the line
  says, \<open>create\<close>, \<open>delete\<close> and \<open>edit\<close> change the file they name and nothing else, and no other
  command and no other key changes a file. The heap holds exactly one payload throughout, the
  structure of the file system.\<close>

theorem system_refines_store:
  assumes "keyboard_getchar keyboard_start
      \<lparr>port_out = [], port_in = answers(0x21 := stl (stl (answers 0x21)))\<rparr> = Some (key, kb, p')"
    and "kernel_main table irq0 irq1 (power_on m video answers is stack) = Some (Inr x)"
    and "key_run shell_key_step keys x (l, k)"
  shows "key_run store_key keys ([], demo_content) (typed l, fs_content (fsys k))
    \<and> heap_live (heap_state k) = {(0x400010, 33936)}
    \<and> memory_get_used (heap_state k) = 33936"
proof -
  obtain l0 k0 where "kernel_main table irq0 irq1 (power_on m video answers is stack) = Some (Inr (l0, k0))"
      and k0: "line_ok l0" "typed l0 = []" "kernel_inv k0" "fs_ok (fsys k0)" "fs_content (fsys k0) = demo_content"
      "heap_live (heap_state k0) = {(0x400010, 33936)}"
    using kernel_boot [OF assms(1), of table irq0 irq1 m video "is" stack] by blast
  then have x: "x = (l0, k0)" using assms(2) by simp
  have "mounted k0" using k0(4) unfolding mounted_def by (rule fs_okE) simp
  then have run: "key_run store_key keys ([], demo_content) (typed l, fs_content (fsys k))"
      "heap_live (heap_state k) = {(0x400010, 33936)}"
    using runs_refine [OF assms(3)] k0 unfolding x by simp_all
  have "kernel_inv k" using shell_runs_ok [of x "(l, k)"] shell_runs_keys assms(3) k0(1,3) unfolding x by auto
  then have "unat (memory_get_used (heap_state k)) = 33936"
    using heap_used_live(1) [of "heap_state k"] run(2) by (simp add: kernel_inv_def memory_get_used_def)
  then show ?thesis using run by (simp add: word_unat_eq_iff)
qed

theorem system_refines_store_witness:
  "\<exists>x l k. kernel_main 0x5000 0x1000 0x2000
      (power_on (\<lambda>_. 0xAA) (\<lambda>_. 0) enter_waiting (sconst [Irq_Timer]) (\<lambda>_. 7)) = Some (Inr x)
     \<and> key_run shell_key_step [] x (l, k) \<and> key_run store_key [] ([], demo_content) (typed l, fs_content (fsys k))"
proof -
  obtain p where key: "keyboard_getchar keyboard_start
      \<lparr>port_out = [], port_in = enter_waiting(0x21 := stl (stl (enter_waiting 0x21)))\<rparr> = Some (10, keyboard_start, p)"
    using enter_key by blast
  obtain l k where run: "kernel_main 0x5000 0x1000 0x2000
      (power_on (\<lambda>_. 0xAA) (\<lambda>_. 0) enter_waiting (sconst [Irq_Timer]) (\<lambda>_. 7)) = Some (Inr (l, k))"
    using kernel_boot [OF key] by blast
  then show ?thesis using system_refines_store [OF key run stop] stop [of shell_key_step "(l, k)"] by blast
qed

end
