(* ===== verification/Shell_Reports.thy ===== *)
theory Shell_Reports imports Shell_Theorems begin

text \<open>
  What the reporting commands of src/drivers/shell/shell.c show: \<open>ls\<close> the files of the file
  system, \<open>time\<close> and \<open>uptime\<close> the tick counter as hours, minutes and seconds.
\<close>

section \<open>Texts\<close>

lemma screen_print_twice: "screen_print b (screen_print a s) = screen_print (a @ b) s"
  by (simp add: screen_print_fold)

lemma screen_println_after: "screen_println b (screen_print a s) = screen_println (a @ b) s"
  by (simp add: screen_println_def screen_print_twice)

lemmas one_text = screen_print_twice screen_println_after print_number_text

section \<open>The list of files\<close>

text \<open>One line of the listing: the kind, the name and the size.\<close>

definition ls_line :: "cchar list \<Rightarrow> u32 \<Rightarrow> bool \<Rightarrow> screen \<Rightarrow> screen" where
  "ls_line name sz directory s =
     (let s = screen_set_color (if directory then VGA_COLOR_LIGHT_BLUE else VGA_COLOR_WHITE) VGA_COLOR_BLACK s;
          s = screen_print (cstr (if directory then ''[DIR] '' else ''[FILE]'')) s
      in screen_println (cstr '' '' @ name @ cstr '' ('' @ number_text sz @ cstr '' bytes)'')
           (screen_set_color VGA_COLOR_WHITE VGA_COLOR_BLACK s))"

lemma fs_list_entry_line:
  "fs_list_entry e s = ls_line (fe_name e) (fe_size e) (fe_type e = FILE_TYPE_DIRECTORY) s"
  by (simp add: fs_list_entry_def ls_line_def one_text)

definition ls_heading :: "screen \<Rightarrow> screen" where
  "ls_heading s = screen_set_color VGA_COLOR_WHITE VGA_COLOR_BLACK
     (screen_println (cstr ''Directory Listing:'') (screen_set_color VGA_COLOR_LIGHT_CYAN VGA_COLOR_BLACK s))"

text \<open>The entries in use, in the order of the table.\<close>

definition used_entries :: "filesystem \<Rightarrow> file_entry list" where
  "used_entries f = map (\<lambda>i. files f ! i) (filter (in_use f) [0..<32])"

lemma list_loop:
  "set is \<subseteq> {..<32} \<Longrightarrow>
   fold (\<lambda>i (found_any, s). if fe_in_use (files f ! i) then (True, g (files f ! i) s) else (found_any, s)) is (b, s)
   = (b \<or> filter (in_use f) is \<noteq> [], fold g (map (\<lambda>i. files f ! i) (filter (in_use f) is)) s)"
  by (induction "is" arbitrary: b s) (auto simp: in_use_def)

lemma fs_list_files_used:
  assumes "fs st = Some f"
  shows "fs_list_files st s =
    (if used_entries f = []
     then screen_println (cstr ''No files found.'') (screen_set_color VGA_COLOR_YELLOW VGA_COLOR_BLACK (ls_heading s))
     else fold fs_list_entry (used_entries f) (ls_heading s))"
proof -
  have "set [0..<32] \<subseteq> {..<32 :: nat}" by auto
  note loop = list_loop [OF this, of f fs_list_entry False]
  show ?thesis
    unfolding fs_list_files_def Let_def assms option.case loop ls_heading_def used_entries_def by simp
qed

lemma used_entries_files:
  assumes "table_ok f"
  shows "distinct (map fe_name (used_entries f))"
    and "set (map fe_name (used_entries f)) = dom (lookup f)"
    and "e \<in> set (used_entries f) \<Longrightarrow> map_option length (lookup f (fe_name e)) = Some (unat (fe_size e))"
proof -
  have inj: "inj_on (\<lambda>i. fe_name (files f ! i)) (Collect (in_use f))" using assms by (simp add: table_ok_def)
  then have "inj_on (\<lambda>i. fe_name (files f ! i)) (set (filter (in_use f) [0..<32]))"
    by (rule inj_on_subset) auto
  then show "distinct (map fe_name (used_entries f))"
    by (simp add: used_entries_def comp_def distinct_map)
  have entry: "lookup f (fe_name (files f ! i)) = Some (file_bytes f i)" if "in_use f i" for i
    using assms that lookup_Some [OF assms] by blast
  show "set (map fe_name (used_entries f)) = dom (lookup f)"
    using entry lookup_Some [OF assms] by (force simp: used_entries_def in_use_def)
  show "map_option length (lookup f (fe_name e)) = Some (unat (fe_size e))" if "e \<in> set (used_entries f)"
    using that entry assms
    by (auto simp: used_entries_def file_bytes_def in_use_def table_ok_def entry_ok_def)
qed


section \<open>The clock\<close>

text \<open>Hours and minutes are left out while they are 0.\<close>

definition clock_text :: "nat \<Rightarrow> nat \<Rightarrow> nat \<Rightarrow> cchar list" where
  "clock_text h m s =
     (if 0 < h then number_text (of_nat h) @ cstr ''h '' else [])
     @ (if 0 < m \<or> 0 < h then number_text (of_nat m) @ cstr ''m '' else [])
     @ number_text (of_nat s) @ cstr ''s''"

definition calendar_text :: "nat \<Rightarrow> nat \<Rightarrow> nat \<Rightarrow> nat \<Rightarrow> cchar list" where
  "calendar_text d h m s =
     (if 0 < d then number_text (of_nat d) @ cstr '' days, '' else [])
     @ (if 0 < h then number_text (of_nat h) @ cstr '' hours, '' else [])
     @ number_text (of_nat m) @ cstr '' minutes, '' @ number_text (of_nat s) @ cstr '' seconds''"

lemma word_gt_0_unat: "0 < (x :: u32) \<longleftrightarrow> 0 < unat x"
  by (simp add: word_less_nat_alt)

lemma shell_time_text:
  "shell_time ticks s = screen_println (cstr ''Total ticks: '' @ number_text ticks)
     (screen_println (cstr ''System uptime: ''
         @ clock_text (unat ticks div 360000) (unat ticks div 6000 mod 60) (unat ticks div 100 mod 60))
       (screen_set_color VGA_COLOR_LIGHT_CYAN VGA_COLOR_BLACK s))"
proof -
  let ?h = "ticks div 100 div 60 div 60" and ?m = "ticks div 100 div 60 mod 60"
    and ?s = "ticks div 100 mod 60"
  have u: "unat ticks div 360000 = unat ?h" "unat ticks div 6000 mod 60 = unat ?m"
      "unat ticks div 100 mod 60 = unat ?s"
    by (simp_all add: unat_div unat_mod flip: div_mult2_eq)
  show ?thesis
    unfolding shell_time_def Let_def one_text clock_text_def u word_gt_0_unat
    by (simp add: one_text)
qed

lemma shell_uptime_text:
  "shell_uptime ticks s =
     screen_println (cstr ''Average load: '' @ number_text (ticks mod 1000 div 10) @ cstr ''%'')
       (screen_println (cstr ''Timer ticks: '' @ number_text ticks @ cstr '' (100Hz)'')
         (screen_println (cstr ''Total uptime: ''
             @ calendar_text (unat ticks div 8640000) (unat ticks div 360000 mod 24)
                 (unat ticks div 6000 mod 60) (unat ticks div 100 mod 60))
           (screen_set_color VGA_COLOR_WHITE VGA_COLOR_BLACK
             (colored VGA_COLOR_LIGHT_CYAN ''System Uptime Details:'' s))))"
proof -
  let ?d = "ticks div 100 div 60 div 60 div 24" and ?h = "ticks div 100 div 60 div 60 mod 24"
    and ?m = "ticks div 100 div 60 mod 60" and ?s = "ticks div 100 mod 60"
  have u: "unat ticks div 8640000 = unat ?d" "unat ticks div 360000 mod 24 = unat ?h"
      "unat ticks div 6000 mod 60 = unat ?m" "unat ticks div 100 mod 60 = unat ?s"
    by (simp_all add: unat_div unat_mod flip: div_mult2_eq)
  show ?thesis
    unfolding shell_uptime_def Let_def one_text calendar_text_def u word_gt_0_unat
    by (simp add: one_text)
qed


section \<open>The commands\<close>

text \<open>C23: \<open>ls\<close> shows the files of the file table that are in use, in the order of the table, one
  line each, with the kind that the table records, the name and the size in bytes, and nothing else;
  these are exactly the files of the file system, each once, and the sizes are the lengths of their
  contents; without files it says so. It changes nothing but the screen.\<close>

theorem ls_lists_files:
  assumes "kernel_inv k" and "fs (fsys k) = Some f"
  shows "shell_execute_command (cstr ''ls'') k = Some (Inr (on_scr (\<lambda>s.
        if used_entries f = []
        then screen_println (cstr ''No files found.'') (screen_set_color VGA_COLOR_YELLOW VGA_COLOR_BLACK (ls_heading s))
        else fold (\<lambda>e. ls_line (fe_name e) (fe_size e) (fe_type e = FILE_TYPE_DIRECTORY))
               (used_entries f) (ls_heading s)) k))
    \<and> distinct (map fe_name (used_entries f)) \<and> set (map fe_name (used_entries f)) = dom (fs_content (fsys k))
    \<and> (\<forall>e \<in> set (used_entries f). map_option length (fs_content (fsys k) (fe_name e)) = Some (unat (fe_size e)))"
proof -
  have table: "table_ok f" using assms by (simp add: kernel_inv_def files_idle_def fs_inv_def)
  have ls: "shell_execute_command (cstr ''ls'') k = run_command 1 (cstr ''ls'') [] k"
    by (rule execute_words) (simp_all add: cstr_def)
  have "run_command 1 (cstr ''ls'') [] k = Some (Inr (on_scr (fs_list_files (fsys k)) k))"
    by (simp add: run_command_def cstr_def done_scr_def)
  moreover have "fs_list_entry = (\<lambda>e. ls_line (fe_name e) (fe_size e) (fe_type e = FILE_TYPE_DIRECTORY))"
    by (intro ext fs_list_entry_line)
  then have "fs_list_files (fsys k) = (\<lambda>s. if used_entries f = []
      then screen_println (cstr ''No files found.'') (screen_set_color VGA_COLOR_YELLOW VGA_COLOR_BLACK (ls_heading s))
      else fold (\<lambda>e. ls_line (fe_name e) (fe_size e) (fe_type e = FILE_TYPE_DIRECTORY)) (used_entries f) (ls_heading s))"
    by (intro ext) (simp only: fs_list_files_used [OF assms(2)])
  moreover have "fs_content (fsys k) = lookup f" by (simp add: fs_content_def assms(2))
  ultimately show ?thesis
    using used_entries_files [OF table] unfolding ls by simp
qed

text \<open>A file system with one file.\<close>

theorem ls_lists_files_witness:
  "\<exists>k f e. fs (fsys k) = Some f \<and> used_entries f = [e] \<and> fe_name e = cstr ''a'' \<and> fe_size e = 0
     \<and> shell_execute_command (cstr ''ls'') k = Some (Inr (on_scr (\<lambda>s.
          ls_line (cstr ''a'') 0 (fe_type e = FILE_TYPE_DIRECTORY) (ls_heading s)) k))"
proof -
  have "fs_valid (cstr ''a'')" by (simp add: fs_valid_def c_string_def cstr_def)
  then obtain st where st: "fs_ok st" "fs_cursor st = (\<lambda>_. None)" "fs_content st = [cstr ''a'' \<mapsto> []]"
    using fstore.create_new [OF fresh_fs_facts(1,2), of "cstr ''a''"] fresh_fs_facts(3,4) by auto
  obtain f where f: "fs st = Some f" using st(1) by (auto elim: fs_okE)
  define k where "k = (test_kernel [])\<lparr>fsys := st\<rparr>"
  have k: "kernel_inv k" "fs (fsys k) = Some f"
    using kernel_inv_parts(1) [OF test_kernel_inv files_idle_ok [OF st(1,2)]] f
    by (auto simp: k_def)
  note ls = ls_lists_files [OF k]
  have content: "fs_content (fsys k) = [cstr ''a'' \<mapsto> []]" by (simp add: k_def st(3))
  have names: "set (map fe_name (used_entries f)) = {cstr ''a''}" using ls unfolding content by simp
  then have "length (used_entries f) = 1"
    using distinct_card [of "map fe_name (used_entries f)"] ls names by simp
  then obtain e where e: "used_entries f = [e]" by (auto simp: length_Suc_conv)
  have name: "fe_name e = cstr ''a''" using names e by simp
  have "unat (fe_size e) = 0" using ls unfolding content e by (simp add: name)
  then have sz: "fe_size e = 0" by (simp add: unat_eq_0)
  show ?thesis
    using k(2) e name sz ls by (intro exI [of _ k] exI [of _ f] exI [of _ e]) simp
qed

text \<open>C24: \<open>time\<close> and \<open>uptime\<close> show the tick counter, 100 ticks to the second, as hours, minutes
  and seconds, \<open>uptime\<close> with days, and then the ticks; they change nothing but the screen.\<close>

theorem clock_commands:
  "\<exists>d h m s. unat (timer_ticks (tmr k)) div 100 = ((d * 24 + h) * 60 + m) * 60 + s \<and> h < 24 \<and> m < 60 \<and> s < 60
    \<and> shell_execute_command (cstr ''time'') k = Some (Inr (on_scr (\<lambda>w.
        screen_println (cstr ''Total ticks: '' @ number_text (timer_ticks (tmr k)))
          (screen_println (cstr ''System uptime: '' @ clock_text (d * 24 + h) m s)
            (screen_set_color VGA_COLOR_LIGHT_CYAN VGA_COLOR_BLACK w))) k))
    \<and> shell_execute_command (cstr ''uptime'') k = Some (Inr (on_scr (\<lambda>w.
        screen_println (cstr ''Average load: '' @ number_text (timer_ticks (tmr k) mod 1000 div 10) @ cstr ''%'')
          (screen_println (cstr ''Timer ticks: '' @ number_text (timer_ticks (tmr k)) @ cstr '' (100Hz)'')
            (screen_println (cstr ''Total uptime: '' @ calendar_text d h m s)
              (screen_set_color VGA_COLOR_WHITE VGA_COLOR_BLACK
                (colored VGA_COLOR_LIGHT_CYAN ''System Uptime Details:'' w))))) k))"
proof -
  let ?t = "unat (timer_ticks (tmr k))"
  have hours: "?t div 8640000 * 24 + ?t div 360000 mod 24 = ?t div 360000"
    using div_mult_mod_eq [of "?t div 360000" 24] by (simp flip: div_mult2_eq)
  have "?t div 360000 * 60 + ?t div 6000 mod 60 = ?t div 6000"
    using div_mult_mod_eq [of "?t div 6000" 60] by (simp flip: div_mult2_eq)
  moreover have "?t div 6000 * 60 + ?t div 100 mod 60 = ?t div 100"
    using div_mult_mod_eq [of "?t div 100" 60] by (simp flip: div_mult2_eq)
  ultimately have clock: "?t div 100
      = ((?t div 8640000 * 24 + ?t div 360000 mod 24) * 60 + ?t div 6000 mod 60) * 60 + ?t div 100 mod 60"
    unfolding hours by simp
  have words: "shell_execute_command (cstr ''time'') k = run_command 1 (cstr ''time'') [] k"
      "shell_execute_command (cstr ''uptime'') k = run_command 1 (cstr ''uptime'') [] k"
    by (rule execute_words; simp add: cstr_def)+
  have run: "run_command 1 (cstr ''time'') [] k = Some (Inr (on_scr (\<lambda>w. shell_time (timer_ticks (tmr k)) w) k))"
      "run_command 1 (cstr ''uptime'') [] k = Some (Inr (on_scr (\<lambda>w. shell_uptime (timer_ticks (tmr k)) w) k))"
    by (simp_all add: run_command_def cstr_def done_scr_def timer_get_ticks_def)
  show ?thesis
    by (rule exI [of _ "?t div 8640000"], rule exI [of _ "?t div 360000 mod 24"],
        rule exI [of _ "?t div 6000 mod 60"], rule exI [of _ "?t div 100 mod 60"],
        unfold hours words run shell_time_text shell_uptime_text, intro conjI clock [unfolded hours])
      simp_all
qed

end
