(* ===== verification/Keyboard_Layout.thy ===== *)
theory Keyboard_Layout imports Keyboard_Driver begin

text \<open>
  What the keys type: a US keyboard written down with the key names of
  src/include/keyboard.h, the keys that type nothing and two stray codes, and the proof that
  \<open>process_scancode\<close> with its tables and its \<open>switch\<close> does what these lists say.
\<close>

unbundle bit_operations_syntax

section \<open>The keyboard\<close>

text \<open>The printable keys, without and with Shift.\<close>

definition us_keys :: "(u8 \<times> char \<times> char) list" where
  "us_keys = [
    (KEY_1, CHR ''1'', CHR ''!''), (KEY_2, CHR ''2'', CHR ''@''), (KEY_3, CHR ''3'', CHR ''#''),
    (KEY_4, CHR ''4'', CHR ''$''), (KEY_5, CHR ''5'', CHR ''%''), (KEY_6, CHR ''6'', CHR ''^''),
    (KEY_7, CHR ''7'', CHR ''&''), (KEY_8, CHR ''8'', CHR ''*''), (KEY_9, CHR ''9'', CHR ''(''),
    (KEY_0, CHR ''0'', CHR '')''), (KEY_MINUS, CHR ''-'', CHR ''_''),
    (KEY_EQUALS, CHR ''='', CHR ''+''), (KEY_Q, CHR ''q'', CHR ''Q''),
    (KEY_W, CHR ''w'', CHR ''W''), (KEY_E, CHR ''e'', CHR ''E''), (KEY_R, CHR ''r'', CHR ''R''),
    (KEY_T, CHR ''t'', CHR ''T''), (KEY_Y, CHR ''y'', CHR ''Y''), (KEY_U, CHR ''u'', CHR ''U''),
    (KEY_I, CHR ''i'', CHR ''I''), (KEY_O, CHR ''o'', CHR ''O''), (KEY_P, CHR ''p'', CHR ''P''),
    (KEY_LBRACKET, CHR ''['', CHR ''{''), (KEY_RBRACKET, CHR '']'', CHR ''}''),
    (KEY_A, CHR ''a'', CHR ''A''), (KEY_S, CHR ''s'', CHR ''S''), (KEY_D, CHR ''d'', CHR ''D''),
    (KEY_F, CHR ''f'', CHR ''F''), (KEY_G, CHR ''g'', CHR ''G''), (KEY_H, CHR ''h'', CHR ''H''),
    (KEY_J, CHR ''j'', CHR ''J''), (KEY_K, CHR ''k'', CHR ''K''), (KEY_L, CHR ''l'', CHR ''L''),
    (KEY_SEMICOLON, CHR '';'', CHR '':''), (KEY_QUOTE, CHR 0x27, CHR 0x22),
    (KEY_BACKTICK, CHR 0x60, CHR ''~''), (KEY_BACKSLASH, CHR 0x5C, CHR ''|''),
    (KEY_Z, CHR ''z'', CHR ''Z''), (KEY_X, CHR ''x'', CHR ''X''), (KEY_C, CHR ''c'', CHR ''C''),
    (KEY_V, CHR ''v'', CHR ''V''), (KEY_B, CHR ''b'', CHR ''B''), (KEY_N, CHR ''n'', CHR ''N''),
    (KEY_M, CHR ''m'', CHR ''M''), (KEY_COMMA, CHR '','', CHR ''<''),
    (KEY_PERIOD, CHR ''.'', CHR ''>''), (KEY_SLASH, CHR ''/'', CHR ''?''),
    (KEY_SPACE, CHR '' '', CHR '' ''), (KEY_KP_STAR, CHR ''*'', CHR ''*'')]"

text \<open>The keys that Shift does not change, with the internal codes of keyboard.c and keyboard.h.\<close>

definition control_keys :: "(u8 \<times> cchar) list" where
  "control_keys = [
    (KEY_ESCAPE, CHAR_ESCAPE), (KEY_BACKSPACE, CHAR_BACKSPACE), (KEY_TAB, CHAR_TAB),
    (KEY_ENTER, CHAR_NEWLINE), (KEY_DELETE, CHAR_DELETE), (KEY_UP, SPECIAL_KEY_UP),
    (KEY_DOWN, SPECIAL_KEY_DOWN), (KEY_LEFT, SPECIAL_KEY_LEFT), (KEY_RIGHT, SPECIAL_KEY_RIGHT)]"

text \<open>
  Codes that type something only without Shift: the End key a plus sign and the code behind
  the Delete key a second DEL, since the keypad row of the table starts one entry late.
\<close>

definition stray_keys :: "(u8 \<times> cchar) list" where
  "stray_keys = [(KEY_END, 43), (KEY_DELETE + 1, CHAR_DELETE)]"

text \<open>
  The named keys that type nothing: the modifiers and locks, the function keys, and of the keypad
  and the keys that share its codes all but the star, the arrows, End and Delete.
\<close>

definition silent_keys :: "u8 list" where
  "silent_keys = [
    KEY_LCTRL, KEY_LSHIFT, KEY_RSHIFT, KEY_LALT, KEY_CAPSLOCK, KEY_NUMLOCK, KEY_SCROLLLOCK,
    KEY_F1, KEY_F2, KEY_F3, KEY_F4, KEY_F5, KEY_F6, KEY_F7, KEY_F8, KEY_F9, KEY_F10,
    KEY_KP_7, KEY_KP_9, KEY_KP_MINUS, KEY_KP_5, KEY_KP_PLUS, KEY_KP_3, KEY_KP_0]"

definition key_table :: "(u8 \<times> cchar \<times> cchar) list" where
  "key_table = map (\<lambda>(c, plain, shifted). (c, of_char plain, of_char shifted)) us_keys
     @ map (\<lambda>(c, k). (c, k, k)) control_keys @ map (\<lambda>(c, k). (c, k, 0)) stray_keys"

text \<open>The character of a key, 0 for none; Ctrl turns a small letter into its control code.\<close>

definition us_keyboard :: "bool \<Rightarrow> bool \<Rightarrow> u8 \<Rightarrow> cchar" where
  "us_keyboard shifted ctrl c =
     (case map_of key_table c of
        None \<Rightarrow> 0
      | Some (lower, upper) \<Rightarrow>
          let key = (if shifted then upper else lower)
          in if ctrl \<and> key \<in> set (cstr ''abcdefghijklmnopqrstuvwxyz'') then key - 96 else key)"

section \<open>The tables of the driver\<close>

text \<open>The entry of a code in front of the release bit, as the driver looks it up.\<close>

definition driver_entry :: "u8 \<Rightarrow> (cchar \<times> cchar) option" where
  "driver_entry c =
     (if c = KEY_LSHIFT \<or> c = KEY_RSHIFT \<or> c = KEY_LCTRL then None
      else case special_key c of
        Some key \<Rightarrow> Some (key, key)
      | None \<Rightarrow>
          let plain = keyboard_map ! unat c; shifted = keyboard_shift_map ! unat c
          in if plain = 0 \<and> shifted = 0 then None else Some (plain, shifted))"

lemma key_table_entries: "list_all (\<lambda>(c, e). unat c < 128 \<and> driver_entry c = Some e) key_table"
  by code_simp

lemma driver_table_codes:
  "set (filter (\<lambda>i. keyboard_map ! i \<noteq> 0 \<or> keyboard_shift_map ! i \<noteq> 0) [0..<128])
   \<subseteq> set (map unat ([KEY_LSHIFT, KEY_RSHIFT, KEY_LCTRL] @ map fst key_table))"
  by code_simp

lemma driver_entry_listed:
  assumes "unat c < 128" and "driver_entry c \<noteq> None"
  shows "c \<in> fst ` set key_table"
proof (cases "special_key c")
  case None
  then have "unat c \<in> set (filter (\<lambda>i. keyboard_map ! i \<noteq> 0 \<or> keyboard_shift_map ! i \<noteq> 0) [0..<128])"
    using assms by (auto simp: driver_entry_def split: if_splits)
  with driver_table_codes
  have "unat c \<in> set (map unat ([KEY_LSHIFT, KEY_RSHIFT, KEY_LCTRL] @ map fst key_table))"
    by (rule subsetD)
  then have "unat c \<in> unat ` set ([KEY_LSHIFT, KEY_RSHIFT, KEY_LCTRL] @ map fst key_table)"
    by (simp only: set_map)
  then have "c \<in> set ([KEY_LSHIFT, KEY_RSHIFT, KEY_LCTRL] @ map fst key_table)"
    unfolding image_iff word_unat_eq_iff [symmetric] by blast
  then have "c = KEY_LSHIFT \<or> c = KEY_RSHIFT \<or> c = KEY_LCTRL \<or> c \<in> fst ` set key_table" by simp
  then show ?thesis using assms(2) by (auto simp: driver_entry_def split: if_splits)
next
  case (Some k)
  then have "c \<in> fst ` set control_keys"
    by (auto simp: special_key_def control_keys_def split: if_splits)
  then show ?thesis by (force simp: key_table_def)
qed

lemma key_table_entry: "map_of key_table c = (if unat c < 128 then driver_entry c else None)"
proof (cases "map_of key_table c")
  case None
  then have "c \<notin> fst ` set key_table" by (simp add: map_of_eq_None_iff)
  then have "unat c < 128 \<Longrightarrow> driver_entry c = None" using driver_entry_listed [of c] by blast
  then show ?thesis using None by simp
next
  case (Some e)
  then have "(c, e) \<in> set key_table" by (rule map_of_SomeD)
  then show ?thesis using Some key_table_entries by (auto simp: list_all_iff)
qed

text \<open>The characters that Ctrl changes are those that the code's signed comparisons select.\<close>

lemma small_letters:
  "k \<in> set (cstr ''abcdefghijklmnopqrstuvwxyz'') \<longleftrightarrow> 97 \<le> sint k \<and> sint k \<le> 122"
proof -
  have letters: "cstr ''abcdefghijklmnopqrstuvwxyz'' = map of_nat [97..<123]" by code_simp
  show ?thesis
  proof
    assume "k \<in> set (cstr ''abcdefghijklmnopqrstuvwxyz'')"
    then obtain n where n: "k = of_nat n" "97 \<le> n" "n < 123" unfolding letters by auto
    then have "unat k = n" by (simp add: unat_of_nat)
    then show "97 \<le> sint k \<and> sint k \<le> 122" using sint_ascii [of k] n by simp
  next
    assume k: "97 \<le> sint k \<and> sint k \<le> 122"
    then have "k = of_nat (nat (sint k))" by (simp flip: word_of_int_nat)
    moreover have "nat (sint k) \<in> {97..<123}" using k by auto
    ultimately show "k \<in> set (cstr ''abcdefghijklmnopqrstuvwxyz'')" unfolding letters by auto
  qed
qed

lemma special_not_small:
  "special_key c = Some k \<Longrightarrow> k \<notin> set (cstr ''abcdefghijklmnopqrstuvwxyz'')"
  by (auto simp: special_key_def cstr_def split: if_splits)

lemma keys_covered:
  "unat ` (fst ` set key_table \<union> set silent_keys) = {1..0x54}"
  "fst ` set key_table \<inter> set silent_keys = {}"
proof -
  have "set (map unat (map fst key_table @ silent_keys)) = set [1..<0x55]"
    by code_simp
  then show "unat ` (fst ` set key_table \<union> set silent_keys) = {1..0x54}"
    by (simp only: set_map set_append) auto
  have "list_all (\<lambda>(c, _). c \<notin> set silent_keys) key_table"
    by (simp add: key_table_def us_keys_def control_keys_def stray_keys_def silent_keys_def)
  then show "fst ` set key_table \<inter> set silent_keys = {}"
    by (auto simp: list_all_iff)
qed

text \<open>C22: What each key types, with and without Shift and Ctrl. The letters, digits, signs and
  Space of the main block and the star of the keypad type as on a US keyboard, Ctrl turning the
  small letters into control codes; Escape, Backspace, Tab, Enter, Delete and the arrows send their
  codes; without Shift, End types a plus sign and the unnamed code behind Delete a DEL. The other
  named codes, 1 to 0x53 being all that keyboard.h names, are those of \<open>silent_keys\<close>: they type
  nothing, and among them are the minus, the plus and the digits 0, 3, 5, 7 and 9 of the keypad. No
  code above 0x54 types anything, and no release does.\<close>

theorem keys_type_us_layout:
  "fst (process_scancode c kb) =
     (if pressed c then us_keyboard (shift_pressed kb) (ctrl_pressed kb) c else 0)
   \<and> unat ` (fst ` set key_table \<union> set silent_keys) = {1..0x54} \<and> fst ` set key_table \<inter> set silent_keys = {}"
proof (intro conjI)
  show "fst (process_scancode c kb) =
     (if pressed c then us_keyboard (shift_pressed kb) (ctrl_pressed kb) c else 0)"
  proof (cases "pressed c")
    case False
    then show ?thesis by (simp add: process_scancode_def pressed_def Let_def)
  next
    case True
    then have c: "c AND 0x80 = 0" "unat c < 128" "c < 128"
      using pressed_iff [of c] by (simp_all add: pressed_def word_less_nat_alt)
    have entry: "map_of key_table c = driver_entry c" using c(2) by (simp add: key_table_entry)
    show ?thesis
    proof (cases "special_key c")
      case (Some k)
      then show ?thesis
        using True c entry special_not_small [OF Some]
        by (auto simp: process_scancode_def us_keyboard_def driver_entry_def special_key_def split: if_splits)
    next
      case None
      then show ?thesis
        using True c entry
        by (auto simp: process_scancode_def us_keyboard_def driver_entry_def small_letters Let_def)
    qed
  qed
qed (rule keys_covered)+

end
