(* ===== verification/Keyboard_Race.thy ===== *)
theory Keyboard_Race imports Keyboard_Driver "HOL-Library.Multiset" begin

text \<open>
  \<open>keyboard_getchar\<close> with the keyboard interrupt enabled, as in the interactive mode of the
  kernel: the loop cut into the accesses it makes, and \<open>keyboard_handler\<close> running between any
  two of them.
\<close>

unbundle bit_operations_syntax

section \<open>The loop in steps\<close>

text \<open>
  The positions in the loop: in front of the reads of the status and the data port, of the call
  of \<open>process_scancode\<close>, of the test of \<open>key_available\<close>, of the read of \<open>last_key\<close>, of the
  assignment to \<open>key_available\<close>, and after the return. A call of \<open>process_scancode\<close> is one step.
\<close>

datatype poll_pc =
    Read_Status | Read_Data | Translate u8 | Check_Stored | Take_Stored
  | Clear_Stored cchar | Returned cchar

record polling =
  pkbd :: keyboard
  pports :: ports
  pc :: poll_pc

definition polling_at :: "poll_pc \<Rightarrow> keyboard \<Rightarrow> ports \<Rightarrow> polling" where
  "polling_at a kb p = \<lparr>pkbd = kb, pports = p, pc = a\<rparr>"

definition getchar_step :: "'r polling_scheme \<Rightarrow> 'r polling_scheme" where
  "getchar_step r =
     (case pc r of
        Read_Status \<Rightarrow>
          let (status, p) = inb KEYBOARD_STATUS_PORT (pports r)
          in r\<lparr>pports := p, pc := (if status AND 1 \<noteq> 0 then Read_Data else Check_Stored)\<rparr>
      | Read_Data \<Rightarrow>
          let (scancode, p) = inb KEYBOARD_DATA_PORT (pports r)
          in r\<lparr>pports := p, pc := Translate scancode\<rparr>
      | Translate scancode \<Rightarrow>
          let (key, kb) = process_scancode scancode (pkbd r)
          in r\<lparr>pkbd := kb, pc := (if key \<noteq> 0 then Returned key else Check_Stored)\<rparr>
      | Check_Stored \<Rightarrow> r\<lparr>pc := (if key_available (pkbd r) then Take_Stored else Read_Status)\<rparr>
      | Take_Stored \<Rightarrow> r\<lparr>pc := Clear_Stored (last_key (pkbd r))\<rparr>
      | Clear_Stored key \<Rightarrow> r\<lparr>pkbd := (pkbd r)\<lparr>key_available := False\<rparr>, pc := Returned key\<rparr>
      | Returned key \<Rightarrow> r)"

definition getchar_interrupt :: "'r polling_scheme \<Rightarrow> 'r polling_scheme" where
  "getchar_interrupt r =
     (let (kb, p) = keyboard_handler (pkbd r) (pports r) in r\<lparr>pkbd := kb, pports := p\<rparr>)"

section \<open>Without interrupts\<close>

text \<open>A round of the loop is a few steps.\<close>

lemma round_steps:
  "\<exists>n. (getchar_step ^^ Suc n) (polling_at Read_Status kb p) =
     (case keyboard_poll kb p of
        (Some key, kb', p') \<Rightarrow> polling_at (Returned key) kb' p'
      | (None, kb', p') \<Rightarrow> polling_at Read_Status kb' p')"
proof -
  let ?step = "getchar_step" and ?r = "polling_at Read_Status kb p"
  obtain status p1 where 1: "inb 0x64 p = (status, p1)" by fastforce
  obtain c p2 where 2: "inb 0x60 p1 = (c, p2)" by fastforce
  obtain key kb1 where 3: "process_scancode c kb = (key, kb1)" by fastforce
  note defs = getchar_step_def polling_at_def keyboard_poll_def 1 2 3
  show ?thesis
  proof (cases "status AND 1 = 0")
    case True
    show ?thesis
    proof (cases "key_available kb")
      case avail: True
      have "(?step ^^ Suc 3) ?r = polling_at (Returned (last_key kb)) (kb\<lparr>key_available := False\<rparr>) p1"
        using True avail by (simp add: defs numeral_3_eq_3)
      then show ?thesis using True avail by (intro exI [of _ 3]) (simp add: keyboard_poll_def 1)
    next
      case False
      have "(?step ^^ Suc 1) ?r = polling_at Read_Status kb p1"
        using True False by (simp add: defs)
      then show ?thesis using True False by (intro exI [of _ 1]) (simp add: keyboard_poll_def 1)
    qed
  next
    case ready: False
    show ?thesis
    proof (cases "key = 0")
      case False
      have "(?step ^^ Suc 2) ?r = polling_at (Returned key) kb1 p2"
        using ready False by (simp add: defs numeral_2_eq_2)
      then show ?thesis using ready False by (intro exI [of _ 2]) (simp add: keyboard_poll_def 1 2 3)
    next
      case True
      show ?thesis
      proof (cases "key_available kb1")
        case avail: True
        have "(?step ^^ Suc 5) ?r
            = polling_at (Returned (last_key kb1)) (kb1\<lparr>key_available := False\<rparr>) p2"
          using ready True avail by (simp add: defs eval_nat_numeral)
        then show ?thesis using ready True avail by (intro exI [of _ 5]) (simp add: keyboard_poll_def 1 2 3)
      next
        case False
        have "(?step ^^ Suc 3) ?r = polling_at Read_Status kb1 p2"
          using ready True False by (simp add: defs eval_nat_numeral)
        then show ?thesis using ready True False by (intro exI [of _ 3]) (simp add: keyboard_poll_def 1 2 3)
      qed
    qed
  qed
qed

lemma returned_stays: "(getchar_step ^^ n) (polling_at (Returned key) kb p) = polling_at (Returned key) kb p"
  by (induction n) (simp_all add: getchar_step_def polling_at_def)


lemma steps_again:
  "(getchar_step ^^ m) r = r' \<Longrightarrow> (getchar_step ^^ (n + m)) r = (getchar_step ^^ n) r'"
  by (simp add: funpow_add)

lemma getchar_by_steps:
  assumes "keyboard_getchar kb p = Some (key, kb', p')"
  shows "\<exists>n. (getchar_step ^^ n) (polling_at Read_Status kb p) = polling_at (Returned key) kb' p'"
proof -
  let ?P = "\<lambda>kb p (r :: cchar \<times> keyboard \<times> ports).
    \<exists>n. (getchar_step ^^ n) (polling_at Read_Status kb p) = polling_at (Returned (fst r)) (fst (snd r)) (snd (snd r))"
  have "?P kb p (key, kb', p')"
  proof (rule keyboard_getchar.raw_induct [where P = ?P, OF _ assms])
    fix getchar kb r and p :: ports
    assume IH: "\<And>kb p r. getchar kb p = Some r \<Longrightarrow> ?P kb p r"
      and body: "(case keyboard_poll kb p of (None, kb, p) \<Rightarrow> getchar kb p
        | (Some key, kb, p) \<Rightarrow> Some (key, kb, p)) = Some r"
    obtain found kb1 p1 where poll: "keyboard_poll kb p = (found, kb1, p1)" by (metis prod_cases3)
    obtain m where m: "(getchar_step ^^ Suc m) (polling_at Read_Status kb p)
        = (case found of Some key \<Rightarrow> polling_at (Returned key) kb1 p1 | None \<Rightarrow> polling_at Read_Status kb1 p1)"
      using round_steps [of kb p] by (auto simp: poll)
    show "?P kb p r"
    proof (cases found)
      case None
      then have "getchar kb1 p1 = Some r" using body by (simp add: poll)
      then obtain n where "(getchar_step ^^ n) (polling_at Read_Status kb1 p1)
          = polling_at (Returned (fst r)) (fst (snd r)) (snd (snd r))"
        using IH by blast
      moreover have "(getchar_step ^^ Suc m) (polling_at Read_Status kb p) = polling_at Read_Status kb1 p1"
        using m None by simp
      ultimately show ?thesis using steps_again by metis
    next
      case (Some k)
      then have "r = (k, kb1, p1)" using body by (simp add: poll)
      then show ?thesis using m Some by (intro exI [of _ "Suc m"]) simp
    qed
  qed
  then show ?thesis by simp
qed

lemma steps_by_getchar:
  assumes "(getchar_step ^^ n) (polling_at Read_Status kb p) = polling_at (Returned key) kb' p'"
  shows "keyboard_getchar kb p = Some (key, kb', p')"
  using assms
proof (induction n arbitrary: kb p rule: less_induct)
  case (less n)
  obtain found kb1 p1 where poll: "keyboard_poll kb p = (found, kb1, p1)" by (metis prod_cases3)
  obtain m where m: "(getchar_step ^^ Suc m) (polling_at Read_Status kb p)
      = (case found of Some key \<Rightarrow> polling_at (Returned key) kb1 p1 | None \<Rightarrow> polling_at Read_Status kb1 p1)"
    using round_steps [of kb p] by (auto simp: poll)
  have late: "(getchar_step ^^ (k + n)) (polling_at Read_Status kb p) = polling_at (Returned key) kb' p'" for k
    using steps_again [OF less.prems, of k] by (simp only: returned_stays)
  show ?case
  proof (cases found)
    case (Some k)
    then have "(getchar_step ^^ (n + Suc m)) (polling_at Read_Status kb p) = polling_at (Returned k) kb1 p1"
      using steps_again [OF m, of n] by (simp only: option.case returned_stays)
    then have "polling_at (Returned k) kb1 p1 = polling_at (Returned key) kb' p'"
      using late [of "Suc m"] by (simp only: add.commute [of n])
    then show ?thesis using Some by (simp add: polling_at_def getchar_found [OF poll [unfolded Some]])
  next
    case None
    then have m: "(getchar_step ^^ Suc m) (polling_at Read_Status kb p) = polling_at Read_Status kb1 p1"
      using m by simp
    have "Suc m < n"
    proof (rule ccontr)
      assume "\<not> Suc m < n"
      then have "(getchar_step ^^ Suc m) (polling_at Read_Status kb p) = polling_at (Returned key) kb' p'"
        using late [of "Suc m - n"] by simp
      then show False unfolding m by (simp add: polling_at_def)
    qed
    then have "(getchar_step ^^ (n - Suc m)) (polling_at Read_Status kb1 p1) = polling_at (Returned key) kb' p'"
      using steps_again [OF m, of "n - Suc m"] less.prems by simp
    then show ?thesis
      using less.IH [of "n - Suc m"] \<open>Suc m < n\<close> getchar_again [OF poll [unfolded None]] by simp
  qed
qed

text \<open>Without interrupts the steps are the loop of \<open>keyboard_getchar\<close>: they reach the
  return of a key exactly when the function returns that key, with the same states, and they
  never get there when it never returns.\<close>

theorem getchar_steps_refine:
  "keyboard_getchar kb p = Some (key, kb', p')
   \<longleftrightarrow> (\<exists>n. (getchar_step ^^ n) (polling_at Read_Status kb p) = polling_at (Returned key) kb' p')"
  using getchar_by_steps steps_by_getchar by blast

section \<open>With interrupts\<close>

text \<open>
  A history beside the state: the keys the callers got, those that scancodes typed, and those
  that were in the one-key buffer, or should have been put there, when another one took the place.
\<close>

record history = polling +
  returned :: "cchar multiset"
  typed :: "cchar multiset"
  lost :: "cchar multiset"

datatype event = Main | Interrupt | Next_Call

definition key_typed :: "cchar \<Rightarrow> history \<Rightarrow> history" where
  "key_typed key r = (if key \<noteq> 0 then r\<lparr>typed := add_mset key (typed r)\<rparr> else r)"

text \<open>The key that the handler is about to store, 0 for none.\<close>

definition handler_key :: "keyboard \<Rightarrow> 'p ports_scheme \<Rightarrow> cchar" where
  "handler_key kb p =
     (let (status, p) = inb KEYBOARD_STATUS_PORT p
      in if status AND 1 = 0 then 0
         else fst (process_scancode (fst (inb KEYBOARD_DATA_PORT p)) kb))"

fun event_step :: "event \<Rightarrow> history \<Rightarrow> history" where
  "event_step Main r =
     (case pc r of
        Translate scancode \<Rightarrow> key_typed (fst (process_scancode scancode (pkbd r))) (getchar_step r)
      | _ \<Rightarrow> getchar_step r)"
| "event_step Interrupt r =
     (let key = handler_key (pkbd r) (pports r);
          overwritten = (case pc r of Clear_Stored _ \<Rightarrow> key | _ \<Rightarrow> last_key (pkbd r))
      in if key \<noteq> 0 \<and> key_available (pkbd r)
         then key_typed key (getchar_interrupt r)\<lparr>lost := add_mset overwritten (lost r)\<rparr>
         else key_typed key (getchar_interrupt r))"
| "event_step Next_Call r =
     (case pc r of
        Returned key \<Rightarrow> r\<lparr>returned := add_mset key (returned r), pc := Read_Status\<rparr>
      | _ \<Rightarrow> r)"

definition history_start :: "keyboard \<Rightarrow> ports \<Rightarrow> history" where
  "history_start kb p = \<lparr>pkbd = kb, pports = p, pc = Read_Status,
     returned = {#}, typed = {#}, lost = {#}\<rparr>"

text \<open>The keys on their way: in the buffer, or taken out of it and about to be returned.\<close>

definition in_flight :: "history \<Rightarrow> cchar multiset" where
  "in_flight r =
     (let stored = (if key_available (pkbd r) then {#last_key (pkbd r)#} else {#})
      in case pc r of
           Clear_Stored key \<Rightarrow> {#key#}
         | Returned key \<Rightarrow> add_mset key stored
         | _ \<Rightarrow> stored)"

definition accounted :: "history \<Rightarrow> bool" where
  "accounted r \<longleftrightarrow> typed r = returned r + in_flight r + lost r
     \<and> (pc r = Take_Stored \<or> (\<exists>key. pc r = Clear_Stored key) \<longrightarrow> key_available (pkbd r))"

lemma handler_effect:
  "keyboard_handler kb p = (kb', p') \<Longrightarrow>
     key_available kb' = (key_available kb \<or> handler_key kb p \<noteq> 0)
     \<and> last_key kb' = (if handler_key kb p \<noteq> 0 then handler_key kb p else last_key kb)"
proof -
  assume h: "keyboard_handler kb p = (kb', p')"
  obtain status p1 where 1: "inb 0x64 p = (status, p1)" by fastforce
  obtain c p2 where 2: "inb 0x60 p1 = (c, p2)" by fastforce
  obtain key kb1 where 3: "process_scancode c kb = (key, kb1)" by fastforce
  have "kb1 = snd (process_scancode c kb)" by (simp add: 3)
  then have "key_available kb1 = key_available kb" "last_key kb1 = last_key kb"
    by (simp_all add: process_scancode_state)
  then show ?thesis
    using h by (auto simp: keyboard_handler_def handler_key_def 1 2 3 split: if_splits)
qed


lemma key_typed_simps [simp]:
  "pkbd (key_typed key r) = pkbd r" "pports (key_typed key r) = pports r" "pc (key_typed key r) = pc r"
  "returned (key_typed key r) = returned r" "lost (key_typed key r) = lost r"
  "typed (key_typed key r) = (if key \<noteq> 0 then add_mset key (typed r) else typed r)"
  by (simp_all add: key_typed_def)

lemma accounted_main:
  assumes "accounted r"
  shows "accounted (event_step Main r)"
proof (cases "pc r")
  case (Translate c)
  obtain key kb where 1: "process_scancode c (pkbd r) = (key, kb)" by fastforce
  have "kb = snd (process_scancode c (pkbd r))" by (simp add: 1)
  then have "key_available kb = key_available (pkbd r)" "last_key kb = last_key (pkbd r)"
    by (simp_all add: process_scancode_state)
  then show ?thesis
    using assms Translate by (simp add: accounted_def in_flight_def getchar_step_def 1)
qed (use assms in \<open>auto simp: accounted_def in_flight_def getchar_step_def split: prod.split\<close>)

lemma accounted_interrupt:
  assumes "accounted r"
  shows "accounted (event_step Interrupt r)"
proof -
  obtain kb p where 1: "keyboard_handler (pkbd r) (pports r) = (kb, p)" by fastforce
  note kb = handler_effect [OF 1]
  have "pkbd (getchar_interrupt r) = kb" "pc (getchar_interrupt r) = pc r"
      "returned (getchar_interrupt r) = returned r" "typed (getchar_interrupt r) = typed r"
      "lost (getchar_interrupt r) = lost r"
    by (simp_all add: getchar_interrupt_def 1)
  then show ?thesis
    using assms kb by (cases "pc r") (auto simp: accounted_def in_flight_def Let_def)
qed

lemma accounted_call:
  assumes "accounted r"
  shows "accounted (event_step Next_Call r)"
  using assms by (cases "pc r") (auto simp: accounted_def in_flight_def Let_def)

lemma accounted_step: "accounted r \<Longrightarrow> accounted (event_step e r)"
  using accounted_main accounted_interrupt accounted_call by (cases e) blast+

text \<open>Without interrupts nothing is lost.\<close>

lemma lost_only_in_interrupt: "e \<noteq> Interrupt \<Longrightarrow> lost (event_step e r) = lost r"
  by (cases e) (auto simp: getchar_step_def split: poll_pc.split prod.split)

text \<open>C21: Wherever the keyboard interrupt arrives, every key that a scancode types is returned to
  a caller once, is still on its way, or was lost when the handler found the one-key buffer taken;
  no key is returned twice and none is made up, and without interrupts none is lost.\<close>

theorem keys_accounted:
  assumes "\<not> key_available kb"
  shows "typed (fold event_step events (history_start kb p))
      = returned (fold event_step events (history_start kb p))
        + in_flight (fold event_step events (history_start kb p))
        + lost (fold event_step events (history_start kb p))
    \<and> (Interrupt \<notin> set events \<longrightarrow> lost (fold event_step events (history_start kb p)) = {#})"
proof
  have start: "accounted (history_start kb p)" "lost (history_start kb p) = {#}"
    using assms by (simp_all add: accounted_def in_flight_def history_start_def)
  have "accounted (fold event_step events r)" if "accounted r" for r
    using that by (induction events arbitrary: r) (auto intro: accounted_step)
  from this [OF start(1)]
  show "typed (fold event_step events (history_start kb p))
      = returned (fold event_step events (history_start kb p))
        + in_flight (fold event_step events (history_start kb p))
        + lost (fold event_step events (history_start kb p))"
    by (simp add: accounted_def)
  have "lost (fold event_step events r) = lost r" if "Interrupt \<notin> set events" for r
    using that by (induction events arbitrary: r) (auto simp del: event_step.simps simp: lost_only_in_interrupt)
  then show "Interrupt \<notin> set events \<longrightarrow> lost (fold event_step events (history_start kb p)) = {#}"
    using start(2) by simp
qed


text \<open>Two keys by interrupts, the second one while the first is being taken out of the buffer.\<close>

abbreviation race_ports :: ports where
  "race_ports \<equiv> feed ([1, 0, 1] @- sconst 0) ([KEY_A, KEY_B] @- sconst 0)
     \<lparr>port_out = [], port_in = \<lambda>_. sconst 0\<rparr>"

lemma type_a_b:
  "process_scancode KEY_A keyboard_start = (97, keyboard_start)"
  "process_scancode KEY_B (keyboard_start\<lparr>last_key := k, key_available := True\<rparr>)
     = (98, keyboard_start\<lparr>last_key := k, key_available := True\<rparr>)"
  by (simp_all add: process_scancode_def keyboard_start_def special_key_def keyboard_map_def Let_def)

lemma race_taken:
  "fold event_step [Interrupt, Main, Main] (history_start keyboard_start race_ports)
   = \<lparr>pkbd = keyboard_start\<lparr>last_key := 97, key_available := True\<rparr>,
      pports = feed ([1] @- sconst 0) ([KEY_B] @- sconst 0) race_ports, pc = Take_Stored,
      returned = {#}, typed = {#97#}, lost = {#}\<rparr>"
proof -
  have "keyboard_handler keyboard_start race_ports
      = (keyboard_start\<lparr>last_key := 97, key_available := True\<rparr>,
         feed ([0, 1] @- sconst 0) ([KEY_B] @- sconst 0) race_ports)"
    using type_a_b(1) by (simp add: keyboard_handler_def inb_def feed_def)
  moreover have "handler_key keyboard_start race_ports = 97"
    using type_a_b(1) by (simp add: handler_key_def inb_def feed_def)
  moreover have "\<not> key_available keyboard_start" by (simp add: keyboard_start_def)
  ultimately show ?thesis
    by (simp add: history_start_def getchar_interrupt_def getchar_step_def key_typed_def inb_def feed_def
        fun_upd_twist)
qed

lemma race_second_key:
  "handler_key (keyboard_start\<lparr>last_key := 97, key_available := True\<rparr>)
     (feed ([1] @- sconst 0) ([KEY_B] @- sconst 0) race_ports) = 98"
  using type_a_b(2) by (simp add: handler_key_def inb_def feed_def)

theorem keys_accounted_witness:
  "typed (fold event_step [Interrupt, Main, Main] (history_start keyboard_start race_ports)) = {#97#}
   \<and> returned (fold event_step [Interrupt, Main, Main] (history_start keyboard_start race_ports))
     + in_flight (fold event_step [Interrupt, Main, Main] (history_start keyboard_start race_ports))
     + lost (fold event_step [Interrupt, Main, Main] (history_start keyboard_start race_ports)) = {#97#}"
proof -
  have "typed (fold event_step [Interrupt, Main, Main] (history_start keyboard_start race_ports)) = {#97#}"
    unfolding race_taken by simp
  then show ?thesis
    using keys_accounted [of keyboard_start "[Interrupt, Main, Main]" race_ports]
    by (simp only: keyboard_start_def keyboard.simps simp_thms)
qed

text \<open>A key that the interrupt stores between the two statements with which
  \<open>keyboard_getchar\<close> empties the one-key buffer is lost: the call returns the older key and
  leaves the buffer empty.\<close>

theorem getchar_loses_key:
  assumes "pc r = Take_Stored" and "key_available (pkbd r)"
    and "handler_key (pkbd r) (pports r) = key" and "key \<noteq> 0"
  shows "pc (fold event_step [Main, Interrupt, Main] r) = Returned (last_key (pkbd r))
    \<and> \<not> key_available (pkbd (fold event_step [Main, Interrupt, Main] r))
    \<and> typed (fold event_step [Main, Interrupt, Main] r) = add_mset key (typed r)
    \<and> lost (fold event_step [Main, Interrupt, Main] r) = add_mset key (lost r)"
proof -
  obtain kb p where 1: "keyboard_handler (pkbd r) (pports r) = (kb, p)" by fastforce
  then show ?thesis
    using assms by (simp add: getchar_step_def getchar_interrupt_def)
qed

theorem getchar_loses_key_witness:
  "98 \<in># lost (fold event_step [Interrupt, Main, Main, Main, Interrupt, Main]
     (history_start keyboard_start race_ports))"
proof -
  have split: "fold event_step [Interrupt, Main, Main, Main, Interrupt, Main] r
      = fold event_step [Main, Interrupt, Main] (fold event_step [Interrupt, Main, Main] r)" for r
    by simp
  show ?thesis
    unfolding split race_taken
    using race_second_key
      getchar_loses_key [of "\<lparr>pkbd = keyboard_start\<lparr>last_key := 97, key_available := True\<rparr>,
        pports = feed ([1] @- sconst 0) ([KEY_B] @- sconst 0) race_ports, pc = Take_Stored,
        returned = {#}, typed = {#97#}, lost = {#}\<rparr>" 98]
    by (simp del: event_step.simps fold_simps)
qed

end
