(* ===== verification/C_Layout.thy ===== *)
theory C_Layout imports File_System Interrupt_Table begin

text \<open>
  The C types of src/include/types.h and the structures of src/include/memory.h, filesystem.h
  and idt.h, with the sizes, alignments and offsets that the 32-bit x86 ABI gives them, and the
  proof that the sizes and offsets the rest of the development uses are these.
\<close>

section \<open>Types\<close>

text \<open>
  The typedefs of types.h under their names; \<open>Packed\<close> is a structure with
  \<open>__attribute__((packed))\<close>.
\<close>

datatype ctype =
    uint8_t | uint16_t | uint32_t | uint64_t
  | int8_t | int16_t | int32_t | int64_t
  | c_char | c_int | c_pointer
  | Array nat ctype
  | Struct "ctype list"
  | Packed "ctype list"

abbreviation bool_t :: ctype where "bool_t \<equiv> uint8_t"
abbreviation size_t :: ctype where "size_t \<equiv> uint32_t"
abbreviation uintptr_t :: ctype where "uintptr_t \<equiv> uint32_t"
abbreviation intptr_t :: ctype where "intptr_t \<equiv> int32_t"

definition align_up :: "nat \<Rightarrow> nat \<Rightarrow> nat" where
  "align_up a n = (n + a - 1) div a * a"

text \<open>Alignments; the ABI aligns 64-bit members of a structure to 4 bytes.\<close>

fun c_align :: "ctype \<Rightarrow> nat" where
  "c_align uint8_t = 1" | "c_align int8_t = 1" | "c_align c_char = 1"
| "c_align uint16_t = 2" | "c_align int16_t = 2"
| "c_align uint32_t = 4" | "c_align int32_t = 4" | "c_align c_int = 4" | "c_align c_pointer = 4"
| "c_align uint64_t = 4" | "c_align int64_t = 4"
| "c_align (Array n t) = c_align t"
| "c_align (Struct ts) = fold max (map c_align ts) 1"
| "c_align (Packed ts) = 1"

text \<open>The offsets of members, given as (size, alignment), from \<open>off\<close> on, and where they end.\<close>

primrec member_offsets :: "nat \<Rightarrow> (nat \<times> nat) list \<Rightarrow> nat list" where
  "member_offsets off [] = []"
| "member_offsets off (m # ms) =
     align_up (snd m) off # member_offsets (align_up (snd m) off + fst m) ms"

primrec members_end :: "nat \<Rightarrow> (nat \<times> nat) list \<Rightarrow> nat" where
  "members_end off [] = off"
| "members_end off (m # ms) = members_end (align_up (snd m) off + fst m) ms"

fun c_sizeof :: "ctype \<Rightarrow> nat" where
  "c_sizeof uint8_t = 1" | "c_sizeof int8_t = 1" | "c_sizeof c_char = 1"
| "c_sizeof uint16_t = 2" | "c_sizeof int16_t = 2"
| "c_sizeof uint32_t = 4" | "c_sizeof int32_t = 4" | "c_sizeof c_int = 4" | "c_sizeof c_pointer = 4"
| "c_sizeof uint64_t = 8" | "c_sizeof int64_t = 8"
| "c_sizeof (Array n t) = n * c_sizeof t"
| "c_sizeof (Struct ts) =
     align_up (fold max (map c_align ts) 1) (members_end 0 (map (\<lambda>t. (c_sizeof t, c_align t)) ts))"
| "c_sizeof (Packed ts) = sum_list (map c_sizeof ts)"

definition c_offsets :: "ctype \<Rightarrow> nat list" where
  "c_offsets t =
     (case t of Struct ts \<Rightarrow> member_offsets 0 (map (\<lambda>t. (c_sizeof t, c_align t)) ts)
      | Packed ts \<Rightarrow> member_offsets 0 (map (\<lambda>t. (c_sizeof t, 1)) ts)
      | _ \<Rightarrow> [])"

section \<open>The structures of the kernel\<close>

definition memory_block_t :: ctype where
  "memory_block_t = Struct [uint32_t, bool_t, c_pointer, c_pointer]"

definition file_entry_t :: ctype where
  "file_entry_t = Struct [Array MAX_FILENAME_LENGTH c_char, uint8_t, uint8_t, uint32_t, uint32_t, uint32_t, bool_t]"

definition filesystem_t :: ctype where
  "filesystem_t = Struct [uint32_t, uint32_t, uint32_t, uint32_t, Array MAX_FILES file_entry_t,
     Array (MAX_FILES * unat MAX_FILE_SIZE) uint8_t]"

definition file_handle_t :: ctype where
  "file_handle_t = Struct [c_int, uint32_t, bool_t]"

definition idt_entry_t :: ctype where
  "idt_entry_t = Packed [uint16_t, uint16_t, uint8_t, uint8_t, uint16_t]"

definition idt_ptr_t :: ctype where
  "idt_ptr_t = Packed [uint16_t, uint32_t]"

section \<open>Members are aligned and apart\<close>

lemma align_up_ge: "0 < a \<Longrightarrow> n \<le> align_up a n"
  using div_mult_mod_eq [of "n + a - 1" a] mod_less_divisor [of a "n + a - 1"]
  unfolding align_up_def by linarith

lemma align_up_dvd [simp]: "a dvd align_up a n"
  by (simp add: align_up_def)

lemma align_up_1 [simp]: "align_up (Suc 0) n = n"
  by (simp add: align_up_def)

lemma members_end_ge: "\<forall>m \<in> set ms. 0 < snd m \<Longrightarrow> off \<le> members_end off ms"
proof (induction ms arbitrary: off)
  case (Cons m ms)
  then have "align_up (snd m) off + fst m \<le> members_end (align_up (snd m) off + fst m) ms" by simp
  then show ?case using align_up_ge [of "snd m" off] Cons.prems by simp
qed simp

lemma length_member_offsets [simp]: "length (member_offsets off ms) = length ms"
  by (induction ms arbitrary: off) auto

lemma member_offsets_range:
  assumes "\<forall>m \<in> set ms. 0 < snd m" and "i < length ms"
  shows "off \<le> member_offsets off ms ! i \<and> snd (ms ! i) dvd member_offsets off ms ! i
    \<and> member_offsets off ms ! i + fst (ms ! i) \<le> members_end off ms"
  using assms
proof (induction ms arbitrary: off i)
  case (Cons m ms)
  let ?o = "align_up (snd m) off"
  show ?case
  proof (cases i)
    case 0
    then show ?thesis using Cons.prems(1) align_up_ge [of "snd m" off] members_end_ge [of ms "?o + fst m"] by simp
  next
    case (Suc j)
    then show ?thesis using Cons.IH [of j "?o + fst m"] Cons.prems align_up_ge [of "snd m" off] by simp
  qed
qed simp

lemma member_offsets_apart:
  assumes "\<forall>m \<in> set ms. 0 < snd m" and "i < j" and "j < length ms"
  shows "member_offsets off ms ! i + fst (ms ! i) \<le> member_offsets off ms ! j"
  using assms
proof (induction ms arbitrary: off i j)
  case (Cons m ms)
  obtain k where k: "j = Suc k" using Cons.prems(2) by (cases j) auto
  show ?case
  proof (cases i)
    case 0
    then show ?thesis
      using member_offsets_range [of ms k "align_up (snd m) off + fst m"] Cons.prems k by simp
  next
    case (Suc i')
    then show ?thesis using Cons.IH [of i' k] Cons.prems k by simp
  qed
qed simp

lemma fold_max_ge: "(x :: nat) \<le> fold max xs x" "x \<in> set xs \<Longrightarrow> x \<le> fold max xs y"
proof -
  have base: "(x :: nat) \<le> fold max xs x" for x xs
  proof (induction xs arbitrary: x)
    case (Cons a xs)
    show ?case using Cons [of "max a x"] by simp
  qed simp
  show "(x :: nat) \<le> fold max xs x" by (rule base)
  show "x \<in> set xs \<Longrightarrow> x \<le> fold max xs y"
  proof (induction xs arbitrary: y)
    case (Cons a xs)
    show ?case using Cons base [of "max x y" xs] by auto
  qed simp
qed

lemma c_align_pos: "0 < c_align t"
  by (induction t rule: c_align.induct) (auto intro: order_less_le_trans [OF _ fold_max_ge(1)])

lemma struct_members:
  fixes ts
  defines "offs \<equiv> c_offsets (Struct ts)"
  assumes "i < length ts"
  shows "c_align (ts ! i) dvd offs ! i" and "offs ! i + c_sizeof (ts ! i) \<le> c_sizeof (Struct ts)"
    and "j < i \<Longrightarrow> offs ! j + c_sizeof (ts ! j) \<le> offs ! i"
proof -
  let ?ms = "map (\<lambda>t. (c_sizeof t, c_align t)) ts"
  have pos: "\<forall>m \<in> set ?ms. 0 < snd m" using c_align_pos by auto
  have o: "offs = member_offsets 0 ?ms" by (simp add: offs_def c_offsets_def)
  have "0 < fold max (map c_align ts) (1 :: nat)" by (rule order_less_le_trans [OF _ fold_max_ge(1)]) simp
  then have "members_end 0 ?ms \<le> c_sizeof (Struct ts)" using align_up_ge by simp
  then show "c_align (ts ! i) dvd offs ! i" "offs ! i + c_sizeof (ts ! i) \<le> c_sizeof (Struct ts)"
    using member_offsets_range [OF pos, of i 0] assms(2) by (auto simp: o)
  show "j < i \<Longrightarrow> offs ! j + c_sizeof (ts ! j) \<le> offs ! i"
    using member_offsets_apart [OF pos, of j i 0] assms(2) by (auto simp: o)
qed

section \<open>The layout the model uses\<close>

lemma structure_sizes:
  "c_sizeof memory_block_t = 16" "c_offsets memory_block_t = [0, 4, 8, 12]"
  "c_sizeof file_entry_t = 36" "c_offsets file_entry_t = [0, 16, 17, 20, 24, 28, 32]"
  "c_sizeof filesystem_t = 33936" "c_offsets filesystem_t = [0, 4, 8, 12, 16, 1168]"
  "c_sizeof file_handle_t = 12" "c_offsets file_handle_t = [0, 4, 8]"
  "c_sizeof idt_entry_t = 8" "c_offsets idt_entry_t = [0, 2, 4, 5, 6]"
  "c_sizeof idt_ptr_t = 6" "c_offsets idt_ptr_t = [0, 2]"
  by (simp_all add: memory_block_t_def file_entry_t_def filesystem_t_def file_handle_t_def
      idt_entry_t_def idt_ptr_t_def c_offsets_def align_up_def)

text \<open>Arrays keep their elements aligned: a size is a multiple of the alignment.\<close>

lemma c_align_dvd_sizeof: "c_align t dvd c_sizeof t"
  by (induction t rule: c_align.induct) simp_all

text \<open>The sizes and offsets in the model are those of the C structures under the ABI: the
  header of a block has 16 bytes with its fields at the offsets the accessors use, the structure
  that \<open>fs_init\<close> allocates has 33936 bytes, its data area is its last member, both may stand at
  any multiple of 4, and the limit loaded for the descriptor table is that of 256 packed gates.\<close>

theorem struct_layouts:
  "c_sizeof memory_block_t = unat MB_SIZEOF \<and> c_sizeof filesystem_t = unat FS_SIZEOF
   \<and> (\<forall>m a. ld_size m a = ld32 m (a + of_nat (c_offsets memory_block_t ! 0))
       \<and> ld_free m a = m (a + of_nat (c_offsets memory_block_t ! 1))
       \<and> ld_next m a = ld32 m (a + of_nat (c_offsets memory_block_t ! 2))
       \<and> ld_prev m a = ld32 m (a + of_nat (c_offsets memory_block_t ! 3)))
   \<and> last (c_offsets filesystem_t) + length (data_area zero_filesystem) = c_sizeof filesystem_t
   \<and> c_align memory_block_t = 4 \<and> c_align filesystem_t = 4
   \<and> idt_loaded (fst (idt_init table irq0 irq1 d p))
       = Some \<lparr>idtr_limit = of_nat (256 * c_sizeof idt_entry_t) - 1, idtr_base = table\<rparr>"
  unfolding structure_sizes
  by (simp add: ld_size_def ld_free_def ld_next_def ld_prev_def zero_filesystem_def idt_init_def Let_def
      memory_block_t_def filesystem_t_def file_entry_t_def)

end
