(* ===== verification/Spec2Isabelle.thy ===== *)
theory Spec2Isabelle imports Shell_Refinement Shell_Reports Keyboard_Layout Keyboard_Race C_Layout begin

text \<open>
  TRAK-OS, a 32-bit x86 kernel with a text screen, a polled PS/2 keyboard, a heap, a file
  system in memory and a command shell, modelled from its C sources.

  \<^bold>\<open>The program.\<close> \<open>kernel_main\<close> (src/kernel/kernel.c) brings up the screen
  (drivers/screen/screen.c), the interrupt descriptor table (kernel/idt.c), the timer
  (drivers/timer/timer.c), the heap (mm/memory.c), the file system (lib/filesystem.c), whose
  structure it allocates on the heap, and the keyboard (drivers/keyboard/keyboard.c); then it
  enters the loop of the shell (drivers/shell/shell.c), which reads keys, edits a line and
  executes commands on the heap and the files. The components share the screen, the I/O ports
  (include/io.h) and the tick counter, and call each other directly.

  \<^bold>\<open>The model.\<close> Each static variable is a field of a record, each function a definition that
  takes and returns the states it reads and writes, under the name it has in the code. A
  32-bit, 16-bit or 8-bit integer is a word of that width, so that arithmetic wraps as in C; a
  plain \<open>char\<close> is signed, and comparisons of characters use \<^term>\<open>sint\<close>. A C string is the list of
  bytes in front of its terminator. Behaviour that C leaves undefined and that the code can
  run into (an access past an array, a division by zero) is the outcome \<open>Inl\<close> of a
  \<^typ>\<open>fault\<close>; an array that the code indexes without a check has its length in the model.
  There is no fuel: a loop that ends on its own is a fold or a structural recursion, and a
  loop that waits for a device or follows pointers (\<open>keyboard_getchar\<close>, \<open>hlt\<close>,
  \<open>timer_wait_loop\<close>, \<open>kmalloc_find\<close>, \<open>edit_loop\<close>, \<open>halt_loop\<close>) is a partial function whose value \<open>None\<close> means
  that it never returns. That such a loop returns is always stated as \<open>Some\<close>.

  \<^bold>\<open>Theories and sources.\<close>
  \<^item> \<open>Trak_Prelude\<close>: include/types.h, C strings, faults, the lemma collections \<open>frame\<close>,
    \<open>inv_intros\<close> and \<open>wsimps\<close>, generic facts on folds and words.
  \<^item> \<open>Port_IO\<close>: \<open>outb\<close>, \<open>inb\<close>, \<open>outw\<close> and \<open>inw\<close>. What the devices answer is a parameter, one stream of bytes
    for each port; what is sent to them is recorded in order.
  \<^item> \<open>Screen_Driver\<close>: screen.c. The record \<open>screen\<close> extends the ports with the cells behind
    \<open>vga_buffer\<close>, the cursor and the colour. The interface \<open>console\<close> gives the frame and the
    invariant of printing to every user of the screen.
  \<^item> \<open>Number_Text\<close>: \<open>print_number\<close> and \<open>print_hex\<close>.
  \<^item> \<open>Byte_Memory\<close>: the flat memory, \<open>memory_block_t\<close> as bytes at its offsets (interfaces
    \<open>struct_field\<close> and \<open>field_pair\<close>), \<open>memcpy\<close>, \<open>memset\<close>, \<open>memcmp\<close>.
  \<^item> \<open>Heap_Allocator\<close>: memory.c. The block list is in the memory itself, as linked headers.
    \<open>Heap_Blocks\<close> is its specification, a list of sizes and free flags; \<open>Heap_Refinement\<close>
    relates the two; \<open>Heap_Properties\<close> states the contract of an allocator as the interfaces
    \<open>allocator\<close> and \<open>heap_client\<close>, interpreted on \<open>kmalloc\<close> and \<open>kfree\<close>; \<open>Heap_Theorems\<close>.
  \<^item> \<open>Keyboard_Driver\<close>, \<open>Timer_Driver\<close>, \<open>Interrupt_Table\<close>: keyboard.c, timer.c, idt.c.
    \<open>Interrupts\<close> puts the drivers' states side by side in the record \<open>machine\<close> and adds the two
    assembly entry points (arch/x86), \<open>hlt\<close> and the waits, with interrupts between the
    instructions of the waiting loop. \<open>Keyboard_Layout\<close> lists, in the key names of
    include/keyboard.h, what each key types and which keys type nothing, as the specification of
    the scancode tables; \<open>Keyboard_Race\<close> cuts \<open>keyboard_getchar\<close> into its accesses, with the
    handler in between (a call of \<open>process_scancode\<close> is one step there), and proves that without
    interrupts these steps are the loop.
  \<^item> \<open>File_System\<close>: filesystem.c. \<open>File_Properties\<close> has the invariant \<open>fs_inv\<close>, the view of the
    files as a map from names to contents and the interface \<open>file_store\<close>, interpreted on the
    operations; \<open>File_Theorems\<close>.
  \<^item> \<open>Shell_Text\<close>, \<open>Shell_Commands\<close>, \<open>Shell_Files\<close>: shell.c, its text functions, its commands,
    its editor, the dispatch and the loop, as the step relation \<open>shell_step\<close> over a line and
    the record \<open>kernel\<close>, the machine with the heap and the file system. \<open>Shell_Properties\<close> and
    \<open>Shell_Effects\<close> say what each command does and leaves alone; \<open>Shell_Theorems\<close>;
    \<open>Shell_Reports\<close>: what \<open>ls\<close>, \<open>time\<close> and \<open>uptime\<close> show.
  \<^item> \<open>Kernel_Main\<close>: kernel.c; \<open>Kernel_Theorems\<close>: what the start establishes.
    \<open>Shell_Session\<close>: the shell from the keys to the command. \<open>Shell_Refinement\<close>: a map from
    names to texts with its commands, the specification of the system as a file store; the
    typed text and this map with what each key does to them, \<open>store_key\<close>; and the simulation of
    every run of the shell, labelled with its keys, by a run of the specification on the same keys.
  \<^item> \<open>C_Layout\<close>: the typedefs of types.h and the structures as a datatype of C types, with
    \<open>sizeof\<close>, alignment and offsets under the 32-bit ABI.

  \<^bold>\<open>What the theorems show.\<close>
  \<^item> Heap: \<open>kmalloc\<close> always returns and is first fit on the block list, on every branch, from the
    uninitialised heap and the empty request on; \<open>kfree\<close> marks and merges on both sides; payloads
    are inside the heap, aligned and disjoint, and nothing but headers is written; \<open>krealloc\<close> keeps
    the data on every branch; every heap reached from boot is well formed and has no two free
    neighbours, so its blocks are determined by what is in use, and its counters are exact. A
    request within 3 bytes of the word size wraps and yields an empty payload.
  \<^item> File system: no operation leaves its arrays if names have at most 15 characters, whatever
    pointers are null, but for a write whose position and size wrap around, which always does; what
    is saved is what is loaded, and no other file changes; writes stop at 1024 bytes; all return
    codes; the three demo files at start-up, or the message that the memory is out.
  \<^item> Shell: every command keeps the invariant of the whole kernel; the only ways out of an
    array are a word of 64 characters, and a new file name of 16, and both happen; the line
    array is never overrun; what is typed, with its erasures and completions, is what runs;
    what is typed into the editor is what the file holds and what \<open>cat\<close> shows; \<open>memtest\<close>
    leaves the heap as it was; parsing and tab completion agree with their obvious
    specifications; \<open>ls\<close> shows exactly the files there are with their kinds and sizes, \<open>time\<close> and \<open>uptime\<close> the ticks.
  \<^item> The whole system: every command line does to the files what the command it says does to a
    map from names to texts, on which \<open>create\<close>, \<open>delete\<close> and \<open>edit\<close> are insertion, removal and
    update, with room for 32 names; every run from power-on is, key by key, one of this
    specification, in which only Enter can change a file.
  \<^item> Kernel: from any contents of memory the start reaches the shell in a good state, and the
    invariant holds in every state from then on. In the safe mode the kernel is built for the
    interrupts stay off, so the clock stands at 0 and \<open>sleep\<close> never returns.
  \<^item> Drivers: printing stays in the window and speaks to the CRT controller only; scrolling,
    the hardware cursor, the modifiers of the keyboard, the first key that \<open>keyboard_getchar\<close>
    returns, the divisor of the timer, the gates of the descriptor table and the masks of
    the interrupt controllers; \<open>timer_wait\<close>, which returns across a wrap of the counter after at
    least \<open>n\<close> and at most \<open>n + 2\<close> ticks. The keys type what their table says, the listed rest nothing.
    With the keyboard interrupt arriving between any two accesses of \<open>keyboard_getchar\<close>, as it
    may in the interactive mode, every key is returned once, under way, or lost; where a key is
    lost is exact, and without interrupts none is.
  \<^item> Layout: the sizes and offsets that the memory model uses are those of the C structures.

  \<^bold>\<open>Parameters.\<close> The answers of the devices, the interrupts the hardware raises, the bytes an
  uninitialised local array holds (\<open>stack_bytes\<close>), the memory at power-on, and the addresses
  that the linker gives to the descriptor table and the two entry points.

  \<^bold>\<open>Not modelled.\<close> The boot code arch/x86/boot.s and multiboot_simple.s and the linker script
  (they set the stack, clear the interrupt flag, which is the initial state of the model, and
  place sections); the build scripts; the language enumeration and the variadic-argument macros of
  types.h, which no C file uses. In the model of the whole kernel interrupts are taken in
  the waiting loop only, between its instructions and at \<open>hlt\<close>: with the safe mode of the source no
  interrupt ever reaches the processor. Of the interactive mode, the start up to the entry of the
  shell is modelled and, in \<open>Keyboard_Race\<close>, the one place where an interrupt handler and the
  shell share state.
  The file system's structure is kept apart from the heap bytes reserved for it; that these
  are 33936 bytes nothing else uses is part of what the start establishes.

  \<^bold>\<open>What the model shows to be wrong in the code.\<close> The erase sequence backspace, blank,
  backspace moves the cursor right instead of erasing; the block characters of the boot logo
  are skipped, being negative characters; the keypad row of the scancode table is one entry
  off; a key stored by the interrupt handler can be lost, and a tick can be slept over; sizes
  near the word size wrap around in \<open>kmalloc\<close>, \<open>krealloc\<close> and \<open>fs_write_file\<close>; \<open>create\<close> and \<open>edit\<close>
  overrun the 16 bytes of a name, and a word of 64 characters overruns the arrays of \<open>parse_command\<close>; deleting a file never gives back its bytes in the reported
  space; \<open>cat\<close> shows 511 bytes at most; \<open>edit\<close> of a directory turns it into a file; the
  advertised \<open>copy\<close> does not exist; \<open>sleep\<close> hangs the machine.
\<close>

end
